(* ===== verification/Prelude.thy ===== *)
theory Prelude
  imports Main "HOL-Library.Word" "HOL-Library.Monad_Syntax"
begin

text \<open>
  Shared vocabulary of the development.  A JavaScript \<^verbatim>\<open>Buffer\<close> or \<^verbatim>\<open>Uint8Array\<close> is a list
  of bytes (8-bit words).  A \<^verbatim>\<open>bigint\<close> is an \<open>int\<close>.  A \<^verbatim>\<open>number\<close> is either an
  integer-valued double or one that \<^verbatim>\<open>Number.isInteger\<close> refuses (a fraction, an infinity,
  NaN).  A string is represented by its UTF-8 bytes, one \<open>char\<close> each, so that
  \<^verbatim>\<open>Buffer.from(s, "utf8")\<close> and \<^verbatim>\<open>Buffer.byteLength\<close> are immediate; \<^verbatim>\<open>s.length\<close> is only
  used by the code for emptiness or next to a pattern that admits ASCII alone, where the byte
  count and the count of UTF-16 units agree.  The theory holds the byte, hexadecimal, decimal
  and Base64 conversions of the language's library that the components share, the lemmas about
  them, and the error-sum plumbing.
\<close>

unbundle bit_operations_syntax

named_theorems codec_simps \<open>evaluation rules of the field readers\<close>
named_theorems codec_dests \<open>inversion rules of the field readers\<close>

section \<open>Types\<close>

type_synonym byte = "8 word"
type_synonym bytes = "byte list"
type_synonym hash = "bytes \<Rightarrow> bytes"
type_synonym 'a reader = "bytes \<Rightarrow> ('a \<times> bytes) option"

datatype jsnum = JInt int | JFrac

text \<open>\<^verbatim>\<open>BigInt(n)\<close> for an integer-valued number; the code never reaches it with a fraction.\<close>

fun jint :: "jsnum \<Rightarrow> int" where
  "jint (JInt i) = i"
| "jint JFrac = 0"

text \<open>\<^verbatim>\<open>Number.isInteger(v) \<and> min \<le> v \<and> v \<le> max\<close>, the guard every component repeats.\<close>

fun int_in :: "jsnum \<Rightarrow> int \<Rightarrow> int \<Rightarrow> bool" where
  "int_in (JInt i) lo hi = (lo \<le> i \<and> i \<le> hi)"
| "int_in JFrac lo hi = False"

section \<open>Errors as sums\<close>

definition ebind :: "'e + 'a \<Rightarrow> ('a \<Rightarrow> 'e + 'b) \<Rightarrow> 'e + 'b" where
  "ebind m f = (case m of Inl e \<Rightarrow> Inl e | Inr x \<Rightarrow> f x)"

definition of_opt :: "'e \<Rightarrow> 'a option \<Rightarrow> 'e + 'a" where
  "of_opt e m = (case m of None \<Rightarrow> Inl e | Some x \<Rightarrow> Inr x)"

definition is_ok :: "'e + 'a \<Rightarrow> bool" where
  "is_ok m = (case m of Inl _ \<Rightarrow> False | Inr _ \<Rightarrow> True)"

section \<open>Little- and big-endian integers\<close>

text \<open>The byte loops \<^verbatim>\<open>b[i] = n & 255; n >>= 8\<close> (two's complement for negative values) and
  \<^verbatim>\<open>result = (result << 8) | b[i]\<close> from the most significant byte down.\<close>

fun le_num :: "nat \<Rightarrow> int \<Rightarrow> bytes" where
  "le_num 0 v = []"
| "le_num (Suc n) v = word_of_int (v mod 256) # le_num n (v div 256)"

fun le_val :: "bytes \<Rightarrow> int" where
  "le_val [] = 0"
| "le_val (b # bs) = le_val bs * 256 + uint b"

definition be_num :: "nat \<Rightarrow> int \<Rightarrow> bytes" where
  "be_num n v = rev (le_num n v)"

definition be_val :: "bytes \<Rightarrow> int" where
  "be_val bs = le_val (rev bs)"

definition bytes_of_string :: "string \<Rightarrow> bytes" where
  "bytes_of_string s = map of_char s"

text \<open>\<^verbatim>\<open>s.split("/")\<close>.\<close>

fun split_slash :: "string \<Rightarrow> string list" where
  "split_slash [] = [[]]"
| "split_slash (c # s) = (if c = CHR ''/'' then [] # split_slash s else case split_slash s of x # xs \<Rightarrow> (c # x) # xs | [] \<Rightarrow> [[c]])"

definition string_of_bytes :: "bytes \<Rightarrow> string" where
  "string_of_bytes bs = map (\<lambda>b. char_of (unat b)) bs"

definition zeros :: "nat \<Rightarrow> bytes" where
  "zeros n = replicate n 0"

definition all_zero :: "bytes \<Rightarrow> bool" where
  "all_zero bs = list_all (\<lambda>b. b = 0) bs"

text \<open>\<^verbatim>\<open>data.subarray(from, to)\<close>.\<close>

definition subarray :: "nat \<Rightarrow> nat \<Rightarrow> bytes \<Rightarrow> bytes" where
  "subarray from to bs = take (to - from) (drop from bs)"

section \<open>Field readers\<close>

definition rd_raw :: "nat \<Rightarrow> bytes reader" where
  "rd_raw n d = (if n > length d then None else Some (take n d, drop n d))"

definition rd_le :: "nat \<Rightarrow> int reader" where
  "rd_le n d = map_option (\<lambda>(x, r). (le_val x, r)) (rd_raw n d)"

fun rd_many :: "nat \<Rightarrow> 'a reader \<Rightarrow> 'a list reader" where
  "rd_many 0 rd d = Some ([], d)"
| "rd_many (Suc n) rd d = do {
     (x, d) \<leftarrow> rd d; (xs, d) \<leftarrow> rd_many n rd d; Some (x # xs, d) }"

definition BN254_MODULUS :: int where
  "BN254_MODULUS = 21888242871839275222246405745257275088548364400416034343698204186575808495617"

definition BN254_BASE_FIELD :: int where
  "BN254_BASE_FIELD = 21888242871839275222246405745257275088696311157297823662689037894645226208583"

section \<open>Lemmas: errors\<close>

lemma those_map_Some: "(\<And>x. x \<in> set xs \<Longrightarrow> f x = Some (g x)) \<Longrightarrow> those (map f xs) = Some (map g xs)"
  by (induction xs) auto

lemma ebind_simps [simp]: "ebind (Inl e) f = Inl e" "ebind (Inr x) f = f x"
  by (simp_all add: ebind_def)

lemma ebind_eq_Inr: "ebind m f = Inr y \<longleftrightarrow> (\<exists>x. m = Inr x \<and> f x = Inr y)"
  by (cases m) auto

lemma ebind_eq_Inl: "ebind m f = Inl e \<longleftrightarrow> m = Inl e \<or> (\<exists>x. m = Inr x \<and> f x = Inl e)"
  by (cases m) auto

lemma those_Some: "those xs = Some ys \<longleftrightarrow> xs = map Some ys"
  by (induction xs arbitrary: ys) (auto split: option.splits simp: Cons_eq_map_conv)

lemma find_SomeD: "find P xs = Some x \<Longrightarrow> x \<in> set xs \<and> P x"
  by (auto simp: find_Some_iff)

lemma find_NoneD: "find P xs = None \<Longrightarrow> x \<in> set xs \<Longrightarrow> \<not> P x"
  by (auto simp: find_None_iff)

lemma length_filter_bound: "int (length xs) \<le> n \<Longrightarrow> int (length (filter P xs)) \<le> n"
  by (meson length_filter_le of_nat_mono order_trans)

lemma option_eq_iffI: "(\<And>y. f = Some y \<longleftrightarrow> g = Some y) \<Longrightarrow> f = g"
  by (cases f; cases g) auto

lemma of_opt_simps [simp]:
  "of_opt e None = Inl e" "of_opt e (Some x) = Inr x"
  "of_opt e m = Inr y \<longleftrightarrow> m = Some y"
  "of_opt e m = Inl e' \<longleftrightarrow> m = None \<and> e' = e"
  by (auto simp: of_opt_def split: option.splits)

lemma is_ok_simps [simp]: "is_ok (Inr x)" "\<not> is_ok (Inl e)"
  by (simp_all add: is_ok_def)

lemma is_ok_iff: "is_ok m \<longleftrightarrow> (\<exists>x. m = Inr x)"
  by (cases m) auto

lemma int_inD [dest]: "int_in v lo hi \<Longrightarrow> v = JInt (jint v) \<and> lo \<le> jint v \<and> jint v \<le> hi"
  by (cases v) auto

section \<open>Lemmas: integers and bytes\<close>

lemma length_le_num [simp]: "length (le_num n v) = n"
  by (induction n arbitrary: v) auto

lemma length_be_num [simp]: "length (be_num n v) = n"
  by (simp add: be_num_def)

lemma uint_byte_bounds [simp]: "0 \<le> uint (b :: byte)" "uint (b :: byte) < 256"
  using uint_lt2p [of b] by simp_all

lemma le_val_nonneg [simp]: "0 \<le> le_val bs"
  by (induction bs) auto

lemma le_val_less: "le_val bs < 256 ^ length bs"
proof (induction bs)
  case (Cons b bs)
  have "le_val bs * 256 + uint b < (le_val bs + 1) * 256" by simp
  also have "\<dots> \<le> 256 ^ length bs * 256" using Cons.IH by simp
  finally show ?case by (simp add: mult.commute)
qed simp

lemma le_val_le_num: "le_val (le_num n v) = v mod 256 ^ n"
proof (induction n arbitrary: v)
  case (Suc n)
  have "v div 256 mod 256 ^ n * 256 + v mod 256 = v mod (256 * 256 ^ n)"
    by (simp add: zmod_zmult2_eq [of "256 ^ n" v 256] mult.commute)
  then show ?case by (simp add: Suc.IH uint_word_of_int_eq take_bit_eq_mod)
qed simp

lemma le_val_le_num_id [simp]: "0 \<le> v \<Longrightarrow> v < 256 ^ n \<Longrightarrow> le_val (le_num n v) = v"
  by (simp add: le_val_le_num)

lemma le_num_le_val [simp]: "le_num (length bs) (le_val bs) = bs"
proof (induction bs)
  case (Cons b bs)
  have "(le_val bs * 256 + uint b) mod 256 = uint b" by simp
  moreover have "(le_val bs * 256 + uint b) div 256 = le_val bs" by simp
  ultimately show ?case using Cons.IH by simp
qed simp

lemma le_num_le_val': "length bs = n \<Longrightarrow> le_num n (le_val bs) = bs"
  by auto

lemma le_val_inj: "length xs = length ys \<Longrightarrow> le_val xs = le_val ys \<Longrightarrow> xs = ys"
  by (metis le_num_le_val)

lemma be_val_be_num [simp]: "0 \<le> v \<Longrightarrow> v < 256 ^ n \<Longrightarrow> be_val (be_num n v) = v"
  by (simp add: be_val_def be_num_def)

lemma be_num_be_val [simp]: "be_num (length bs) (be_val bs) = bs"
  using le_num_le_val [of "rev bs"] by (simp add: be_num_def be_val_def)

lemma be_num_be_val': "length bs = n \<Longrightarrow> be_num n (be_val bs) = bs"
  by auto

lemma be_val_nonneg [simp]: "0 \<le> be_val bs"
  by (simp add: be_val_def)

lemma be_val_less: "be_val bs < 256 ^ length bs"
  using le_val_less [of "rev bs"] by (simp add: be_val_def)

lemma be_val_inj: "length xs = length ys \<Longrightarrow> be_val xs = be_val ys \<Longrightarrow> xs = ys"
  by (metis be_num_be_val)

lemma length_bytes_of_string [simp]: "length (bytes_of_string s) = length s"
  by (simp add: bytes_of_string_def)

lemma unat_of_char [simp]: "unat (of_char c :: byte) = of_char c"
proof -
  have "unat (of_nat (of_char c) :: byte) = of_char c mod 256"
    by (simp only: unat_of_nat) simp
  then show ?thesis by (simp add: of_nat_of_char)
qed

lemma string_of_bytes_of_string [simp]: "string_of_bytes (bytes_of_string s) = s"
  by (induction s) (simp_all add: string_of_bytes_def bytes_of_string_def)

lemma bytes_of_string_of_bytes [simp]: "bytes_of_string (string_of_bytes bs) = bs"
proof -
  have "(of_char (char_of (unat b)) :: byte) = b" for b :: byte
  proof -
    have "(of_nat (of_char (char_of (unat b))) :: byte) = of_nat (unat b mod 256)"
      by (simp only: of_char_of)
    also have "unat b mod 256 = unat b" using unsigned_less [of b, where 'a = nat] by simp
    finally show ?thesis by (simp only: of_nat_of_char) simp
  qed
  then show ?thesis by (induction bs) (simp_all add: string_of_bytes_def bytes_of_string_def)
qed

lemma length_string_of_bytes [simp]: "length (string_of_bytes bs) = length bs"
  by (simp add: string_of_bytes_def)

lemma bytes_of_string_inj [simp]: "bytes_of_string s = bytes_of_string t \<longleftrightarrow> s = t"
  by (metis string_of_bytes_of_string)

lemma length_zeros [simp]: "length (zeros n) = n"
  by (simp add: zeros_def)

lemma be_val_zeros [simp]: "be_val (zeros n) = 0"
proof -
  have "le_val (replicate n 0) = 0" by (induction n) auto
  then show ?thesis by (simp add: be_val_def zeros_def)
qed

declare le_num.simps [simp del]

section \<open>Lemmas: fixed offsets\<close>

lemma length_subarray [simp]: "b \<le> length xs \<Longrightarrow> length (subarray a b xs) = b - a"
  by (simp add: subarray_def)

lemma subarray_join: "a \<le> b \<Longrightarrow> b \<le> c \<Longrightarrow> subarray a b xs @ subarray b c xs = subarray a c xs"
  using take_add [of "b - a" "c - b" "drop a xs"] by (simp add: subarray_def)

lemma subarray_all: "length xs = n \<Longrightarrow> subarray 0 n xs = xs"
  by (simp add: subarray_def)

lemma subarray_skip: "length xs \<le> a \<Longrightarrow> subarray a b (xs @ ys) = subarray (a - length xs) (b - length xs) ys"
  by (simp add: subarray_def)

lemma subarray_front: "b \<le> length xs \<Longrightarrow> subarray a b (xs @ ys) = subarray a b xs"
  by (simp add: subarray_def)

lemma subarray_from: "a = 0 \<Longrightarrow> length xs \<le> b \<Longrightarrow> subarray a b (xs @ ys) = xs @ subarray 0 (b - length xs) ys"
  by (simp add: subarray_def)

lemma subarray_empty [simp]: "subarray a a xs = []"
  by (simp add: subarray_def)

lemma subarray_Cons: "0 < a \<Longrightarrow> subarray a b (x # xs) = subarray (a - 1) (b - 1) xs"
  by (cases a) (simp_all add: subarray_def)

lemma subarray_Cons_0: "a = 0 \<Longrightarrow> 0 < b \<Longrightarrow> subarray a b (x # xs) = x # subarray 0 (b - 1) xs"
  by (cases b) (simp_all add: subarray_def)

lemmas offset_simps = subarray_Cons_0 subarray_Cons subarray_skip subarray_from subarray_all subarray_front

text \<open>A buffer cut at increasing offsets is the concatenation of its pieces.\<close>

fun pieces :: "nat \<Rightarrow> nat list \<Rightarrow> bytes \<Rightarrow> bytes" where
  "pieces a [] xs = []"
| "pieces a (b # bs) xs = subarray a b xs @ pieces b bs xs"

lemma pieces_join: "sorted (a # bs) \<Longrightarrow> pieces a bs xs = subarray a (last (a # bs)) xs"
proof (induction bs arbitrary: a)
  case (Cons b bs)
  then have "a \<le> b" "b \<le> last (b # bs)" by auto
  with Cons show ?case using subarray_join [of a b "last (b # bs)" xs] by (simp split: if_splits)
qed simp

lemma cut_at: "sorted (0 # bs) \<Longrightarrow> bs \<noteq> [] \<Longrightarrow> length xs = last bs \<Longrightarrow> pieces 0 bs xs = xs"
  by (simp only: pieces_join) (simp add: subarray_all)

section \<open>Lemmas: readers\<close>

lemma rd_raw_append [codec_simps]: "length xs = n \<Longrightarrow> rd_raw n (xs @ r) = Some (xs, r)"
  by (simp add: rd_raw_def)

lemma rd_le_append [codec_simps]:
  "0 \<le> v \<Longrightarrow> v < 256 ^ n \<Longrightarrow> rd_le n (le_num n v @ r) = Some (v, r)"
  by (simp add: rd_le_def rd_raw_append)

lemma rd_raw_Some [codec_dests]: "rd_raw n d = Some (x, r) \<Longrightarrow> d = x @ r \<and> length x = n"
  by (auto simp: rd_raw_def split: if_splits)

lemma rd_le_Some [codec_dests]:
  assumes "rd_le n d = Some (v, r)"
  shows "d = le_num n v @ r \<and> 0 \<le> v \<and> v < 256 ^ n"
proof -
  from assms obtain x where x: "rd_raw n d = Some (x, r)" and v: "v = le_val x"
    by (auto simp: rd_le_def)
  from rd_raw_Some [OF x] have "d = x @ r" and "length x = n" by auto
  with v show ?thesis using le_val_less [of x] by auto
qed

section \<open>The contract of a field codec\<close>

text \<open>
  A codec for one field: what the encoder writes for an admissible value the reader takes off
  the front of the input, and whatever the reader takes off is what the encoder would have
  written.  Sequences of such fields inherit both laws, and two admissible values never share
  an encoding.
\<close>

locale codec =
  fixes enc :: "'a \<Rightarrow> bytes"
    and rd :: "'a reader"
    and ok :: "'a \<Rightarrow> bool"
  assumes rd_enc: "ok x \<Longrightarrow> rd (enc x @ r) = Some (x, r)"
    and rd_det: "rd d = Some (x, r) \<Longrightarrow> d = enc x @ r"
begin

lemma many_enc: "list_all ok xs \<Longrightarrow> rd_many (length xs) rd (concat (map enc xs) @ r) = Some (xs, r)"
  by (induction xs) (auto simp: rd_enc)

lemma many_det:
  "rd_many n rd d = Some (xs, r) \<Longrightarrow> d = concat (map enc xs) @ r \<and> length xs = n"
  by (induction n arbitrary: d xs) (fastforce simp: Option.bind_eq_Some_conv dest: rd_det)+

lemma enc_inject: "ok x \<Longrightarrow> ok y \<Longrightarrow> enc x = enc y \<Longrightarrow> x = y"
  using rd_enc [of x "[]"] rd_enc [of y "[]"] by simp

end

interpretation raw: codec "\<lambda>x. x" "rd_raw n" "\<lambda>x. length x = n" for n
  by unfold_locales (auto simp: rd_raw_append dest: rd_raw_Some)

interpretation le: codec "le_num n" "rd_le n" "\<lambda>v. 0 \<le> v \<and> v < 256 ^ n" for n
  by unfold_locales (auto simp: rd_le_append dest: rd_le_Some)

lemma le_num_u32_inject:
  assumes "int_in x 1 0xffffffff" and "int_in y 1 0xffffffff" and "le_num 4 (jint x) = le_num 4 (jint y)"
  shows "x = y"
proof -
  from assms(1,2) obtain i j where "x = JInt i" "y = JInt j" "1 \<le> i" "i \<le> 0xffffffff" "1 \<le> j" "j \<le> 0xffffffff"
    by (cases x; cases y) simp_all
  with assms(3) le.enc_inject [of i 4 j] show ?thesis by simp
qed

end
