(* ===== verification/Transcript.thy ===== *)
theory Transcript
  imports Prelude
begin

text \<open>
  The canonical observation transcript OBS_TRANSCRIPT_V0
  (\<^verbatim>\<open>packages/verifier/src/observation-transcript.ts\<close>): its three interfaces as records, the
  structural validation, the Borsh-style encoder, the strict decoder and the two hashes.
  The set of nonces is kept on the buffers themselves rather than on their hexadecimal text.
  \<^verbatim>\<open>TranscriptEncodingError\<close> is the only error these functions throw, so a throw is \<open>None\<close>.
  The lemmas show that the decoder and the encoder are inverse to each other on exactly the
  validated transcripts, hence that the wire form is canonical.
\<close>

section \<open>Data\<close>

record TranscriptChallenge =
  tc_nonce :: bytes
  tc_signature :: bytes
  tc_deviceTimestamp :: int
  tc_deviceCounter :: jsnum
  tc_roundTripMilliseconds :: jsnum
  tc_rssiDBM :: jsnum

record TranscriptLocalSignals =
  tl_geohash6 :: bytes
  tl_gpsAccuracyMeters :: jsnum
  tl_barometerHPATimes10 :: jsnum
  tl_motionClass :: jsnum
  tl_wifiBSSIDHash :: bytes
  tl_rssiSamples :: "jsnum list"

record ObservationTranscript =
  ot_version :: jsnum
  ot_protocolID :: bytes
  ot_deviceID :: bytes
  ot_publicKey :: bytes
  ot_curve :: jsnum
  ot_epoch :: jsnum
  ot_observationTimeMilliseconds :: int
  ot_challenges :: "TranscriptChallenge list"
  ot_local :: TranscriptLocalSignals
  ot_evidenceHash :: bytes
  ot_pseudonym :: bytes
  ot_nullifier :: bytes
  ot_observerClass :: jsnum

section \<open>Validation\<close>

definition field_ok :: "bytes \<Rightarrow> bool" where
  "field_ok v = (length v = 32 \<and> be_val v < BN254_MODULUS)"

definition u64_ok :: "int \<Rightarrow> bool" where
  "u64_ok n = (0 \<le> n \<and> n \<le> 0xffffffffffffffff)"

definition geohash_alphabet :: bytes where
  "geohash_alphabet = bytes_of_string ''0123456789bcdefghjkmnpqrstuvwxyz''"

definition challenge_ok :: "TranscriptChallenge \<Rightarrow> bool" where
  "challenge_ok c = (length (tc_nonce c) = 32 \<and> length (tc_signature c) = 64 \<and>
     u64_ok (tc_deviceTimestamp c) \<and> int_in (tc_deviceCounter c) 0 0xffffffff \<and>
     int_in (tc_roundTripMilliseconds c) 0 0xffff \<and> int_in (tc_rssiDBM c) (-127) 0)"

definition local_ok :: "TranscriptLocalSignals \<Rightarrow> jsnum \<Rightarrow> bool" where
  "local_ok l minimum = (length (tl_geohash6 l) = 6 \<and>
     (all_zero (tl_geohash6 l) \<or> list_all (\<lambda>b. b \<in> set geohash_alphabet) (tl_geohash6 l)) \<and>
     length (tl_wifiBSSIDHash l) = 32 \<and> int_in (tl_gpsAccuracyMeters l) 0 0xffff \<and>
     int_in (tl_barometerHPATimes10 l) 0 0xffff \<and> int_in (tl_motionClass l) 0 3 \<and>
     jint minimum \<le> int (length (tl_rssiSamples l)) \<and> length (tl_rssiSamples l) \<le> 20 \<and>
     list_all (\<lambda>r. int_in r (-127) 0) (tl_rssiSamples l))"

definition validateObservationTranscript :: "ObservationTranscript \<Rightarrow> jsnum \<Rightarrow> bool" where
  "validateObservationTranscript v minimum = (int_in minimum 0 5 \<and> ot_version v = JInt 0 \<and>
     list_all (\<lambda>part. length part = 32)
       [ot_protocolID v, ot_deviceID v, ot_publicKey v, ot_evidenceHash v] \<and>
     \<not> all_zero (ot_protocolID v) \<and> field_ok (ot_pseudonym v) \<and> field_ok (ot_nullifier v) \<and>
     int_in (ot_curve v) 1 2 \<and> int_in (ot_observerClass v) 1 3 \<and>
     int_in (ot_epoch v) 0 0xffffffff \<and> u64_ok (ot_observationTimeMilliseconds v) \<and>
     length (ot_challenges v) = 3 \<and> list_all challenge_ok (ot_challenges v) \<and>
     length (remdups (map tc_nonce (ot_challenges v))) = 3 \<and> local_ok (ot_local v) minimum)"

section \<open>Encoding\<close>

definition encode_challenge :: "TranscriptChallenge \<Rightarrow> bytes" where
  "encode_challenge c = tc_nonce c @ tc_signature c @ le_num 8 (tc_deviceTimestamp c) @
     le_num 4 (jint (tc_deviceCounter c)) @ le_num 2 (jint (tc_roundTripMilliseconds c)) @
     le_num 1 (jint (tc_rssiDBM c))"

definition encode_local :: "TranscriptLocalSignals \<Rightarrow> bytes" where
  "encode_local l = tl_geohash6 l @ le_num 2 (jint (tl_gpsAccuracyMeters l)) @
     le_num 2 (jint (tl_barometerHPATimes10 l)) @ le_num 1 (jint (tl_motionClass l)) @
     tl_wifiBSSIDHash l @ le_num 4 (int (length (tl_rssiSamples l))) @
     concat (map (\<lambda>r. le_num 1 (jint r)) (tl_rssiSamples l))"

definition transcript_bytes :: "ObservationTranscript \<Rightarrow> bytes" where
  "transcript_bytes v = le_num 1 0 @ ot_protocolID v @ ot_deviceID v @ ot_publicKey v @
     le_num 1 (jint (ot_curve v)) @ le_num 4 (jint (ot_epoch v)) @
     le_num 8 (ot_observationTimeMilliseconds v) @
     le_num 4 (int (length (ot_challenges v))) @
     concat (map encode_challenge (ot_challenges v)) @ encode_local (ot_local v) @
     ot_evidenceHash v @ ot_pseudonym v @ ot_nullifier v @ le_num 1 (jint (ot_observerClass v))"

definition encodeObservationTranscript :: "ObservationTranscript \<Rightarrow> bytes option" where
  "encodeObservationTranscript v =
     (if \<not> validateObservationTranscript v (JInt 5) then None else Some (transcript_bytes v))"

section \<open>Decoding\<close>

definition rd_num :: "nat \<Rightarrow> jsnum reader" where
  "rd_num n d = map_option (\<lambda>(v, r). (JInt v, r)) (rd_le n d)"

definition rd_rssi :: "jsnum reader" where
  "rd_rssi d = map_option (\<lambda>(v, r). (JInt (if v \<ge> 128 then v - 256 else v), r)) (rd_le 1 d)"

definition rd_challenge :: "TranscriptChallenge reader" where
  "rd_challenge d = do {
     (nonce, d) \<leftarrow> rd_raw 32 d; (sig, d) \<leftarrow> rd_raw 64 d; (ts, d) \<leftarrow> rd_le 8 d;
     (ctr, d) \<leftarrow> rd_num 4 d; (rtt, d) \<leftarrow> rd_num 2 d; (rssi, d) \<leftarrow> rd_rssi d;
     Some (\<lparr>tc_nonce = nonce, tc_signature = sig, tc_deviceTimestamp = ts,
            tc_deviceCounter = ctr, tc_roundTripMilliseconds = rtt, tc_rssiDBM = rssi\<rparr>, d) }"

definition rd_local :: "int \<Rightarrow> TranscriptLocalSignals reader" where
  "rd_local minimum d = do {
     (geo, d) \<leftarrow> rd_raw 6 d; (gps, d) \<leftarrow> rd_num 2 d; (baro, d) \<leftarrow> rd_num 2 d;
     (motion, d) \<leftarrow> rd_num 1 d; (wifi, d) \<leftarrow> rd_raw 32 d; (count, d) \<leftarrow> rd_le 4 d;
     if count < minimum \<or> count > 20 then None
     else do {
       (samples, d) \<leftarrow> rd_many (nat count) rd_rssi d;
       Some (\<lparr>tl_geohash6 = geo, tl_gpsAccuracyMeters = gps, tl_barometerHPATimes10 = baro,
              tl_motionClass = motion, tl_wifiBSSIDHash = wifi, tl_rssiSamples = samples\<rparr>, d) } }"

definition rd_transcript :: "int \<Rightarrow> ObservationTranscript reader" where
  "rd_transcript minimum d = do {
     (version, d) \<leftarrow> rd_le 1 d;
     if version \<noteq> 0 then None else do {
     (protocolID, d) \<leftarrow> rd_raw 32 d; (deviceID, d) \<leftarrow> rd_raw 32 d; (publicKey, d) \<leftarrow> rd_raw 32 d;
     (curve, d) \<leftarrow> rd_num 1 d; (epoch, d) \<leftarrow> rd_num 4 d; (time, d) \<leftarrow> rd_le 8 d;
     (n, d) \<leftarrow> rd_le 4 d;
     if n \<noteq> 3 then None else do {
     (cs, d) \<leftarrow> rd_many 3 rd_challenge d; (loc, d) \<leftarrow> rd_local minimum d;
     (evidence, d) \<leftarrow> rd_raw 32 d; (pseudonym, d) \<leftarrow> rd_raw 32 d; (nullifier, d) \<leftarrow> rd_raw 32 d;
     (cls, d) \<leftarrow> rd_num 1 d;
     Some (\<lparr>ot_version = JInt 0, ot_protocolID = protocolID, ot_deviceID = deviceID,
            ot_publicKey = publicKey, ot_curve = curve, ot_epoch = epoch,
            ot_observationTimeMilliseconds = time, ot_challenges = cs, ot_local = loc,
            ot_evidenceHash = evidence, ot_pseudonym = pseudonym, ot_nullifier = nullifier,
            ot_observerClass = cls\<rparr>, d) } } }"

definition decodeObservationTranscript :: "bytes \<Rightarrow> jsnum \<Rightarrow> ObservationTranscript option" where
  "decodeObservationTranscript input minimum =
     (if \<not> int_in minimum 0 5 then None
      else if int (length input) < 591 + jint minimum \<or> length input > 611 then None
      else do {
        (v, rest) \<leftarrow> rd_transcript (jint minimum) input;
        if rest \<noteq> [] then None
        else if \<not> validateObservationTranscript v minimum then None else Some v })"

section \<open>Hashes\<close>

definition transcript_domain :: bytes where
  "transcript_domain = bytes_of_string ''Pathnod/transcript/v0''"

definition observationTranscriptHash :: "hash \<Rightarrow> ObservationTranscript \<Rightarrow> bytes option" where
  "observationTranscriptHash sha256 v =
     map_option (\<lambda>e. sha256 (transcript_domain @ e)) (encodeObservationTranscript v)"

definition observationEvidenceHash :: "hash \<Rightarrow> bytes option \<Rightarrow> bytes" where
  "observationEvidenceHash sha256 evidence =
     (case evidence of None \<Rightarrow> zeros 32 | Some e \<Rightarrow> sha256 e)"

section \<open>The readers and encoders are codecs\<close>

lemma rd_num_append [codec_simps]:
  "int_in v 0 hi \<Longrightarrow> hi < 256 ^ n \<Longrightarrow> rd_num n (le_num n (jint v) @ r) = Some (v, r)"
  by (cases v) (auto simp: rd_num_def rd_le_append)

lemma rd_num_Some [codec_dests]:
  "rd_num n d = Some (v, r) \<Longrightarrow> d = le_num n (jint v) @ r"
  by (auto simp: rd_num_def dest: rd_le_Some)

lemma rd_rssi_append [codec_simps]:
  assumes "int_in v (-127) 0"
  shows "rd_rssi (le_num (Suc 0) (jint v) @ r) = Some (v, r)"
proof -
  from assms obtain i where v: "v = JInt i" and i: "-127 \<le> i" "i \<le> 0" by (cases v) auto
  show ?thesis
  proof (cases "i = 0")
    case False
    with i have "i mod 256 = i + 256"
      by presburger
    with i False v show ?thesis
      by (simp add: rd_rssi_def rd_le_def rd_raw_def le_val_le_num)
  qed (simp add: v rd_rssi_def rd_le_def rd_raw_def)
qed

lemma rd_rssi_Some [codec_dests]:
  assumes "rd_rssi d = Some (v, r)"
  shows "d = le_num (Suc 0) (jint v) @ r"
proof -
  from assms obtain u where u: "rd_le 1 d = Some (u, r)"
    and v: "v = JInt (if u \<ge> 128 then u - 256 else u)" by (auto simp: rd_rssi_def)
  have "le_num (Suc 0) (u - 256) = le_num (Suc 0) u"
    by (simp add: le_num.simps)
  with v rd_le_Some [OF u] show ?thesis by simp
qed

interpretation rssi: codec "\<lambda>r. le_num (Suc 0) (jint r)" rd_rssi "\<lambda>r. int_in r (-127) 0"
  by unfold_locales (fact rd_rssi_append, fact rd_rssi_Some)

lemma u64_bound: "u64_ok n \<Longrightarrow> 0 \<le> n \<and> n < 256 ^ 8"
  by (simp add: u64_ok_def)

lemma rd_challenge_append:
  assumes "challenge_ok c"
  shows "rd_challenge (encode_challenge c @ r) = Some (c, r)"
proof -
  note [simp] = codec_simps
  from assms have "length (tc_nonce c) = 32" "length (tc_signature c) = 64"
    "0 \<le> tc_deviceTimestamp c \<and> tc_deviceTimestamp c < 256 ^ 8"
    "int_in (tc_deviceCounter c) 0 0xffffffff" "int_in (tc_roundTripMilliseconds c) 0 0xffff"
    "int_in (tc_rssiDBM c) (-127) 0"
    by (auto simp: challenge_ok_def dest: u64_bound)
  then show ?thesis
    by (simp add: rd_challenge_def encode_challenge_def
        rd_num_append [of _ "0xffffffff"] rd_num_append [of _ "0xffff"])
qed

lemma rd_challenge_Some: "rd_challenge d = Some (c, r) \<Longrightarrow> d = encode_challenge c @ r"
  by (auto simp: rd_challenge_def encode_challenge_def Option.bind_eq_Some_conv dest!: codec_dests)

interpretation challenge: codec encode_challenge rd_challenge challenge_ok
  by unfold_locales (fact rd_challenge_append, fact rd_challenge_Some)

lemma rd_local_append:
  assumes "local_ok l minimum"
  shows "rd_local (jint minimum) (encode_local l @ r) = Some (l, r)"
proof -
  note [simp] = codec_simps
  from assms have *: "length (tl_geohash6 l) = 6" "length (tl_wifiBSSIDHash l) = 32"
    "int_in (tl_gpsAccuracyMeters l) 0 0xffff" "int_in (tl_barometerHPATimes10 l) 0 0xffff"
    "int_in (tl_motionClass l) 0 3" "length (tl_rssiSamples l) \<le> 20"
    "jint minimum \<le> int (length (tl_rssiSamples l))"
    and samples: "list_all (\<lambda>r. int_in r (-127) 0) (tl_rssiSamples l)"
    by (auto simp: local_ok_def)
  from samples have "rd_many (length (tl_rssiSamples l)) rd_rssi
      (concat (map (\<lambda>r. le_num (Suc 0) (jint r)) (tl_rssiSamples l)) @ r) = Some (tl_rssiSamples l, r)"
    by (rule rssi.many_enc)
  with * show ?thesis
    by (simp add: rd_local_def encode_local_def rd_num_append [of _ "0xffff"] rd_num_append [of _ 3])
qed

lemma rd_local_Some: "rd_local m d = Some (l, r) \<Longrightarrow> d = encode_local l @ r"
  by (auto simp: rd_local_def encode_local_def Option.bind_eq_Some_conv
      dest!: codec_dests rssi.many_det split: if_splits)

lemma rd_transcript_append:
  assumes "validateObservationTranscript v minimum"
  shows "rd_transcript (jint minimum) (transcript_bytes v @ r) = Some (v, r)"
proof -
  note [simp] = codec_simps
  from assms have *: "ot_version v = JInt 0" "length (ot_protocolID v) = 32"
    "length (ot_deviceID v) = 32" "length (ot_publicKey v) = 32" "length (ot_evidenceHash v) = 32"
    "length (ot_pseudonym v) = 32" "length (ot_nullifier v) = 32" "int_in (ot_curve v) 1 2"
    "int_in (ot_observerClass v) 1 3" "int_in (ot_epoch v) 0 0xffffffff"
    "length (ot_challenges v) = 3" "list_all challenge_ok (ot_challenges v)"
    and l: "local_ok (ot_local v) minimum"
    and t: "0 \<le> ot_observationTimeMilliseconds v \<and> ot_observationTimeMilliseconds v < 256 ^ 8"
    by (auto simp: validateObservationTranscript_def field_ok_def dest: u64_bound)
  from * have "int_in (ot_curve v) 0 2" "int_in (ot_observerClass v) 0 3"
    by (cases "ot_curve v"; cases "ot_observerClass v"; simp)+
  moreover have "rd_many 3 rd_challenge (concat (map encode_challenge (ot_challenges v)) @ s)
      = Some (ot_challenges v, s)" for s
    using challenge.many_enc [of "ot_challenges v" s] * by simp
  ultimately show ?thesis using * t
    by (simp add: rd_transcript_def transcript_bytes_def rd_num_append [of _ 2]
        rd_num_append [of _ 3] rd_num_append [of _ "0xffffffff"] rd_local_append [OF l])
qed

lemma rd_transcript_Some: "rd_transcript m d = Some (v, r) \<Longrightarrow> d = transcript_bytes v @ r"
  by (auto simp: rd_transcript_def transcript_bytes_def Option.bind_eq_Some_conv
      dest!: codec_dests challenge.many_det rd_local_Some split: if_splits)

interpretation transcript: codec transcript_bytes "rd_transcript (jint minimum)"
    "\<lambda>v. validateObservationTranscript v minimum" for minimum
  by unfold_locales (fact rd_transcript_append, fact rd_transcript_Some)

lemma length_transcript_bytes:
  assumes "validateObservationTranscript v minimum"
  shows "length (transcript_bytes v) = 591 + length (tl_rssiSamples (ot_local v))"
proof -
  from assms have n: "length (ot_challenges v) = 3" "list_all challenge_ok (ot_challenges v)"
    by (auto simp: validateObservationTranscript_def)
  have "length (concat (map encode_challenge cs)) = 111 * length cs" if "list_all challenge_ok cs" for cs
    using that by (induction cs) (auto simp: encode_challenge_def challenge_ok_def)
  moreover have "length (concat (map (\<lambda>r. le_num (Suc 0) (jint r)) rs)) = length rs" for rs
    by (induction rs) auto
  ultimately show ?thesis using assms n
    by (simp add: transcript_bytes_def encode_local_def validateObservationTranscript_def
        field_ok_def local_ok_def)
qed

section \<open>The codec\<close>

lemma decode_transcript_bytes:
  assumes "validateObservationTranscript v minimum"
  shows "decodeObservationTranscript (transcript_bytes v) minimum = Some v"
proof -
  from assms have "int_in minimum 0 5" "local_ok (ot_local v) minimum"
    by (auto simp: validateObservationTranscript_def)
  then show ?thesis
    using rd_transcript_append [OF assms, of "[]"] length_transcript_bytes [OF assms] assms
    by (simp add: decodeObservationTranscript_def local_ok_def)
qed

lemma decode_Some:
  assumes "decodeObservationTranscript b minimum = Some v"
  shows "b = transcript_bytes v" "validateObservationTranscript v minimum"
  using assms
  by (auto simp: decodeObservationTranscript_def Option.bind_eq_Some_conv
      dest!: rd_transcript_Some split: if_splits)

text \<open>The decoder accepts exactly the layouts of validated transcripts.\<close>

lemma decode_iff:
  "decodeObservationTranscript b minimum = Some v \<longleftrightarrow>
     b = transcript_bytes v \<and> validateObservationTranscript v minimum"
  using decode_transcript_bytes decode_Some by blast

section \<open>Properties\<close>

text \<open>C19. The strict decoder accepts a byte string, with a given minimum of RSSI samples, exactly
  when it is the wire layout of a transcript that passes structural validation with that
  minimum, and then returns that transcript: no accepted input has a second reading, and no
  validated transcript is refused.\<close>

theorem decode_accepts_exactly_valid_layouts:
  "decodeObservationTranscript b minimum = Some v \<longleftrightarrow>
     validateObservationTranscript v minimum \<and> transcript_bytes v = b"
  using decode_iff [of b minimum v] by auto

text \<open>Encoding and strict decoding (with the default minimum of five samples) are inverse
  partial functions: a transcript encodes to \<open>b\<close> if and only if \<open>b\<close> decodes to it.  In
  particular the encoder emits only bytes the decoder accepts, and re-encoding a decoded
  transcript gives back the very same bytes.\<close>

theorem encode_decode_inverse:
  "encodeObservationTranscript v = Some b \<longleftrightarrow> decodeObservationTranscript b (JInt 5) = Some v"
  unfolding decode_iff by (auto simp: encodeObservationTranscript_def)

text \<open>The wire form of an encoded transcript has 591 bytes plus one per RSSI sample, hence
  between 596 and 611: the length window the decoder tests first never refuses an encoding.\<close>

theorem encoded_length:
  assumes "encodeObservationTranscript v = Some b"
  shows "length b = 591 + length (tl_rssiSamples (ot_local v)) \<and> 596 \<le> length b \<and> length b \<le> 611"
proof -
  from assms have ok: "validateObservationTranscript v (JInt 5)" and b: "b = transcript_bytes v"
    by (auto simp: encodeObservationTranscript_def split: if_splits)
  from ok have "local_ok (ot_local v) (JInt 5)" by (simp add: validateObservationTranscript_def)
  then show ?thesis using length_transcript_bytes [OF ok] b by (simp add: local_ok_def)
qed

text \<open>A concrete transcript on which the statements above are exercised.\<close>

definition sample_challenge :: "byte \<Rightarrow> int \<Rightarrow> TranscriptChallenge" where
  "sample_challenge n c = \<lparr>tc_nonce = replicate 32 n, tc_signature = zeros 64,
     tc_deviceTimestamp = 7, tc_deviceCounter = JInt c, tc_roundTripMilliseconds = JInt 120,
     tc_rssiDBM = JInt (-60)\<rparr>"

definition sample_transcript :: ObservationTranscript where
  "sample_transcript = \<lparr>ot_version = JInt 0, ot_protocolID = replicate 32 1,
     ot_deviceID = replicate 32 2, ot_publicKey = replicate 32 3, ot_curve = JInt 1,
     ot_epoch = JInt 5, ot_observationTimeMilliseconds = 300000,
     ot_challenges = [sample_challenge 1 1, sample_challenge 2 2, sample_challenge 3 3],
     ot_local = \<lparr>tl_geohash6 = zeros 6, tl_gpsAccuracyMeters = JInt 10,
       tl_barometerHPATimes10 = JInt 10132, tl_motionClass = JInt 0, tl_wifiBSSIDHash = zeros 32,
       tl_rssiSamples = map JInt [-60, -61, -62, -63, -64]\<rparr>,
     ot_evidenceHash = zeros 32, ot_pseudonym = zeros 32, ot_nullifier = zeros 32,
     ot_observerClass = JInt 1\<rparr>"

lemma sample_transcript_valid: "validateObservationTranscript sample_transcript (JInt 5)"
  by (simp add: sample_transcript_def sample_challenge_def validateObservationTranscript_def
      challenge_ok_def local_ok_def field_ok_def u64_ok_def all_zero_def BN254_MODULUS_def
      zeros_def [of 6] replicate_eq_replicate list_all_iff)

theorem encoded_length_witness:
  "length (transcript_bytes sample_transcript) = 596"
  using encoded_length [of sample_transcript "transcript_bytes sample_transcript"] sample_transcript_valid
  by (simp add: encodeObservationTranscript_def) (simp add: sample_transcript_def)

end
