(* ===== verification/Cbor.thy ===== *)
theory Cbor
  imports Prelude
begin

text \<open>
  The CBOR decoder of \<^verbatim>\<open>packages/verifier/src/app-attest-cbor.ts\<close>.  \<^verbatim>\<open>CborDecodingError\<close> is its
  only error, so a throw is \<open>None\<close>.  The nested function \<^verbatim>\<open>item(depth)\<close> refuses a depth above
  12; the model recurses on the number of levels still allowed (13 at the top), which makes the
  recursion structural.  The text decoder is the fatal UTF-8 decoder of the language's library,
  which also drops one leading byte order mark.  A JavaScript \<^verbatim>\<open>Map\<close> keeps insertion order and is
  an association list.  The lemmas relate the decoder to a reference encoder in shortest form.
\<close>

section \<open>Values\<close>

datatype cbor_key = KInt int | KText string

datatype cbor =
    CNum int
  | CText string
  | CBytes bytes
  | CBool bool
  | CNull
  | CArr "cbor list"
  | CMap "(cbor_key \<times> cbor) list"

section \<open>Text\<close>

definition utf8_cont :: "int \<Rightarrow> int \<Rightarrow> byte \<Rightarrow> bool" where
  "utf8_cont lo hi c = (lo \<le> uint c \<and> uint c \<le> hi)"

definition utf8_tail :: "byte \<Rightarrow> bool" where
  "utf8_tail c = utf8_cont 0x80 0xBF c"

fun utf8_ok :: "bytes \<Rightarrow> bool" where
  "utf8_ok [] = True"
| "utf8_ok (b # bs) =
     (let u = uint b in
      if u < 0x80 then utf8_ok bs
      else if 0xC2 \<le> u \<and> u \<le> 0xDF then
        (case bs of c # r \<Rightarrow> utf8_tail c \<and> utf8_ok r | _ \<Rightarrow> False)
      else if 0xE0 \<le> u \<and> u \<le> 0xEF then
        (case bs of c # d # r \<Rightarrow>
           utf8_cont (if u = 0xE0 then 0xA0 else 0x80) (if u = 0xED then 0x9F else 0xBF) c \<and>
           utf8_tail d \<and> utf8_ok r | _ \<Rightarrow> False)
      else if 0xF0 \<le> u \<and> u \<le> 0xF4 then
        (case bs of c # d # e # r \<Rightarrow>
           utf8_cont (if u = 0xF0 then 0x90 else 0x80) (if u = 0xF4 then 0x8F else 0xBF) c \<and>
           utf8_tail d \<and> utf8_tail e \<and> utf8_ok r | _ \<Rightarrow> False)
      else False)"

definition byte_order_mark :: bytes where
  "byte_order_mark = [0xEF, 0xBB, 0xBF]"

definition text_decode :: "bytes \<Rightarrow> string option" where
  "text_decode bs =
     (if \<not> utf8_ok bs then None
      else Some (string_of_bytes (if take 3 bs = byte_order_mark then drop 3 bs else bs)))"

section \<open>The decoder\<close>

definition MAX_SAFE_INTEGER :: int where
  "MAX_SAFE_INTEGER = 2 ^ 53 - 1"

definition rd_be :: "nat \<Rightarrow> int reader" where
  "rd_be n d = map_option (\<lambda>(x, r). (be_val x, r)) (rd_raw n d)"

definition rd_be_unless :: "nat \<Rightarrow> (int \<Rightarrow> bool) \<Rightarrow> int reader" where
  "rd_be_unless n overlong d = do { (v, d) \<leftarrow> rd_be n d; if overlong v then None else Some (v, d) }"

definition argument :: "int \<Rightarrow> int reader" where
  "argument additional d =
     (if additional < 24 then Some (additional, d)
      else if additional = 24 then rd_be_unless 1 (\<lambda>v. v < 24) d
      else if additional = 25 then rd_be_unless 2 (\<lambda>v. v \<le> 0xff) d
      else if additional = 26 then rd_be_unless 4 (\<lambda>v. v \<le> 0xffff) d
      else if additional = 27 then
        rd_be_unless 8 (\<lambda>v. v \<le> 0xffffffff \<or> v > MAX_SAFE_INTEGER) d
      else None)"

fun key_of :: "cbor \<Rightarrow> cbor_key option" where
  "key_of (CNum i) = Some (KInt i)"
| "key_of (CText s) = Some (KText s)"
| "key_of _ = None"

fun rd_entries :: "nat \<Rightarrow> cbor reader \<Rightarrow> (cbor_key \<times> cbor) list \<Rightarrow> (cbor_key \<times> cbor) list reader" where
  "rd_entries 0 rd acc d = Some (acc, d)"
| "rd_entries (Suc n) rd acc d = do {
     (k, d) \<leftarrow> rd d;
     key \<leftarrow> key_of k;
     if key \<in> set (map fst acc) then None
     else do { (v, d) \<leftarrow> rd d; rd_entries n rd (acc @ [(key, v)]) d } }"

primrec item :: "nat \<Rightarrow> nat \<Rightarrow> cbor reader" where
  "item 0 dlen d = None"
| "item (Suc levels) dlen d =
     (case d of [] \<Rightarrow> None
      | initial # d \<Rightarrow>
        let major = uint initial div 32; additional = uint initial mod 32 in
        if major = 7 then
          (if additional = 20 then Some (CBool False, d)
           else if additional = 21 then Some (CBool True, d)
           else if additional = 22 then Some (CNull, d) else None)
        else do {
          (len, d) \<leftarrow> argument additional d;
          if major = 0 then Some (CNum len, d)
          else if major = 1 then Some (CNum (-1 - len), d)
          else if major = 2 then do { (x, d) \<leftarrow> rd_raw (nat len) d; Some (CBytes x, d) }
          else if major = 3 then do {
            (x, d) \<leftarrow> rd_raw (nat len) d; s \<leftarrow> text_decode x; Some (CText s, d) }
          else if major = 4 then
            (if len > int dlen then None
             else do { (xs, d) \<leftarrow> rd_many (nat len) (item levels dlen) d; Some (CArr xs, d) })
          else if major = 5 then
            (if len > int dlen then None
             else do { (m, d) \<leftarrow> rd_entries (nat len) (item levels dlen) [] d; Some (CMap m, d) })
          else None })"

definition decode :: "bytes \<Rightarrow> (cbor \<times> nat) option" where
  "decode input =
     (if length input = 0 \<or> length input > 1048576 then None
      else do { (v, rest) \<leftarrow> item 13 (length input) input; Some (v, length input - length rest) })"

definition decodeCbor :: "bytes \<Rightarrow> cbor option" where
  "decodeCbor input = do {
     (v, bytesRead) \<leftarrow> decode input;
     if bytesRead \<noteq> length input then None else Some v }"

definition decodeCborPrefix :: "bytes \<Rightarrow> (cbor \<times> nat) option" where
  "decodeCborPrefix input = decode input"

definition requireCborMap :: "cbor \<Rightarrow> cbor_key list \<Rightarrow> (cbor_key \<rightharpoonup> cbor) option" where
  "requireCborMap v keys =
     (case v of CMap m \<Rightarrow>
        if length m \<noteq> length keys \<or> list_ex (\<lambda>k. k \<notin> set (map fst m)) keys then None
        else Some (map_of m)
      | _ \<Rightarrow> None)"

section \<open>Progress\<close>

lemma rd_be_Some: "rd_be n d = Some (v, r) \<Longrightarrow> d = be_num n v @ r \<and> 0 \<le> v \<and> v < 256 ^ n"
  using be_val_less by (auto simp: rd_be_def dest!: rd_raw_Some)

lemma rd_be_append: "0 \<le> v \<Longrightarrow> v < 256 ^ n \<Longrightarrow> rd_be n (be_num n v @ r) = Some (v, r)"
  by (simp add: rd_be_def rd_raw_append)

lemma rd_be_unless_Some:
  "rd_be_unless n p d = Some (v, r) \<Longrightarrow> d = be_num n v @ r \<and> 0 \<le> v \<and> v < 256 ^ n \<and> \<not> p v"
  by (auto simp: rd_be_unless_def Option.bind_eq_Some_conv dest!: rd_be_Some split: if_splits)

lemma argument_Some:
  assumes "argument a d = Some (v, r)" and "0 \<le> a"
  shows "0 \<le> v \<and> v \<le> MAX_SAFE_INTEGER \<and> (\<exists>x. d = x @ r)"
  using assms
  by (auto simp: argument_def MAX_SAFE_INTEGER_def dest!: rd_be_unless_Some split: if_splits)

text \<open>A reader consumes a nonempty front of its input, and reads it alike whatever follows.\<close>

definition consumes :: "'a reader \<Rightarrow> bool" where
  "consumes rd = (\<forall>d v r. rd d = Some (v, r) \<longrightarrow> (\<exists>x. x \<noteq> [] \<and> d = x @ r))"

lemma consumesE:
  assumes "consumes rd" and "rd d = Some (v, r)"
  obtains x where "x \<noteq> []" and "d = x @ r"
  using assms unfolding consumes_def by blast

lemma rd_many_consumes:
  assumes "consumes rd" and "rd_many n rd d = Some (xs, r)"
  shows "\<exists>x. d = x @ r \<and> n \<le> length x"
  using assms(2)
proof (induction n arbitrary: d xs)
  case (Suc n)
  then obtain v d' ys where 1: "rd d = Some (v, d')" and 2: "rd_many n rd d' = Some (ys, r)"
    by (auto simp: Option.bind_eq_Some_conv)
  obtain x where x: "x \<noteq> []" "d = x @ d'" by (rule consumesE [OF assms(1) 1])
  from Suc.IH [OF 2] obtain y where y: "d' = y @ r" "n \<le> length y" by blast
  from x y have "d = (x @ y) @ r \<and> Suc n \<le> length (x @ y)" by (cases x) auto
  then show ?case by blast
qed simp

lemma rd_entries_consumes:
  assumes "consumes rd" and "rd_entries n rd acc d = Some (m, r)"
  shows "\<exists>x. d = x @ r \<and> n \<le> length x"
  using assms(2)
proof (induction n arbitrary: d acc)
  case (Suc n)
  then obtain k d' v d'' acc' where 1: "rd d = Some (k, d')" "rd d' = Some (v, d'')"
    and 2: "rd_entries n rd acc' d'' = Some (m, r)"
    by (auto simp: Option.bind_eq_Some_conv split: if_splits)
  obtain x where x: "x \<noteq> []" "d = x @ d'" by (rule consumesE [OF assms(1) 1(1)])
  obtain y where y: "d' = y @ d''" by (rule consumesE [OF assms(1) 1(2)])
  from Suc.IH [OF 2] obtain z where z: "d'' = z @ r" "n \<le> length z" by blast
  from x y z have "d = (x @ y @ z) @ r \<and> Suc n \<le> length (x @ y @ z)" by (cases x) auto
  then show ?case by blast
qed simp

lemma item_consumes: "consumes (item levels dlen)"
proof (induction levels)
  case (Suc levels)
  note many = rd_many_consumes [OF Suc] and entries = rd_entries_consumes [OF Suc]
  show ?case unfolding consumes_def
  proof (intro allI impI)
    fix d v r assume "item (Suc levels) dlen d = Some (v, r)"
    then obtain i d' where d: "d = i # d'" and "\<exists>x. d' = x @ r"
      by (auto simp: Let_def Option.bind_eq_Some_conv split: list.splits if_splits
          dest!: argument_Some rd_raw_Some many entries)
    then show "\<exists>x. x \<noteq> [] \<and> d = x @ r" by auto
  qed
qed (simp add: consumes_def)

section \<open>Locality: the bytes after an item do not matter\<close>

definition agree :: "nat \<Rightarrow> 'a reader \<Rightarrow> 'a reader \<Rightarrow> bool" where
  "agree n rd rd' = (\<forall>x r v r'. rd (x @ r) = Some (v, r) \<and> length x \<le> n \<longrightarrow> rd' (x @ r') = Some (v, r'))"

lemma agreeD:
  assumes "agree n rd rd'" and "rd (x @ r) = Some (v, r)" and "length x \<le> n"
  shows "rd' (x @ r') = Some (v, r')"
  using assms(1) [unfolded agree_def, rule_format, of x r v r'] assms(2,3) by simp

lemma rd_raw_exact: "rd_raw n (x @ r) = Some (v, r) \<longleftrightarrow> length x = n \<and> v = x"
  using rd_raw_append [of x n r] rd_raw_Some [of n "x @ r" v r] by auto

lemma rd_be_exact: "rd_be n (x @ r) = Some (v, r) \<longleftrightarrow> length x = n \<and> v = be_val x"
  by (auto simp: rd_be_def rd_raw_exact)

lemma rd_be_unless_exact:
  "rd_be_unless n p (x @ r) = Some (v, r) \<longleftrightarrow> length x = n \<and> v = be_val x \<and> \<not> p v"
  using rd_be_exact [of n x r v] by (auto simp: rd_be_unless_def Option.bind_eq_Some_conv)

lemma argument_local:
  assumes "argument a (x @ r) = Some (v, r)"
  shows "argument a (x @ r') = Some (v, r')"
  using assms by (simp add: argument_def rd_be_unless_exact split: if_splits)

lemma rd_many_agree:
  assumes "agree n rd rd'" and "consumes rd"
  shows "agree n (rd_many k rd) (rd_many k rd')"
  unfolding agree_def
proof (intro allI impI, elim conjE)
  fix x r v r' assume "rd_many k rd (x @ r) = Some (v, r)" and "length x \<le> n"
  then show "rd_many k rd' (x @ r') = Some (v, r')"
  proof (induction k arbitrary: x v)
    case (Suc k)
    then obtain u d us where 1: "rd (x @ r) = Some (u, d)" and 2: "rd_many k rd d = Some (us, r)"
      and v: "v = u # us" by (auto simp: Option.bind_eq_Some_conv)
    obtain y where d: "d = y @ r" using rd_many_consumes [OF assms(2) 2] by blast
    obtain z where "x @ r = z @ d" by (rule consumesE [OF assms(2) 1])
    with d have x: "x = z @ y" by simp
    from 1 x d Suc.prems(2) have "rd' (z @ y @ r') = Some (u, y @ r')"
      using agreeD [OF assms(1), of z "y @ r"] by simp
    moreover have "rd_many k rd' (y @ r') = Some (us, r')"
      using Suc.IH [of y us] 2 d x Suc.prems(2) by simp
    ultimately show ?case using x v by simp
  qed simp
qed

lemma rd_entries_agree:
  assumes "agree n rd rd'" and "consumes rd"
  shows "agree n (rd_entries k rd acc) (rd_entries k rd' acc)"
  unfolding agree_def
proof (intro allI impI, elim conjE)
  fix x r v r' assume "rd_entries k rd acc (x @ r) = Some (v, r)" and "length x \<le> n"
  then show "rd_entries k rd' acc (x @ r') = Some (v, r')"
  proof (induction k arbitrary: x acc)
    case (Suc k)
    then obtain a d key b d' where 1: "rd (x @ r) = Some (a, d)" "key_of a = Some key"
      "key \<notin> fst ` set acc" "rd d = Some (b, d')"
      and 2: "rd_entries k rd (acc @ [(key, b)]) d' = Some (v, r)"
      by (auto simp: Option.bind_eq_Some_conv split: if_splits)
    obtain y where d': "d' = y @ r" using rd_entries_consumes [OF assms(2) 2] by blast
    obtain z where z: "d = z @ d'" by (rule consumesE [OF assms(2) 1(4)])
    obtain w where "x @ r = w @ d" by (rule consumesE [OF assms(2) 1(1)])
    with d' z have x: "x = w @ z @ y" by simp
    from 1(1) x z d' Suc.prems(2) have "rd' (w @ z @ y @ r') = Some (a, z @ y @ r')"
      using agreeD [OF assms(1), of w "z @ y @ r"] by simp
    moreover from 1(4) x z d' Suc.prems(2) have "rd' (z @ y @ r') = Some (b, y @ r')"
      using agreeD [OF assms(1), of z "y @ r"] by simp
    moreover have "rd_entries k rd' (acc @ [(key, b)]) (y @ r') = Some (v, r')"
      using Suc.IH [of "acc @ [(key, b)]" y] 2 d' x Suc.prems(2) by simp
    ultimately show ?case using 1 x by simp
  qed simp
qed

lemma item_agree: "agree n (item levels dlen) (item levels n)"
proof (induction levels)
  case (Suc levels)
  note many = rd_many_agree [OF Suc item_consumes] and entries = rd_entries_agree [OF Suc item_consumes]
  show ?case unfolding agree_def
  proof (intro allI impI, elim conjE)
    fix x r v r' assume i: "item (Suc levels) dlen (x @ r) = Some (v, r)" and n: "length x \<le> n"
    obtain i y where x: "x = i # y"
      using consumesE [OF item_consumes i] by (metis append_Cons append_same_eq list.exhaust)
    show "item (Suc levels) n (x @ r') = Some (v, r')"
    proof (cases "uint i div 32 = 7")
      case True
      with i x show ?thesis by (auto simp: Let_def split: if_splits)
    next
      case False
      with i x obtain len d where a: "argument (uint i mod 32) (y @ r) = Some (len, d)"
        by (auto simp: Let_def Option.bind_eq_Some_conv)
      have "\<exists>w. d = w @ r"
        using i x False a
        by (auto simp: Let_def split: if_splits dest!: rd_raw_Some
            rd_many_consumes [OF item_consumes] rd_entries_consumes [OF item_consumes]
            simp: Option.bind_eq_Some_conv)
      then obtain w where d: "d = w @ r" by blast
      obtain u where y: "y = u @ w" using argument_Some [OF a] d by auto
      have a': "argument (uint i mod 32) (u @ w @ r') = Some (len, w @ r')"
        using argument_local [of "uint i mod 32" u "w @ r" len "w @ r'"] a d y by simp
      have ln: "length w \<le> n" using n x y by simp
      have len: "rd_many (nat len) (item levels dlen) (w @ r) = Some (xs, r) \<Longrightarrow> \<not> len > int n" for xs
        using rd_many_consumes [OF item_consumes, of "nat len" levels dlen "w @ r" xs r] ln by auto
      have len': "rd_entries (nat len) (item levels dlen) [] (w @ r) = Some (m, r) \<Longrightarrow> \<not> len > int n" for m
        using rd_entries_consumes [OF item_consumes, of "nat len" levels dlen "[]" "w @ r" m r] ln by auto
      show ?thesis using i x y a a' d False ln
        by (auto simp: Let_def Option.bind_eq_Some_conv split: if_splits
            simp: rd_raw_exact dest: agreeD [OF many] agreeD [OF entries] len len')
    qed
  qed
qed (simp add: agree_def)

section \<open>Reference encoder in shortest form\<close>

definition head_add :: "int \<Rightarrow> int" where
  "head_add n = (if n < 24 then n else if n \<le> 0xff then 24 else if n \<le> 0xffff then 25
     else if n \<le> 0xffffffff then 26 else 27)"

definition head_arg :: "int \<Rightarrow> bytes" where
  "head_arg n = (if n < 24 then [] else if n \<le> 0xff then be_num 1 n else if n \<le> 0xffff then be_num 2 n
     else if n \<le> 0xffffffff then be_num 4 n else be_num 8 n)"

definition head :: "int \<Rightarrow> int \<Rightarrow> bytes" where
  "head major n = word_of_int (32 * major + head_add n) # head_arg n"

fun key_val :: "cbor_key \<Rightarrow> cbor" where
  "key_val (KInt i) = CNum i"
| "key_val (KText s) = CText s"

definition enc_num :: "int \<Rightarrow> bytes" where
  "enc_num i = (if 0 \<le> i then head 0 i else head 1 (-1 - i))"

definition enc_text :: "string \<Rightarrow> bytes" where
  "enc_text s = head 3 (int (length s)) @ bytes_of_string s"

fun enc_key :: "cbor_key \<Rightarrow> bytes" where
  "enc_key (KInt i) = enc_num i"
| "enc_key (KText s) = enc_text s"

fun cbor_enc :: "cbor \<Rightarrow> bytes" where
  "cbor_enc (CNum i) = enc_num i"
| "cbor_enc (CText s) = enc_text s"
| "cbor_enc (CBytes b) = head 2 (int (length b)) @ b"
| "cbor_enc (CBool b) = [if b then 0xF5 else 0xF4]"
| "cbor_enc CNull = [0xF6]"
| "cbor_enc (CArr xs) = head 4 (int (length xs)) @ concat (map cbor_enc xs)"
| "cbor_enc (CMap m) = head 5 (int (length m)) @ concat (map (\<lambda>(k, v). enc_key k @ cbor_enc v) m)"

text \<open>What the decoder promises of its results: safe integers, well-formed text, distinct map
  keys at every level, and no more than the allowed nesting.\<close>

definition num_ok :: "int \<Rightarrow> bool" where
  "num_ok i = (- MAX_SAFE_INTEGER - 1 \<le> i \<and> i \<le> MAX_SAFE_INTEGER)"

definition text_ok :: "string \<Rightarrow> bool" where
  "text_ok s = (utf8_ok (bytes_of_string s) \<and> int (length s) \<le> MAX_SAFE_INTEGER)"

fun key_ok :: "cbor_key \<Rightarrow> bool" where
  "key_ok (KInt i) = num_ok i"
| "key_ok (KText s) = text_ok s"

primrec cbor_ok :: "nat \<Rightarrow> cbor \<Rightarrow> bool" where
  "cbor_ok 0 v = False"
| "cbor_ok (Suc levels) v = (case v of
     CNum i \<Rightarrow> num_ok i
   | CText s \<Rightarrow> text_ok s
   | CBytes b \<Rightarrow> int (length b) \<le> MAX_SAFE_INTEGER
   | CBool b \<Rightarrow> True
   | CNull \<Rightarrow> True
   | CArr xs \<Rightarrow> int (length xs) \<le> MAX_SAFE_INTEGER \<and> list_all (cbor_ok levels) xs
   | CMap m \<Rightarrow> int (length m) \<le> MAX_SAFE_INTEGER \<and> distinct (map fst m) \<and>
       list_all (\<lambda>(k, v). cbor_ok levels (key_val k) \<and> cbor_ok levels v) m)"

text \<open>Texts that begin with a byte order mark are the values the text decoder cannot produce
  from their own bytes.\<close>

definition no_bom :: "string \<Rightarrow> bool" where
  "no_bom s = (take 3 (bytes_of_string s) \<noteq> byte_order_mark)"

fun key_no_bom :: "cbor_key \<Rightarrow> bool" where
  "key_no_bom (KInt i) = True"
| "key_no_bom (KText s) = no_bom s"

primrec cbor_no_bom :: "nat \<Rightarrow> cbor \<Rightarrow> bool" where
  "cbor_no_bom 0 v = True"
| "cbor_no_bom (Suc levels) v = (case v of
     CText s \<Rightarrow> no_bom s
   | CArr xs \<Rightarrow> list_all (cbor_no_bom levels) xs
   | CMap m \<Rightarrow> list_all (\<lambda>(k, v). key_no_bom k \<and> cbor_no_bom levels v) m
   | _ \<Rightarrow> True)"

section \<open>Decoding the reference encoding\<close>

declare item.simps(2) [simp del]

lemma head_split:
  assumes "0 \<le> m" "m \<le> 7" "0 \<le> n"
  obtains b where "head m n = b # head_arg n" "uint b div 32 = m" "uint b mod 32 = head_add n"
proof -
  have a: "0 \<le> head_add n \<and> head_add n < 32" using assms(3) by (auto simp: head_add_def)
  with assms have "uint (word_of_int (32 * m + head_add n) :: byte) = 32 * m + head_add n"
    by (simp only: uint_word_of_int) simp
  with a show ?thesis
    by (intro that [of "word_of_int (32 * m + head_add n)"]) (auto simp: head_def)
qed

lemma argument_head:
  assumes "0 \<le> n" "n \<le> MAX_SAFE_INTEGER"
  shows "argument (head_add n) (head_arg n @ r) = Some (n, r)"
proof -
  have "be_val (be_num k n) = n" if "n < 256 ^ k" for k using assms(1) that by simp
  from this [of 1] this [of 2] this [of 4] this [of 8] show ?thesis using assms
    by (auto simp: argument_def head_add_def head_arg_def rd_be_unless_exact MAX_SAFE_INTEGER_def)
qed

lemma text_decode_enc: "utf8_ok (bytes_of_string s) \<Longrightarrow> no_bom s \<Longrightarrow> text_decode (bytes_of_string s) = Some s"
  by (simp add: text_decode_def no_bom_def)

lemma item_num:
  assumes "num_ok i"
  shows "item (Suc levels) dlen (enc_num i @ r) = Some (CNum i, r)"
proof (cases "0 \<le> i")
  case True
  with assms show ?thesis
    by - (rule head_split [of 0 i], auto simp: item.simps(2) enc_num_def num_ok_def argument_head)
next
  case False
  with assms show ?thesis
    by - (rule head_split [of 1 "-1 - i"],
        auto simp: item.simps(2) enc_num_def num_ok_def argument_head)
qed

lemma item_text:
  "text_ok s \<Longrightarrow> no_bom s \<Longrightarrow> item (Suc levels) dlen (enc_text s @ r) = Some (CText s, r)"
  by (rule head_split [of 3 "int (length s)"])
    (auto simp: item.simps(2) enc_text_def argument_head rd_raw_append text_decode_enc text_ok_def)

lemma item_key:
  "cbor_ok (Suc levels) (key_val k) \<Longrightarrow> key_no_bom k \<Longrightarrow>
     item (Suc levels) dlen (enc_key k @ r) = Some (key_val k, r)"
  by (cases k) (auto simp: item_num item_text)

lemma key_of_key_val [simp]: "key_of (key_val k) = Some k"
  by (cases k) auto

lemma cbor_enc_nonempty: "cbor_enc v \<noteq> []"
  by (cases v) (auto simp: enc_num_def enc_text_def head_def)

lemma length_concat_ge: "(\<And>x. x \<in> set xs \<Longrightarrow> f x \<noteq> []) \<Longrightarrow> length xs \<le> length (concat (map f xs))"
proof (induction xs)
  case (Cons x xs)
  then have "f x \<noteq> []" by simp
  then have "1 \<le> length (f x)" by (cases "f x") auto
  with Cons show ?case by simp
qed simp

lemma rd_entries_enc:
  assumes "\<And>k r. k \<in> fst ` set m \<Longrightarrow> rd (enc_key k @ r) = Some (key_val k, r)"
    and "\<And>v r. v \<in> snd ` set m \<Longrightarrow> rd (cbor_enc v @ r) = Some (v, r)"
    and "distinct (map fst (acc @ m))"
  shows "rd_entries (length m) rd acc (concat (map (\<lambda>(k, v). enc_key k @ cbor_enc v) m) @ r) =
    Some (acc @ m, r)"
  using assms
proof (induction m arbitrary: acc)
  case (Cons e m)
  obtain k v where e: "e = (k, v)" by (cases e)
  have "rd (enc_key k @ s) = Some (key_val k, s)" "rd (cbor_enc v @ s) = Some (v, s)" for s
    using Cons.prems(1) [of k] Cons.prems(2) [of v] e by simp_all
  moreover have "k \<notin> fst ` set acc" using Cons.prems(3) e by auto
  moreover have "rd_entries (length m) rd (acc @ [(k, v)])
      (concat (map (\<lambda>(k, v). enc_key k @ cbor_enc v) m) @ r) = Some ((acc @ [(k, v)]) @ m, r)"
    by (rule Cons.IH) (use Cons.prems e in auto)
  ultimately show ?case using e by simp
qed simp

lemma item_enc:
  "cbor_ok levels v \<Longrightarrow> cbor_no_bom levels v \<Longrightarrow> length (cbor_enc v) \<le> dlen \<Longrightarrow>
     item levels dlen (cbor_enc v @ r) = Some (v, r)"
proof (induction levels arbitrary: v r)
  case (Suc levels)
  show ?case
  proof (cases v)
    case (CBytes b)
    with Suc.prems show ?thesis
      by - (rule head_split [of 2 "int (length b)"], auto simp: item.simps(2) argument_head rd_raw_append)
  next
    case (CArr xs)
    obtain b where h: "head 4 (int (length xs)) = b # head_arg (int (length xs))"
      "uint b div 32 = 4" "uint b mod 32 = head_add (int (length xs))" by (rule head_split [of 4 "int (length xs)"]) auto
    have "length (cbor_enc x) \<le> length (concat (map cbor_enc xs))" if "x \<in> set xs" for x
      using that by (induction xs) auto
    with Suc CArr h have "item levels dlen (cbor_enc x @ s) = Some (x, s)" if "x \<in> set xs" for x s
      using that by (force simp: list_all_iff intro!: Suc.IH)
    then have "rd_many (length xs) (item levels dlen) (concat (map cbor_enc xs) @ r) = Some (xs, r)"
      by (induction xs) auto
    moreover have "length xs \<le> dlen"
      using Suc.prems(3) CArr h length_concat_ge [of xs cbor_enc] cbor_enc_nonempty by simp
    ultimately show ?thesis using CArr h Suc.prems by (auto simp: item.simps(2) argument_head)
  next
    case (CMap m)
    obtain b where h: "head 5 (int (length m)) = b # head_arg (int (length m))"
      "uint b div 32 = 5" "uint b mod 32 = head_add (int (length m))" by (rule head_split [of 5 "int (length m)"]) auto
    let ?f = "\<lambda>(k, v). enc_key k @ cbor_enc v"
    have "length (?f e) \<le> length (concat (map ?f m))" if "e \<in> set m" for e
      using that by (induction m) auto
    with Suc.prems(3) CMap h have le: "length (cbor_enc x) \<le> dlen" if "(k, x) \<in> set m" for k x
      using that by fastforce
    have key: "item levels dlen (enc_key k @ s) = Some (key_val k, s)" if "k \<in> fst ` set m" for k s
    proof -
      from that Suc.prems CMap have ok: "cbor_ok levels (key_val k)" "key_no_bom k"
        by (auto simp: list_all_iff)
      then obtain l where "levels = Suc l" by (cases levels) auto
      with ok show ?thesis by (simp only: item_key)
    qed
    have val: "item levels dlen (cbor_enc x @ s) = Some (x, s)" if "x \<in> snd ` set m" for x s
      using that Suc.prems CMap le by (intro Suc.IH) (auto simp: list_all_iff)
    have "rd_entries (length m) (item levels dlen) [] (concat (map ?f m) @ r) = Some ([] @ m, r)"
      by (rule rd_entries_enc [OF key val]) (use Suc.prems CMap in auto)
    moreover have "length m \<le> dlen"
      using Suc.prems(3) CMap h length_concat_ge [of m ?f] cbor_enc_nonempty by fastforce
    ultimately show ?thesis using CMap h Suc.prems by (auto simp: item.simps(2) argument_head)
  next
    case (CNum i)
    with Suc.prems show ?thesis by (simp add: item_num)
  next
    case (CText t)
    with Suc.prems show ?thesis by (simp add: item_text)
  qed (auto simp: item.simps(2))
qed simp

section \<open>Results are well formed\<close>

lemma utf8_ok_drop_bom: "utf8_ok bs \<Longrightarrow> take 3 bs = byte_order_mark \<Longrightarrow> utf8_ok (drop 3 bs)"
  by (cases bs; cases "tl bs"; cases "tl (tl bs)")
    (auto simp: byte_order_mark_def Let_def split: if_splits)

lemma text_decode_Some:
  "text_decode bs = Some s \<Longrightarrow> utf8_ok (bytes_of_string s) \<and> length s \<le> length bs"
  by (auto simp: text_decode_def utf8_ok_drop_bom split: if_splits)

lemma key_of_Some: "key_of v = Some k \<Longrightarrow> key_val k = v"
  by (cases v) auto

lemma rd_many_all:
  "(\<And>d v r. rd d = Some (v, r) \<Longrightarrow> P v) \<Longrightarrow> rd_many n rd d = Some (xs, r) \<Longrightarrow>
     list_all P xs \<and> length xs = n"
  by (induction n arbitrary: d xs) (fastforce simp: Option.bind_eq_Some_conv)+

lemma rd_entries_all:
  assumes "\<And>d v r. rd d = Some (v, r) \<Longrightarrow> P v"
  shows "rd_entries n rd acc d = Some (m, r) \<Longrightarrow> distinct (map fst acc) \<Longrightarrow>
     list_all (\<lambda>(k, v). P (key_val k) \<and> P v) acc \<Longrightarrow>
     distinct (map fst m) \<and> list_all (\<lambda>(k, v). P (key_val k) \<and> P v) m \<and> length m = length acc + n"
proof (induction n arbitrary: acc d)
  case (Suc n)
  then obtain k d' key v d'' where "rd d = Some (k, d')" "key_of k = Some key" "key \<notin> fst ` set acc"
    "rd d' = Some (v, d'')" and r: "rd_entries n rd (acc @ [(key, v)]) d'' = Some (m, r)"
    by (auto simp: Option.bind_eq_Some_conv split: if_splits)
  then have "P (key_val key) \<and> P v" "distinct (map fst (acc @ [(key, v)]))"
    using assms key_of_Some Suc.prems(2) by auto
  with Suc.IH [OF r] Suc.prems(3) show ?case by simp
qed simp

lemma item_ok: "item levels dlen d = Some (v, r) \<Longrightarrow> cbor_ok levels v"
proof (induction levels arbitrary: d v r)
  case (Suc levels)
  have many: "list_all (cbor_ok levels) xs \<and> length xs = n"
    if "rd_many n (item levels dlen) e = Some (xs, r)" for n e xs r
    using that by (rule rd_many_all [rotated]) (rule Suc.IH)
  have entries: "distinct (map fst m) \<and> length m = n \<and>
      list_all (\<lambda>(k, v). cbor_ok levels (key_val k) \<and> cbor_ok levels v) m"
    if "rd_entries n (item levels dlen) [] e = Some (m, r)" for n e m r
    using rd_entries_all [of "item levels dlen" "cbor_ok levels" n "[]" e m r] that Suc.IH by simp
  from Suc.prems obtain i d' where d: "d = i # d'" by (auto simp: item.simps(2) split: list.splits)
  show ?case
  proof (cases "uint i div 32 = 7")
    case True
    with Suc.prems d show ?thesis by (auto simp: item.simps(2) Let_def split: if_splits)
  next
    case False
    with Suc.prems d obtain len e where a: "argument (uint i mod 32) d' = Some (len, e)"
      by (auto simp: item.simps(2) Let_def Option.bind_eq_Some_conv)
    have len: "0 \<le> len" "len \<le> MAX_SAFE_INTEGER" using argument_Some [OF a] by auto
    then show ?thesis using Suc.prems d False a
      by (auto simp: item.simps(2) Let_def num_ok_def text_ok_def Option.bind_eq_Some_conv split: if_splits
          dest!: rd_raw_Some text_decode_Some many entries)
  qed
qed simp

lemma decode_of_enc:
  assumes "cbor_ok 13 v" and "cbor_no_bom 13 v" and "length (cbor_enc v @ r) \<le> 1048576"
  shows "decode (cbor_enc v @ r) = Some (v, length (cbor_enc v))"
proof -
  have "length (cbor_enc v) \<le> length (cbor_enc v @ r)" by simp
  from item_enc [OF assms(1,2) this, of r] assms(3) cbor_enc_nonempty [of v] show ?thesis
    by (simp add: decode_def)
qed

lemma decodeCbor_of_enc:
  "cbor_ok 13 v \<Longrightarrow> cbor_no_bom 13 v \<Longrightarrow> length (cbor_enc v) \<le> 1048576 \<Longrightarrow> decodeCbor (cbor_enc v) = Some v"
  using decode_of_enc [of v "[]"] by (simp add: decodeCbor_def)

section \<open>Evaluation on concrete input\<close>

lemmas levels_numeral =
  item.simps(2) [of "pred_numeral k", folded numeral_eq_Suc]
  cbor_ok.simps(2) [of "pred_numeral k", folded numeral_eq_Suc]
  cbor_no_bom.simps(2) [of "pred_numeral k", folded numeral_eq_Suc]
  rd_many.simps(2) [of "pred_numeral k", folded numeral_eq_Suc]
  rd_entries.simps(2) [of "pred_numeral k", folded numeral_eq_Suc]
  le_num.simps(2) [of "pred_numeral k", folded numeral_eq_Suc] for k

lemmas cbor_eval = levels_numeral item.simps(2) decodeCborPrefix_def decode_def argument_def
  rd_be_unless_def rd_be_def rd_raw_def text_decode_def byte_order_mark_def be_val_def be_num_def
  le_num.simps string_of_bytes_def bytes_of_string_def num_ok_def text_ok_def no_bom_def
  MAX_SAFE_INTEGER_def char_of_def bit_0 enc_num_def enc_text_def head_def head_add_def head_arg_def

section \<open>Properties\<close>

text \<open>C30. Round trip: a value with safe integers, well-formed text without a leading byte order
  mark, distinct map keys and at most twelve levels of nesting is recovered from its shortest-form
  encoding, provided the encoding fits the decoder's one-mebibyte limit.\<close>

theorem decodeCbor_enc:
  assumes "cbor_ok 13 v" and "cbor_no_bom 13 v" and "length (cbor_enc v) \<le> 1048576"
  shows "decodeCbor (cbor_enc v) = Some v"
  using assms by (rule decodeCbor_of_enc)

theorem decodeCbor_enc_witness:
  "decodeCbor (cbor_enc (CMap [(KText ''fmt'', CNum 500), (KInt (-1), CArr [CBool True, CNull])])) =
     Some (CMap [(KText ''fmt'', CNum 500), (KInt (-1), CArr [CBool True, CNull])])"
  by (rule decodeCbor_enc) (simp_all add: cbor_eval)

text \<open>Prefix decoding is local: a successful \<^verbatim>\<open>decodeCborPrefix\<close> consumes a nonempty front of
  the input, the front alone decodes to the same value, and so does the front followed by any
  other bytes (within the size limit), with the same number of bytes read.\<close>

theorem decodeCborPrefix_local:
  assumes "decodeCborPrefix input = Some (v, n)" and "n + length suffix \<le> 1048576"
  shows "0 < n \<and> n \<le> length input \<and> decodeCbor (take n input) = Some v \<and>
    decodeCborPrefix (take n input @ suffix) = Some (v, n)"
proof -
  from assms obtain r where i: "item 13 (length input) input = Some (v, r)"
    and n: "n = length input - length r" and le: "length input \<le> 1048576"
    by (auto simp: decodeCborPrefix_def decode_def Option.bind_eq_Some_conv split: if_splits)
  obtain x where x: "x \<noteq> []" "input = x @ r" by (rule consumesE [OF item_consumes i])
  have "item 13 k (x @ s) = Some (v, s)" if "length x \<le> k" for k s
    using agreeD [OF item_agree [of k 13 "length input"], of x r v s] i x that by simp
  from this [of "length x" "[]"] this [of "length (x @ suffix)" suffix] show ?thesis
    using x n le assms(2) by (simp add: decodeCbor_def decodeCborPrefix_def decode_def)
qed

theorem decodeCborPrefix_local_witness:
  "decodeCborPrefix ([0x82, 0x01, 0xF6] @ [0xFF]) = Some (CArr [CNum 1, CNull], 3)"
proof -
  have "decodeCborPrefix [0x82, 0x01, 0xF6, 0x00] = Some (CArr [CNum 1, CNull], 3)" by (simp add: cbor_eval)
  from decodeCborPrefix_local [OF this, of "[0xFF]"] show ?thesis by simp
qed

text \<open>Whatever the decoder returns is well formed: integers are safe integers, text is valid
  UTF-8, the keys of every map are distinct, and the nesting is at most twelve levels deep.\<close>

theorem decode_well_formed:
  assumes "decodeCborPrefix input = Some (v, n)"
  shows "cbor_ok 13 v"
  using assms item_ok
  by (auto simp: decodeCborPrefix_def decode_def Option.bind_eq_Some_conv split: if_splits)

theorem decode_well_formed_witness: "cbor_ok 13 (CMap [(KText ''a'', CNum 10), (KInt 1, CBytes [7])])"
proof (rule decode_well_formed)
  show "decodeCborPrefix [0xA2, 0x61, 0x61, 0x0A, 0x01, 0x41, 0x07] =
    Some (CMap [(KText ''a'', CNum 10), (KInt 1, CBytes [7])], 7)" by (simp add: cbor_eval)
qed

end
