(* ===== verification/Encodings.thy ===== *)
theory Encodings
  imports Prelude
begin

text \<open>
  Textual encodings of the language's library: hexadecimal (\<^verbatim>\<open>toString("hex")\<close>,
  \<^verbatim>\<open>Buffer.from(s, "hex")\<close>), canonical decimals (the pattern \<^verbatim>\<open>0|[1-9][0-9]*\<close>, \<^verbatim>\<open>BigInt(s)\<close>,
  \<^verbatim>\<open>String(n)\<close>) and Base64 (the strict pattern the services repeat, \<^verbatim>\<open>Buffer.from(s, "base64")\<close>
  and \<^verbatim>\<open>toString("base64")\<close>), and JavaScript values as \<^verbatim>\<open>JSON.parse\<close> yields them.  The lemmas are
  the round trips that make each encoding canonical.
\<close>

section \<open>JavaScript values\<close>

datatype jsval =
    JUndef
  | JNull
  | JBool bool
  | JNum jsnum
  | JStr string
  | JArr "jsval list"
  | JObj "(string \<times> jsval) list"

section \<open>Hexadecimal\<close>

definition hex_digits :: string where
  "hex_digits = ''0123456789abcdef''"

definition hex_char :: "nat \<Rightarrow> char" where
  "hex_char n = hex_digits ! n"

definition is_hex_char :: "char \<Rightarrow> bool" where
  "is_hex_char c = (c \<in> set hex_digits)"

fun find_index :: "'a \<Rightarrow> 'a list \<Rightarrow> nat" where
  "find_index x [] = 0"
| "find_index x (y # ys) = (if x = y then 0 else Suc (find_index x ys))"

definition hex_value :: "char \<Rightarrow> nat" where
  "hex_value c = find_index c hex_digits"

text \<open>The anchored pattern \<^verbatim>\<open>[a-f0-9]{n}\<close>.\<close>

definition is_hex :: "nat \<Rightarrow> string \<Rightarrow> bool" where
  "is_hex n s = (length s = n \<and> list_all is_hex_char s)"

fun hex_of_bytes :: "bytes \<Rightarrow> string" where
  "hex_of_bytes [] = []"
| "hex_of_bytes (b # bs) = hex_char (unat b div 16) # hex_char (unat b mod 16) # hex_of_bytes bs"

text \<open>\<^verbatim>\<open>Buffer.from(s, "hex")\<close> on lower-case digits: decoding stops at the first pair that is not
  hexadecimal.\<close>

fun bytes_of_hex :: "string \<Rightarrow> bytes" where
  "bytes_of_hex (a # b # s) =
     (if is_hex_char a \<and> is_hex_char b then of_nat (16 * hex_value a + hex_value b) # bytes_of_hex s
      else [])"
| "bytes_of_hex _ = []"

text \<open>\<^verbatim>\<open>BigInt("0x" + s)\<close> for an even number of hexadecimal digits.\<close>

definition hex_int :: "string \<Rightarrow> int" where
  "hex_int s = be_val (bytes_of_hex s)"

lemma find_index_nth: "distinct xs \<Longrightarrow> i < length xs \<Longrightarrow> find_index (xs ! i) xs = i"
proof (induction xs arbitrary: i)
  case (Cons x xs)
  then show ?case by (cases i) auto
qed simp

lemma nth_find_index: "x \<in> set xs \<Longrightarrow> xs ! find_index x xs = x \<and> find_index x xs < length xs"
  by (induction xs) auto

lemma hex_digits_facts: "distinct hex_digits" "length hex_digits = 16"
  by (simp_all add: hex_digits_def)

lemma hex_value_char [simp]: "n < 16 \<Longrightarrow> hex_value (hex_char n) = n"
  by (simp add: hex_value_def hex_char_def find_index_nth hex_digits_facts)

lemma is_hex_char_char [simp]: "n < 16 \<Longrightarrow> is_hex_char (hex_char n)"
  by (simp add: is_hex_char_def hex_char_def hex_digits_facts)

lemma hex_char_value: "is_hex_char c \<Longrightarrow> hex_char (hex_value c) = c \<and> hex_value c < 16"
  using nth_find_index [of c hex_digits]
  by (simp add: is_hex_char_def hex_char_def hex_value_def hex_digits_facts)

lemma unat_byte_bound [simp]: "unat (b :: byte) < 256"
  using unsigned_less [of b, where 'a = nat] by simp

lemma byte_nibbles [simp]: "unat (b :: byte) div 16 < 16" "unat b mod 16 < 16"
  using unat_byte_bound [of b] by (simp_all add: less_mult_imp_div_less)

lemma bytes_of_hex_of_bytes [simp]: "bytes_of_hex (hex_of_bytes bs) = bs"
proof (induction bs)
  case (Cons b bs)
  have "(of_nat (16 * (unat b div 16) + unat b mod 16) :: byte) = b" by simp
  with Cons show ?case by simp
qed simp

lemma length_hex_of_bytes [simp]: "length (hex_of_bytes bs) = 2 * length bs"
  by (induction bs) auto

lemma is_hex_of_bytes: "is_hex (2 * length bs) (hex_of_bytes bs)"
  by (induction bs) (auto simp: is_hex_def)

lemma hex_of_bytes_inj [simp]: "hex_of_bytes x = hex_of_bytes y \<longleftrightarrow> x = y"
  by (metis bytes_of_hex_of_bytes)

lemma hex_of_bytes_of_hex:
  "is_hex (2 * n) s \<Longrightarrow> hex_of_bytes (bytes_of_hex s) = s \<and> length (bytes_of_hex s) = n"
proof (induction n arbitrary: s)
  case (Suc n)
  then obtain a b r where s: "s = a # b # r" by (cases s; cases "tl s") (auto simp: is_hex_def)
  with Suc.prems have r: "is_hex (2 * n) r" and ab: "is_hex_char a" "is_hex_char b"
    by (auto simp: is_hex_def)
  have v: "hex_value a < 16" "hex_value b < 16" using hex_char_value ab by auto
  then have "unat (of_nat (16 * hex_value a + hex_value b) :: byte) = 16 * hex_value a + hex_value b"
    by (simp only: unat_of_nat) simp
  with Suc.IH [OF r] s ab v hex_char_value show ?case by simp
qed (simp add: is_hex_def)

section \<open>Decimal\<close>

definition dec_digits :: string where
  "dec_digits = ''0123456789''"

definition dec_char :: "nat \<Rightarrow> char" where
  "dec_char n = dec_digits ! n"

definition is_digit :: "char \<Rightarrow> bool" where
  "is_digit c = (c \<in> set dec_digits)"

definition dec_value :: "char \<Rightarrow> nat" where
  "dec_value c = find_index c dec_digits"

text \<open>The anchored pattern \<^verbatim>\<open>0|[1-9][0-9]*\<close>.\<close>

definition is_decimal :: "string \<Rightarrow> bool" where
  "is_decimal s = (s = ''0'' \<or> s \<noteq> [] \<and> hd s \<noteq> CHR ''0'' \<and> list_all is_digit s)"

fun dec_val_acc :: "nat \<Rightarrow> string \<Rightarrow> nat" where
  "dec_val_acc a [] = a"
| "dec_val_acc a (c # s) = dec_val_acc (10 * a + dec_value c) s"

definition dec_val :: "string \<Rightarrow> int" where
  "dec_val s = int (dec_val_acc 0 s)"

fun dec_str_nat :: "nat \<Rightarrow> string" where
  "dec_str_nat n = (if n < 10 then [dec_char n] else dec_str_nat (n div 10) @ [dec_char (n mod 10)])"

definition dec_str :: "int \<Rightarrow> string" where
  "dec_str i = (if i < 0 then ''-'' @ dec_str_nat (nat (- i)) else dec_str_nat (nat i))"

declare dec_str_nat.simps [simp del]

lemma dec_digits_facts: "distinct dec_digits" "length dec_digits = 10" "dec_char 0 = CHR ''0''"
  by (simp_all add: dec_digits_def dec_char_def)

lemma dec_value_char [simp]: "n < 10 \<Longrightarrow> dec_value (dec_char n) = n"
  by (simp add: dec_value_def dec_char_def find_index_nth dec_digits_facts)

lemma is_digit_char [simp]: "n < 10 \<Longrightarrow> is_digit (dec_char n)"
  by (simp add: is_digit_def dec_char_def dec_digits_facts)

lemma dec_char_value: "is_digit c \<Longrightarrow> dec_char (dec_value c) = c \<and> dec_value c < 10"
  using nth_find_index [of c dec_digits]
  by (simp add: is_digit_def dec_char_def dec_value_def dec_digits_facts)

lemma dec_char_eq_0: "n < 10 \<Longrightarrow> dec_char n = CHR ''0'' \<longleftrightarrow> n = 0"
  by (metis dec_value_char dec_digits_facts(3) zero_less_numeral)

lemma dec_value_0: "dec_value CHR ''0'' = 0"
  using dec_value_char [of 0] dec_digits_facts(3) by simp

lemma dec_val_acc_append: "dec_val_acc a (s @ t) = dec_val_acc (dec_val_acc a s) t"
  by (induction s arbitrary: a) auto

lemma dec_val_acc_str: "dec_val_acc 0 (dec_str_nat n) = n"
proof (induction n rule: dec_str_nat.induct)
  case (1 n)
  then show ?case by (cases "n < 10") (simp_all add: dec_str_nat.simps [of n] dec_val_acc_append)
qed

lemma dec_val_str [simp]: "0 \<le> i \<Longrightarrow> dec_val (dec_str i) = i"
  by (simp add: dec_val_def dec_str_def dec_val_acc_str)

lemma dec_str_nat_digits:
  "list_all is_digit (dec_str_nat n) \<and> dec_str_nat n \<noteq> [] \<and> (0 < n \<longrightarrow> hd (dec_str_nat n) \<noteq> CHR ''0'')"
proof (induction n rule: dec_str_nat.induct)
  case (1 n)
  show ?case
  proof (cases "n < 10")
    case True
    then show ?thesis by (simp add: dec_str_nat.simps [of n] dec_char_eq_0)
  next
    case False
    with 1 show ?thesis by (simp add: dec_str_nat.simps [of n])
  qed
qed

lemma is_decimal_str [simp]: "0 \<le> i \<Longrightarrow> is_decimal (dec_str i)"
  using dec_str_nat_digits [of "nat i"]
  by (cases "i = 0") (auto simp: is_decimal_def dec_str_def dec_str_nat.simps [of 0] dec_digits_facts)

lemma dec_str_nat_val:
  "list_all is_digit s \<Longrightarrow> s \<noteq> [] \<Longrightarrow> hd s \<noteq> CHR ''0'' \<Longrightarrow>
     0 < dec_val_acc 0 s \<and> dec_str_nat (dec_val_acc 0 s) = s"
proof (induction s rule: rev_induct)
  case (snoc c s)
  then have c: "dec_char (dec_value c) = c" "dec_value c < 10" using dec_char_value by auto
  show ?case
  proof (cases "s = []")
    case True
    with snoc.prems have "c \<noteq> CHR ''0''" by simp
    with c have "0 < dec_value c" using dec_digits_facts(3) by (auto intro!: Nat.gr0I)
    with True c show ?thesis by (simp add: dec_str_nat.simps [of "dec_value c"])
  next
    case False
    with snoc have ih: "0 < dec_val_acc 0 s \<and> dec_str_nat (dec_val_acc 0 s) = s" by simp
    let ?n = "10 * dec_val_acc 0 s + dec_value c"
    from ih c have "\<not> ?n < 10" "?n div 10 = dec_val_acc 0 s" "?n mod 10 = dec_value c" by auto
    with ih c show ?thesis by (simp add: dec_val_acc_append dec_str_nat.simps [of ?n])
  qed
qed simp

lemma dec_str_val: "is_decimal s \<Longrightarrow> dec_str (dec_val s) = s"
  using dec_str_nat_val [of s]
  by (auto simp: is_decimal_def dec_str_def dec_val_def dec_str_nat.simps [of 0] dec_digits_facts
      dec_value_0)

lemma dec_val_nonneg [simp]: "0 \<le> dec_val s"
  by (simp add: dec_val_def)

lemma dec_val_inj: "is_decimal s \<Longrightarrow> is_decimal t \<Longrightarrow> dec_val s = dec_val t \<Longrightarrow> s = t"
  by (metis dec_str_val)

lemma dec_str_inj: "0 \<le> i \<Longrightarrow> 0 \<le> j \<Longrightarrow> dec_str i = dec_str j \<longleftrightarrow> i = j"
  by (metis dec_val_str)

section \<open>Base64\<close>

definition b64_digits :: string where
  "b64_digits = ''ABCDEFGHIJKLMNOPQRSTUVWXYZabcdefghijklmnopqrstuvwxyz0123456789+/''"

definition b64_char :: "nat \<Rightarrow> char" where
  "b64_char n = b64_digits ! n"

definition is_b64_char :: "char \<Rightarrow> bool" where
  "is_b64_char c = (c \<in> set b64_digits)"

definition b64_value :: "char \<Rightarrow> nat" where
  "b64_value c = find_index c b64_digits"

definition pad :: char where
  "pad = CHR ''=''"

text \<open>\<^verbatim>\<open>toString("base64")\<close>.\<close>

fun b64_enc :: "bytes \<Rightarrow> string" where
  "b64_enc [] = []"
| "b64_enc [a] = [b64_char (unat a div 4), b64_char (unat a mod 4 * 16), pad, pad]"
| "b64_enc [a, b] = [b64_char (unat a div 4), b64_char (unat a mod 4 * 16 + unat b div 16),
     b64_char (unat b mod 16 * 4), pad]"
| "b64_enc (a # b # c # r) = b64_char (unat a div 4) # b64_char (unat a mod 4 * 16 + unat b div 16) #
     b64_char (unat b mod 16 * 4 + unat c div 64) # b64_char (unat c mod 64) # b64_enc r"

text \<open>The anchored pattern \<^verbatim>\<open>(?:[A-Za-z0-9+/]{4})*(?:[A-Za-z0-9+/]{2}==|[A-Za-z0-9+/]{3}=)?\<close>.\<close>

fun b64_pattern :: "string \<Rightarrow> bool" where
  "b64_pattern [] = True"
| "b64_pattern (a # b # c # d # r) = (is_b64_char a \<and> is_b64_char b \<and>
     (is_b64_char c \<and> is_b64_char d \<and> b64_pattern r \<or>
      r = [] \<and> d = pad \<and> (c = pad \<or> is_b64_char c)))"
| "b64_pattern _ = False"

text \<open>\<^verbatim>\<open>Buffer.from(s, "base64")\<close> on strings of that pattern.\<close>

fun b64_dec :: "string \<Rightarrow> bytes" where
  "b64_dec (a # b # c # d # r) =
     (let x = of_nat (b64_value a * 4 + b64_value b div 16);
          y = of_nat (b64_value b mod 16 * 16 + b64_value c div 4);
          z = of_nat (b64_value c mod 4 * 64 + b64_value d)
      in if c = pad then [x] else if d = pad then [x, y] else x # y # z # b64_dec r)"
| "b64_dec _ = []"

text \<open>The strict decoder the services write out: pattern, decode, and compare the re-encoding.\<close>

definition strict_b64 :: "string \<Rightarrow> bytes option" where
  "strict_b64 s = (if \<not> b64_pattern s then None
     else if b64_enc (b64_dec s) \<noteq> s then None else Some (b64_dec s))"

lemma b64_digits_facts: "distinct b64_digits" "length b64_digits = 64" "pad \<notin> set b64_digits"
  by (simp_all add: b64_digits_def pad_def)

lemma b64_value_char [simp]: "n < 64 \<Longrightarrow> b64_value (b64_char n) = n"
  by (simp add: b64_value_def b64_char_def find_index_nth b64_digits_facts)

lemma b64_char_facts [simp]:
  "n < 64 \<Longrightarrow> is_b64_char (b64_char n)" "n < 64 \<Longrightarrow> b64_char n \<noteq> pad" "\<not> is_b64_char pad"
proof -
  show "\<not> is_b64_char pad" using b64_digits_facts by (simp add: is_b64_char_def)
  assume "n < 64"
  then show ok: "is_b64_char (b64_char n)" using b64_digits_facts by (simp add: is_b64_char_def b64_char_def)
  show "b64_char n \<noteq> pad" using ok \<open>\<not> is_b64_char pad\<close> by metis
qed

lemma byte_quotients [simp]:
  "unat (b :: byte) div 16 div 16 = 0" "unat b div 16 mod 16 = unat b div 16"
  "unat b div 64 div 4 = 0" "unat b div 64 mod 4 = unat b div 64"
  using unat_byte_bound [of b] by (simp_all add: less_mult_imp_div_less)

lemma b64_parts [simp]:
  "unat (a :: byte) div 4 < 64" "unat a mod 4 * 16 + unat (b :: byte) div 16 < 64"
  "unat a mod 4 * 16 < 64" "unat b mod 16 * 4 + unat (c :: byte) div 64 < 64" "unat b mod 16 * 4 < 64"
proof -
  have "unat a mod 4 < 4" "unat b mod 16 < 16" "unat b div 16 < 16" "unat c div 64 < 4"
    using unat_byte_bound [of c] by (simp_all add: less_mult_imp_div_less)
  then show "unat a mod 4 * 16 + unat b div 16 < 64" "unat a mod 4 * 16 < 64"
    "unat b mod 16 * 4 + unat c div 64 < 64" "unat b mod 16 * 4 < 64" by linarith+
  show "unat a div 4 < 64" using unat_byte_bound [of a] by (simp add: less_mult_imp_div_less)
qed

lemma byte_of_parts [simp]:
  "(of_nat (unat (b :: byte) div 4 * 4 + unat b mod 4) :: byte) = b"
  "(of_nat (unat b mod 16 + unat b div 16 * 16) :: byte) = b"
  by simp_all

lemma b64_dec_enc [simp]: "b64_dec (b64_enc bs) = bs"
  by (induction bs rule: b64_enc.induct)
    (simp_all add: Let_def del: of_nat_add of_nat_mult)

lemma b64_pattern_enc [simp]: "b64_pattern (b64_enc bs)"
  by (induction bs rule: b64_enc.induct) simp_all

lemma b64_enc_inj [simp]: "b64_enc x = b64_enc y \<longleftrightarrow> x = y"
  by (metis b64_dec_enc)

lemma strict_b64_iff: "strict_b64 s = Some b \<longleftrightarrow> s = b64_enc b"
  by (auto simp: strict_b64_def split: if_splits)

lemma b64_enc_triples:
  "length xs = 3 * n \<Longrightarrow> b64_enc (xs @ ys) = b64_enc xs @ b64_enc ys \<and> length (b64_enc xs) = 4 * n \<and>
     list_all is_b64_char (b64_enc xs)"
proof (induction n arbitrary: xs)
  case (Suc n)
  then obtain a b c r where xs: "xs = a # b # c # r" "length r = 3 * n"
    by (cases xs; cases "tl xs"; cases "tl (tl xs)") auto
  with Suc.IH [OF xs(2)] show ?case by simp
qed simp

lemma b64_enc_32:
  assumes "length xs = 32"
  obtains s where "b64_enc xs = s @ [pad]" "length s = 43" "list_all is_b64_char s"
proof -
  have l: "length (take 30 xs) = 3 * 10" using assms by simp
  obtain a b where ab: "drop 30 xs = [a, b]" using assms
    by (cases "drop 30 xs"; cases "tl (drop 30 xs)"; cases "tl (tl (drop 30 xs))")
      (auto dest: arg_cong [where f = length])
  have "b64_enc xs = b64_enc (take 30 xs) @ b64_enc [a, b]"
    using b64_enc_triples [OF l, of "[a, b]"] by (simp flip: ab)
  then show thesis using b64_enc_triples [OF l] that [of "b64_enc (take 30 xs) @ butlast (b64_enc [a, b])"] by simp
qed

lemma length_b64_enc: "length (b64_enc bs) = (length bs + 2) div 3 * 4"
  by (induction bs rule: b64_enc.induct) (simp, simp, simp, simp, presburger)

text \<open>\<^verbatim>\<open>Buffer.from(s, "base64")\<close> on any string: the URL alphabet is accepted, other characters are skipped and
  incomplete bytes dropped.\<close>

fun sextets :: "nat list \<Rightarrow> bytes" where
  "sextets (a # b # c # d # r) = of_nat (a * 4 + b div 16) # of_nat (b mod 16 * 16 + c div 4) # of_nat (c mod 4 * 64 + d) # sextets r"
| "sextets [a, b, c] = [of_nat (a * 4 + b div 16), of_nat (b mod 16 * 16 + c div 4)]"
| "sextets [a, b] = [of_nat (a * 4 + b div 16)]"
| "sextets _ = []"

definition node_b64 :: "string \<Rightarrow> bytes" where
  "node_b64 s = sextets (map b64_value (filter is_b64_char
     (map (\<lambda>c. if c = CHR ''-'' then CHR ''+'' else if c = CHR ''_'' then CHR ''/'' else c) s)))"

lemma node_b64_pattern: "b64_pattern s \<Longrightarrow> node_b64 s = b64_dec s"
proof (induction s rule: b64_pattern.induct)
  case (2 a b c d r)
  have u: "\<not> is_b64_char CHR ''-''" "\<not> is_b64_char CHR ''_''" by (simp_all add: is_b64_char_def b64_digits_def)
  have p: "pad \<noteq> CHR ''-''" "pad \<noteq> CHR ''_''" by (simp_all add: pad_def)
  show ?case
  proof (cases "is_b64_char c \<and> is_b64_char d \<and> b64_pattern r")
    case True
    with 2(2) have v: "is_b64_char a" "is_b64_char b" "is_b64_char c" "is_b64_char d" "b64_pattern r" by auto
    have m: "x \<noteq> CHR ''-'' \<and> x \<noteq> CHR ''_'' \<and> x \<noteq> pad" if "is_b64_char x" for x using that u b64_char_facts(3) by blast
    have "node_b64 (a # b # c # d # r) = sextets (b64_value a # b64_value b # b64_value c # b64_value d # map b64_value (filter is_b64_char
      (map (\<lambda>c. if c = CHR ''-'' then CHR ''+'' else if c = CHR ''_'' then CHR ''/'' else c) r)))"
      using m [OF v(1)] m [OF v(2)] m [OF v(3)] m [OF v(4)] v(1-4) by (simp add: node_b64_def)
    also have "\<dots> = b64_dec (a # b # c # d # r)"
      using m [OF v(3)] m [OF v(4)] 2(1) [OF v(5)] True by (simp add: node_b64_def Let_def)
    finally show ?thesis .
  next
    case False
    with 2(2) have "r = []" "d = pad" "c = pad \<or> is_b64_char c" "is_b64_char a" "is_b64_char b" by auto
    with u p show ?thesis unfolding node_b64_def by (auto simp: Let_def)
  qed
qed (auto simp: node_b64_def)

lemma node_b64_enc [simp]: "node_b64 (b64_enc b) = b"
  by (simp add: node_b64_pattern)

end
