(* ===== verification/Registry.thy ===== *)
theory Registry
  imports Encodings
begin

text \<open>
  The registry client of \<^verbatim>\<open>packages/solana/src/index.ts\<close>: account addresses, instruction builders
  and the strict account decoders.  A thrown \<^verbatim>\<open>Error\<close> is \<open>None\<close> (no caller distinguishes the
  messages).  A \<^verbatim>\<open>PublicKey\<close> of the web3 library is its 32 bytes; what the client takes from that
  library and from the crypto module (SHA-256, program-address derivation, Base58 text, the ids of
  the fixed programs) is the record \<open>chain\<close>, a parameter of every definition.
\<close>

type_synonym pubkey = bytes

record chain =
  ch_sha256 :: hash
  ch_pda :: "bytes list \<Rightarrow> pubkey \<Rightarrow> pubkey"
  ch_toBase58 :: "pubkey \<Rightarrow> string"
  ch_ofBase58 :: "string \<Rightarrow> pubkey option"
  ch_token :: pubkey
  ch_system :: pubkey
  ch_loader :: pubkey
  ch_instructions :: pubkey
  ch_usdc :: pubkey

section \<open>Scalars\<close>

definition discriminator :: "chain \<Rightarrow> string \<Rightarrow> string \<Rightarrow> bytes" where
  "discriminator ch namespace name =
     take 8 (ch_sha256 ch (bytes_of_string (namespace @ '':'' @ name)))"

definition bytes32 :: "bytes \<Rightarrow> bytes option" where
  "bytes32 v = (if length v \<noteq> 32 then None else Some v)"

definition fieldBytes :: "int \<Rightarrow> bytes option" where
  "fieldBytes v = (if v < 0 \<or> v \<ge> BN254_MODULUS then None else Some (be_num 32 v))"

definition deviceId :: "chain \<Rightarrow> bytes \<Rightarrow> bytes option" where
  "deviceId ch key = do {
     k \<leftarrow> bytes32 key; Some (ch_sha256 ch (bytes_of_string ''Pathnod/device/v0'' @ k)) }"

definition u32 :: "jsnum \<Rightarrow> bytes option" where
  "u32 v = (if \<not> int_in v 0 0xffffffff then None else Some (le_num 4 (jint v)))"

text \<open>\<^verbatim>\<open>writeBigUInt64LE\<close> throws outside the unsigned 64-bit range.\<close>

definition u64 :: "int \<Rightarrow> bytes option" where
  "u64 v = (if v < 0 \<or> v > 0xffffffffffffffff then None else Some (le_num 8 v))"

definition u8 :: "jsnum \<Rightarrow> bytes option" where
  "u8 v = (if \<not> int_in v 0 255 then None else Some (le_num 1 (jint v)))"

definition option_bytes :: "bytes option \<Rightarrow> bytes" where
  "option_bytes v = (case v of None \<Rightarrow> [0] | Some b \<Rightarrow> [1] @ b)"

section \<open>Addresses\<close>

record RegistryAddresses =
  ra_config :: pubkey
  ra_escrow :: pubkey
  ra_enrollment :: pubkey
  ra_device :: "bytes \<Rightarrow> pubkey option"
  ra_epoch :: "bytes \<Rightarrow> jsnum \<Rightarrow> pubkey option"
  ra_root :: "bytes \<Rightarrow> pubkey option"

definition registryAddresses :: "chain \<Rightarrow> pubkey \<Rightarrow> bytes \<Rightarrow> RegistryAddresses option" where
  "registryAddresses ch program protocol = do {
     p \<leftarrow> bytes32 protocol;
     let pda = (\<lambda>seeds. ch_pda ch seeds program);
     Some \<lparr>ra_config = pda [bytes_of_string ''protocol'', p],
       ra_escrow = pda [bytes_of_string ''escrow'', p],
       ra_enrollment = pda [bytes_of_string ''enrollment-authority''],
       ra_device = (\<lambda>id. do { i \<leftarrow> bytes32 id; Some (pda [bytes_of_string ''device'', p, i]) }),
       ra_epoch = (\<lambda>id epoch. do {
         i \<leftarrow> bytes32 id; e \<leftarrow> u32 epoch; Some (pda [bytes_of_string ''epoch'', p, i, e]) }),
       ra_root = (\<lambda>root. do { r \<leftarrow> bytes32 root; Some (pda [bytes_of_string ''root'', r]) })\<rparr> }"

section \<open>Instructions\<close>

record AccountMeta =
  am_pubkey :: pubkey
  am_isWritable :: bool
  am_isSigner :: bool

record TransactionInstruction =
  ti_programId :: pubkey
  ti_keys :: "AccountMeta list"
  ti_data :: bytes

definition meta :: "pubkey \<Rightarrow> bool \<Rightarrow> bool \<Rightarrow> AccountMeta" where
  "meta key writable signer = \<lparr>am_pubkey = key, am_isWritable = writable, am_isSigner = signer\<rparr>"

definition instruction ::
  "chain \<Rightarrow> pubkey \<Rightarrow> string \<Rightarrow> bytes \<Rightarrow> AccountMeta list \<Rightarrow> TransactionInstruction" where
  "instruction ch program name data keys =
     \<lparr>ti_programId = program, ti_keys = keys, ti_data = discriminator ch ''global'' name @ data\<rparr>"

definition initializeEnrollmentAuthority ::
  "chain \<Rightarrow> pubkey \<Rightarrow> pubkey \<Rightarrow> pubkey \<Rightarrow> TransactionInstruction option" where
  "initializeEnrollmentAuthority ch program upgradeAuthority authority = do {
     a \<leftarrow> registryAddresses ch program (zeros 32);
     let programData = ch_pda ch [program] (ch_loader ch);
     Some (instruction ch program ''initialize_enrollment_authority'' authority
       [meta (ra_enrollment a) True False, meta program False False, meta programData False False,
        meta upgradeAuthority True True, meta (ch_system ch) False False]) }"

record ProtocolArgs =
  pa_protocolId :: bytes
  pa_epochSeconds :: jsnum
  pa_verifier :: pubkey
  pa_policyVersion :: jsnum
  pa_rewardPerSlot :: int
  pa_slotsPerEpoch :: jsnum

definition initProtocol ::
  "chain \<Rightarrow> pubkey \<Rightarrow> pubkey \<Rightarrow> pubkey \<Rightarrow> ProtocolArgs \<Rightarrow> TransactionInstruction option" where
  "initProtocol ch program authority mint args = do {
     a \<leftarrow> registryAddresses ch program (pa_protocolId args);
     p \<leftarrow> bytes32 (pa_protocolId args); e \<leftarrow> u32 (pa_epochSeconds args);
     v \<leftarrow> u32 (pa_policyVersion args); r \<leftarrow> u64 (pa_rewardPerSlot args); s \<leftarrow> u8 (pa_slotsPerEpoch args);
     Some (instruction ch program ''init_protocol'' (p @ e @ pa_verifier args @ v @ r @ s)
       [meta (ra_config a) True False, meta (ra_escrow a) True False, meta mint False False,
        meta authority True True, meta (ch_token ch) False False, meta (ch_system ch) False False]) }"

record DeviceArgs =
  da_deviceId :: bytes
  da_key :: bytes
  da_curve :: jsnum
  da_capabilities :: jsnum
  da_externalAsset :: "pubkey option"
  da_claimedGeohash :: "string option"

text \<open>The pattern \<^verbatim>\<open>[0123456789bcdefghjkmnpqrstuvwxyz]{6}\<close>.\<close>

definition is_geohash6 :: "string \<Rightarrow> bool" where
  "is_geohash6 s = (length s = 6 \<and> list_all (\<lambda>c. c \<in> set ''0123456789bcdefghjkmnpqrstuvwxyz'') s)"

definition registerDevice ::
  "chain \<Rightarrow> pubkey \<Rightarrow> pubkey \<Rightarrow> bytes \<Rightarrow> DeviceArgs \<Rightarrow> TransactionInstruction option" where
  "registerDevice ch program authority protocol args = do {
     a \<leftarrow> registryAddresses ch program protocol;
     if (case da_claimedGeohash args of None \<Rightarrow> False | Some g \<Rightarrow> \<not> is_geohash6 g) then None
     else do {
       i \<leftarrow> bytes32 (da_deviceId args); k \<leftarrow> bytes32 (da_key args); c \<leftarrow> u8 (da_curve args);
       caps \<leftarrow> u32 (da_capabilities args); d \<leftarrow> ra_device a (da_deviceId args);
       Some (instruction ch program ''register_device''
         (i @ k @ c @ option_bytes (da_externalAsset args) @ [0] @ caps @
          option_bytes (map_option bytes_of_string (da_claimedGeohash args)))
         [meta (ra_config a) False False, meta d True False, meta authority True True,
          meta (ch_system ch) False False]) } }"

definition publishRoot ::
  "chain \<Rightarrow> pubkey \<Rightarrow> pubkey \<Rightarrow> bytes \<Rightarrow> jsnum \<Rightarrow> TransactionInstruction option" where
  "publishRoot ch program authority root leafCount = do {
     a \<leftarrow> registryAddresses ch program (zeros 32);
     r \<leftarrow> bytes32 root;
     if be_val r \<ge> BN254_MODULUS then None
     else if \<not> int_in leafCount 0 (2 ^ 20) then None
     else do {
       n \<leftarrow> u32 leafCount; ra \<leftarrow> ra_root a root;
       Some (instruction ch program ''publish_root'' (r @ n)
         [meta (ra_enrollment a) True False, meta ra True False, meta authority True True,
          meta (ch_system ch) False False]) } }"

section \<open>The account reader\<close>

definition reader_open :: "chain \<Rightarrow> bytes \<Rightarrow> string \<Rightarrow> nat \<Rightarrow> bytes option" where
  "reader_open ch data name len =
     (if length data \<noteq> len \<or> take 8 data \<noteq> discriminator ch ''account'' name then None
      else Some (drop 8 data))"

definition rd_i64 :: "int reader" where
  "rd_i64 d = map_option (\<lambda>(v, r). (if v \<ge> 2 ^ 63 then v - 2 ^ 64 else v, r)) (rd_le 8 d)"

definition rd_optional :: "nat \<Rightarrow> bytes option reader" where
  "rd_optional n d = do {
     (tag, d) \<leftarrow> rd_le 1 d;
     if tag \<noteq> 0 \<and> tag \<noteq> 1 then None
     else if tag = 0 then Some (None, d)
     else do { (b, d) \<leftarrow> rd_raw n d; Some (Some b, d) } }"

definition reader_finish :: "bytes \<Rightarrow> 'a \<Rightarrow> 'a option" where
  "reader_finish rest x = (if \<not> all_zero rest then None else Some x)"

section \<open>Accounts\<close>

record ProtocolConfig =
  pc_authority :: pubkey
  pc_protocolId :: bytes
  pc_epochSeconds :: int
  pc_verifier :: pubkey
  pc_policyVersion :: int
  pc_rewardMint :: pubkey
  pc_rewardPerSlot :: int
  pc_slotsPerEpoch :: int
  pc_escrow :: pubkey

definition rd_protocol :: "ProtocolConfig reader" where
  "rd_protocol d = do {
     (authority, d) \<leftarrow> rd_raw 32 d; (protocolId, d) \<leftarrow> rd_raw 32 d; (epochSeconds, d) \<leftarrow> rd_le 4 d;
     (verifier, d) \<leftarrow> rd_raw 32 d; (policyVersion, d) \<leftarrow> rd_le 4 d; (rewardMint, d) \<leftarrow> rd_raw 32 d;
     (rewardPerSlot, d) \<leftarrow> rd_le 8 d; (slotsPerEpoch, d) \<leftarrow> rd_le 1 d; (escrow, d) \<leftarrow> rd_raw 32 d;
     Some (\<lparr>pc_authority = authority, pc_protocolId = protocolId, pc_epochSeconds = epochSeconds,
       pc_verifier = verifier, pc_policyVersion = policyVersion, pc_rewardMint = rewardMint,
       pc_rewardPerSlot = rewardPerSlot, pc_slotsPerEpoch = slotsPerEpoch, pc_escrow = escrow\<rparr>, d) }"

definition decodeProtocol :: "chain \<Rightarrow> bytes \<Rightarrow> ProtocolConfig option" where
  "decodeProtocol ch data = do {
     d \<leftarrow> reader_open ch data ''ProtocolConfig'' 185;
     (v, rest) \<leftarrow> rd_protocol d;
     reader_finish rest v }"

record DeviceRegistry =
  dr_deviceId :: bytes
  dr_key :: bytes
  dr_curve :: int
  dr_externalAsset :: "pubkey option"
  dr_linked :: bool
  dr_registeredAt :: int
  dr_capabilities :: int
  dr_claimedGeohash :: "string option"

text \<open>\<^verbatim>\<open>toString("ascii")\<close> clears the top bit of every byte.\<close>

definition ascii_of_bytes :: "bytes \<Rightarrow> string" where
  "ascii_of_bytes bs = map (\<lambda>b. char_of (unat b mod 128)) bs"

definition rd_device :: "DeviceRegistry reader" where
  "rd_device d = do {
     (id, d) \<leftarrow> rd_raw 32 d; (key, d) \<leftarrow> rd_raw 32 d; (curve, d) \<leftarrow> rd_le 1 d;
     (asset, d) \<leftarrow> rd_optional 32 d; (linked, d) \<leftarrow> rd_le 1 d;
     if linked > 1 then None
     else do {
       (registeredAt, d) \<leftarrow> rd_i64 d; (capabilities, d) \<leftarrow> rd_le 4 d; (geo, d) \<leftarrow> rd_optional 6 d;
       Some (\<lparr>dr_deviceId = id, dr_key = key, dr_curve = curve, dr_externalAsset = asset,
         dr_linked = (linked = 1), dr_registeredAt = registeredAt, dr_capabilities = capabilities,
         dr_claimedGeohash = map_option ascii_of_bytes geo\<rparr>, d) } }"

definition decodeDevice :: "chain \<Rightarrow> bytes \<Rightarrow> DeviceRegistry option" where
  "decodeDevice ch data = do {
     d \<leftarrow> reader_open ch data ''DeviceRegistry'' 126;
     (v, rest) \<leftarrow> rd_device d;
     reader_finish rest v }"

record ObserverRoot =
  or_root :: bytes
  or_leafCount :: int
  or_publishedAt :: int
  or_authority :: pubkey

definition decodeRoot :: "chain \<Rightarrow> bytes \<Rightarrow> ObserverRoot option" where
  "decodeRoot ch data = do {
     d \<leftarrow> reader_open ch data ''ObserverRoot'' 84;
     (root, d) \<leftarrow> rd_raw 32 d; (leafCount, d) \<leftarrow> rd_le 4 d; (publishedAt, d) \<leftarrow> rd_i64 d;
     (authority, d) \<leftarrow> rd_raw 32 d;
     reader_finish d \<lparr>or_root = root, or_leafCount = leafCount, or_publishedAt = publishedAt,
       or_authority = authority\<rparr> }"

record EnrollmentAuthority =
  ea_authority :: pubkey
  ea_publications :: int
  ea_recentRoots :: "bytes list"

definition decodeEnrollment :: "chain \<Rightarrow> bytes \<Rightarrow> EnrollmentAuthority option" where
  "decodeEnrollment ch data = do {
     d \<leftarrow> reader_open ch data ''EnrollmentAuthority'' 176;
     (authority, d) \<leftarrow> rd_raw 32 d; (publications, d) \<leftarrow> rd_le 8 d; (roots, d) \<leftarrow> rd_many 4 (rd_raw 32) d;
     reader_finish d \<lparr>ea_authority = authority, ea_publications = publications, ea_recentRoots = roots\<rparr> }"

record DeviceEpoch =
  de_independentObservers :: int
  de_paidSlotsUsed :: int
  de_observationRoot :: bytes
  de_confidenceCommitment :: bytes
  de_frontier :: "bytes list option"

definition decodeDeviceEpoch :: "chain \<Rightarrow> bytes \<Rightarrow> DeviceEpoch option" where
  "decodeDeviceEpoch ch data = (
     let len = (if length data = 587 then 587 else 75) in do {
     d \<leftarrow> reader_open ch data ''DeviceEpoch'' len;
     (observers, d) \<leftarrow> rd_le 2 d; (paid, d) \<leftarrow> rd_le 1 d; (root, d) \<leftarrow> rd_raw 32 d; (conf, d) \<leftarrow> rd_raw 32 d;
     (frontier, d) \<leftarrow> (if len = 587
        then map_option (\<lambda>(f, r). (Some f, r)) (rd_many 16 (rd_raw 32) d) else Some (None, d));
     reader_finish d \<lparr>de_independentObservers = observers, de_paidSlotsUsed = paid,
       de_observationRoot = root, de_confidenceCommitment = conf, de_frontier = frontier\<rparr> })"

text \<open>\<^verbatim>\<open>activeRoots\<close>: the newest at most four roots of the ring, newest first.\<close>

definition activeRoots :: "EnrollmentAuthority \<Rightarrow> bytes list" where
  "activeRoots st =
     (let count = (if ea_publications st < 4 then ea_publications st else 4)
      in map (\<lambda>i. ea_recentRoots st ! nat ((ea_publications st - 1 - int i) mod 4)) [0..<nat count])"

section \<open>Reference layouts\<close>

definition protocol_bytes :: "ProtocolConfig \<Rightarrow> bytes" where
  "protocol_bytes p = pc_authority p @ pc_protocolId p @ le_num 4 (pc_epochSeconds p) @ pc_verifier p @
     le_num 4 (pc_policyVersion p) @ pc_rewardMint p @ le_num 8 (pc_rewardPerSlot p) @
     le_num 1 (pc_slotsPerEpoch p) @ pc_escrow p"

definition protocol_ok :: "ProtocolConfig \<Rightarrow> bool" where
  "protocol_ok p = (length (pc_authority p) = 32 \<and> length (pc_protocolId p) = 32 \<and>
     length (pc_verifier p) = 32 \<and> length (pc_rewardMint p) = 32 \<and> length (pc_escrow p) = 32 \<and>
     0 \<le> pc_epochSeconds p \<and> pc_epochSeconds p < 256 ^ 4 \<and>
     0 \<le> pc_policyVersion p \<and> pc_policyVersion p < 256 ^ 4 \<and>
     0 \<le> pc_rewardPerSlot p \<and> pc_rewardPerSlot p < 256 ^ 8 \<and>
     0 \<le> pc_slotsPerEpoch p \<and> pc_slotsPerEpoch p < 256)"

definition device_bytes :: "DeviceRegistry \<Rightarrow> bytes" where
  "device_bytes d = dr_deviceId d @ dr_key d @ le_num 1 (dr_curve d) @ option_bytes (dr_externalAsset d) @
     le_num 1 (if dr_linked d then 1 else 0) @ le_num 8 (dr_registeredAt d) @
     le_num 4 (dr_capabilities d) @
     option_bytes (map_option bytes_of_string (dr_claimedGeohash d))"

definition device_ok :: "DeviceRegistry \<Rightarrow> bool" where
  "device_ok d = (length (dr_deviceId d) = 32 \<and> length (dr_key d) = 32 \<and>
     0 \<le> dr_curve d \<and> dr_curve d < 256 \<and>
     (case dr_externalAsset d of None \<Rightarrow> True | Some a \<Rightarrow> length a = 32) \<and>
     - (2 ^ 63) \<le> dr_registeredAt d \<and> dr_registeredAt d < 2 ^ 63 \<and>
     0 \<le> dr_capabilities d \<and> dr_capabilities d < 256 ^ 4 \<and>
     (case dr_claimedGeohash d of None \<Rightarrow> True | Some g \<Rightarrow> length g = 6 \<and> list_all (\<lambda>c. of_char c < (128 :: nat)) g))"

section \<open>The readers are codecs\<close>

lemma rd_i64_append [codec_simps]:
  assumes "- (2 ^ 63) \<le> v" and "v < 2 ^ 63"
  shows "rd_i64 (le_num 8 v @ r) = Some (v, r)"
proof -
  have "v mod 2 ^ 64 = (if v < 0 then v + 2 ^ 64 else v)"
    using assms mod_add_self2 [of v "2 ^ 64"] mod_pos_pos_trivial [of "v + 2 ^ 64" "2 ^ 64"]
      mod_pos_pos_trivial [of v "2 ^ 64"] by (cases "v < 0") simp_all
  with assms show ?thesis
    by (simp add: rd_i64_def rd_le_def rd_raw_append le_val_le_num)
qed

lemma rd_i64_Some [codec_dests]: "rd_i64 d = Some (v, r) \<Longrightarrow> d = le_num 8 v @ r"
proof -
  assume "rd_i64 d = Some (v, r)"
  then obtain u where u: "rd_le 8 d = Some (u, r)" and v: "v = (if u \<ge> 2 ^ 63 then u - 2 ^ 64 else u)"
    by (auto simp: rd_i64_def)
  have "le_num 8 (u - 2 ^ 64) = le_num 8 (le_val (le_num 8 (u - 2 ^ 64)))"
    using le_num_le_val [of "le_num 8 (u - 2 ^ 64)"] by simp
  also have "\<dots> = le_num 8 (le_val (le_num 8 u))" by (simp only: le_val_le_num) simp
  also have "\<dots> = le_num 8 u" using le_num_le_val [of "le_num 8 u"] by simp
  finally show ?thesis using v rd_le_Some [OF u] by simp
qed

interpretation i64: codec "le_num 8" rd_i64 "\<lambda>v. - (2 ^ 63) \<le> v \<and> v < 2 ^ 63"
  by unfold_locales (auto simp: rd_i64_append dest: rd_i64_Some)

lemma le_num_tag: "le_num (Suc 0) 0 = [0]" "le_num (Suc 0) 1 = [1]"
  by (simp_all add: le_num.simps)

lemma rd_optional_append [codec_simps]:
  "(case v of None \<Rightarrow> True | Some b \<Rightarrow> length b = n) \<Longrightarrow> rd_optional n (option_bytes v @ r) = Some (v, r)"
  using rd_le_append [of 0 "Suc 0"] rd_le_append [of 1 "Suc 0"]
  by (auto simp: rd_optional_def option_bytes_def le_num_tag rd_raw_append split: option.splits)

lemma rd_optional_Some [codec_dests]:
  "rd_optional n d = Some (v, r) \<Longrightarrow> d = option_bytes v @ r"
  by (auto simp: rd_optional_def option_bytes_def le_num_tag Option.bind_eq_Some_conv
      dest!: rd_le_Some rd_raw_Some split: if_splits)

interpretation optional: codec option_bytes "rd_optional n"
    "\<lambda>v. case v of None \<Rightarrow> True | Some b \<Rightarrow> length b = n" for n
  by unfold_locales (auto simp: rd_optional_append dest: rd_optional_Some)

lemma rd_protocol_append: "protocol_ok p \<Longrightarrow> rd_protocol (protocol_bytes p @ r) = Some (p, r)"
  by (simp add: rd_protocol_def protocol_bytes_def protocol_ok_def codec_simps)

lemma rd_protocol_Some: "rd_protocol d = Some (p, r) \<Longrightarrow> d = protocol_bytes p @ r \<and> protocol_ok p"
  by (auto simp: rd_protocol_def protocol_bytes_def protocol_ok_def Option.bind_eq_Some_conv
      dest!: codec_dests)

interpretation protocol: codec protocol_bytes rd_protocol protocol_ok
  by unfold_locales (auto simp: rd_protocol_append dest: rd_protocol_Some)

lemma ascii_of_string:
  "list_all (\<lambda>c. of_char c < (128 :: nat)) g \<Longrightarrow> ascii_of_bytes (bytes_of_string g) = g"
  by (induction g) (simp_all add: ascii_of_bytes_def bytes_of_string_def)

lemma rd_device_append: "device_ok d \<Longrightarrow> rd_device (device_bytes d @ r) = Some (d, r)"
  by (cases "dr_claimedGeohash d"; cases "dr_linked d")
    (auto simp: rd_device_def device_bytes_def device_ok_def codec_simps ascii_of_string
      intro: DeviceRegistry.equality)

lemma length_protocol_bytes: "protocol_ok p \<Longrightarrow> length (protocol_bytes p) = 177"
  by (simp add: protocol_bytes_def protocol_ok_def)

lemma length_device_bytes: "device_ok d \<Longrightarrow> length (device_bytes d) \<le> 118"
  by (auto simp: device_bytes_def device_ok_def option_bytes_def split: option.splits)

lemma length_discriminator: "(\<And>x. length (ch_sha256 ch x) = 32) \<Longrightarrow> length (discriminator ch ns n) = 8"
  by (simp add: discriminator_def)

lemma reader_open_iff:
  assumes "length (discriminator ch ''account'' name) = 8"
  shows "reader_open ch data name len = Some d \<longleftrightarrow>
    data = discriminator ch ''account'' name @ d \<and> len = 8 + length d"
proof
  assume "reader_open ch data name len = Some d"
  then have d: "length data = len" "take 8 data = discriminator ch ''account'' name" "d = drop 8 data"
    by (auto simp: reader_open_def split: if_splits)
  then have "length (take 8 data) = 8" using assms by simp
  with d show "data = discriminator ch ''account'' name @ d \<and> len = 8 + length d"
    by (metis append_take_drop_id length_append)
qed (use assms in \<open>simp add: reader_open_def\<close>)

lemma reader_open_append:
  "length (discriminator ch ''account'' name) = 8 \<Longrightarrow> len = 8 + length d \<Longrightarrow>
     reader_open ch (discriminator ch ''account'' name @ d) name len = Some d"
  by (simp add: reader_open_iff)

lemma all_zero_replicate [simp]: "all_zero (zeros n)"
  by (simp add: all_zero_def zeros_def list_all_iff)

section \<open>The root ring\<close>

text \<open>Publication on the ring as the on-chain program performs it
  (\<^verbatim>\<open>programs/pathnod/src/registry.rs\<close>, \<^verbatim>\<open>handle_publish_root\<close>): the slot is
  \<^verbatim>\<open>publications % 4\<close>, the 64-bit count is advanced with an overflow check, the slot is written.\<close>

definition publish_on_ring :: "EnrollmentAuthority \<Rightarrow> bytes \<Rightarrow> EnrollmentAuthority option" where
  "publish_on_ring st root =
     (let index = nat (ea_publications st mod 4)
      in if ea_publications st + 1 > 0xffffffffffffffff then None
         else Some (st\<lparr>ea_publications := ea_publications st + 1,
           ea_recentRoots := (ea_recentRoots st)[index := root]\<rparr>))"

fun publish_all :: "EnrollmentAuthority \<Rightarrow> bytes list \<Rightarrow> EnrollmentAuthority option" where
  "publish_all st [] = Some st"
| "publish_all st (r # rs) = do { st' \<leftarrow> publish_on_ring st r; publish_all st' rs }"

definition ring_represents :: "EnrollmentAuthority \<Rightarrow> bytes list \<Rightarrow> bool" where
  "ring_represents st hist = (ea_publications st = int (length hist) \<and> length (ea_recentRoots st) = 4 \<and>
     (\<forall>k < length hist. length hist \<le> k + 4 \<longrightarrow> ea_recentRoots st ! (k mod 4) = hist ! k))"

lemma ring_represents_publish:
  assumes "ring_represents st hist" and "length hist < 0xffffffffffffffff"
  obtains st' where "publish_on_ring st root = Some st'" "ring_represents st' (hist @ [root])"
proof -
  have n: "nat (ea_publications st mod 4) = length hist mod 4"
    using assms by (simp add: ring_represents_def nat_mod_as_int)
  have "(ea_recentRoots st)[length hist mod 4 := root] ! (k mod 4) = (hist @ [root]) ! k"
    if k: "k < Suc (length hist)" "Suc (length hist) \<le> k + 4" for k
  proof (cases "k = length hist")
    case True
    with assms show ?thesis by (simp add: ring_represents_def)
  next
    case False
    have "k mod 4 \<noteq> length hist mod 4"
    proof
      assume "k mod 4 = length hist mod 4"
      with k False have "4 dvd length hist - k" by (simp add: mod_eq_dvd_iff_nat [symmetric])
      with k False show False by (auto dest: dvd_imp_le)
    qed
    with assms k False show ?thesis by (simp add: ring_represents_def nth_append)
  qed
  with assms n that show thesis by (simp add: ring_represents_def publish_on_ring_def)
qed

lemma ring_represents_all:
  "ring_represents st hist \<Longrightarrow> length hist + length rs \<le> 0xffffffffffffffff \<Longrightarrow>
     \<exists>st'. publish_all st rs = Some st' \<and> ring_represents st' (hist @ rs)"
proof (induction rs arbitrary: st hist)
  case (Cons r rs)
  then obtain st' where "publish_on_ring st r = Some st'" "ring_represents st' (hist @ [r])"
    using ring_represents_publish [of st hist r] by auto
  with Cons.IH [of st' "hist @ [r]"] Cons.prems show ?case by simp
qed simp

lemma ring_active:
  assumes "ring_represents st hist"
  shows "activeRoots st = take 4 (rev hist)"
proof (rule nth_equalityI)
  let ?n = "length hist"
  from assms have p: "ea_publications st = int ?n" by (simp add: ring_represents_def)
  show "length (activeRoots st) = length (take 4 (rev hist))" using p by (simp add: activeRoots_def Let_def)
  fix i assume "i < length (activeRoots st)"
  with p have i: "i < ?n" "i < 4" by (auto simp: activeRoots_def Let_def split: if_splits)
  have "(int ?n - 1 - int i) mod 4 = int ((?n - 1 - i) mod 4)" using i by (simp add: of_nat_diff zmod_int algebra_simps)
  then have eq: "nat ((int ?n - 1 - int i) mod 4) = (?n - 1 - i) mod 4" by (simp only: nat_int)
  have "activeRoots st ! i = ea_recentRoots st ! nat ((int ?n - 1 - int i) mod 4)"
    using i p by (simp add: activeRoots_def Let_def)
  also have "\<dots> = ea_recentRoots st ! ((?n - 1 - i) mod 4)" by (simp only: eq)
  also have "\<dots> = hist ! (?n - 1 - i)" using assms i by (simp add: ring_represents_def)
  finally show "activeRoots st ! i = take 4 (rev hist) ! i" using i by (simp add: rev_nth)
qed

section \<open>Properties\<close>

text \<open>The protocol-account decoder accepts exactly the 185-byte layouts: discriminator followed
  by the nine fields at their widths, nothing more and nothing less.  The one hypothesis is the
  digest size of SHA-256.\<close>

theorem decodeProtocol_exact:
  assumes "\<And>x. length (ch_sha256 ch x) = 32"
  shows "decodeProtocol ch data = Some p \<longleftrightarrow>
    protocol_ok p \<and> data = discriminator ch ''account'' ''ProtocolConfig'' @ protocol_bytes p"
proof -
  note disc = length_discriminator [OF assms]
  show ?thesis
  proof
    assume "decodeProtocol ch data = Some p"
    then obtain d rest where o: "reader_open ch data ''ProtocolConfig'' 185 = Some d"
      and r: "rd_protocol d = Some (p, rest)"
      by (auto simp: decodeProtocol_def Option.bind_eq_Some_conv reader_finish_def split: if_splits)
    from rd_protocol_Some [OF r] length_protocol_bytes [of p] o show "protocol_ok p \<and>
        data = discriminator ch ''account'' ''ProtocolConfig'' @ protocol_bytes p"
      unfolding reader_open_iff [OF disc] by simp
  next
    assume "protocol_ok p \<and> data = discriminator ch ''account'' ''ProtocolConfig'' @ protocol_bytes p"
    then show "decodeProtocol ch data = Some p"
      using rd_protocol_append [of p "[]"] length_protocol_bytes [of p]
      by (simp add: decodeProtocol_def reader_open_append [OF disc] reader_finish_def all_zero_def)
  qed
qed

text \<open>A registered device survives the account layout: the discriminator, the device fields with
  their Borsh option tags and signed timestamp, and zero padding up to 126 bytes decode to the same
  device.\<close>

theorem decodeDevice_layout:
  assumes "\<And>x. length (ch_sha256 ch x) = 32" and "device_ok d"
  shows "decodeDevice ch (discriminator ch ''account'' ''DeviceRegistry'' @ device_bytes d @
    zeros (118 - length (device_bytes d))) = Some d"
  using rd_device_append [OF assms(2)] length_device_bytes [OF assms(2)]
  by (simp add: decodeDevice_def reader_open_append [OF length_discriminator [OF assms(1)]]
      reader_finish_def)

text \<open>C32. The ring of four refines the publication history: from the empty ring, any run of fewer than
  \<open>2 ^ 64\<close> publications succeeds, and the active roots are then exactly the last four published roots,
  newest first.\<close>

theorem activeRoots_refines_history:
  assumes "length roots \<le> 0xffffffffffffffff"
  shows "\<exists>st. publish_all \<lparr>ea_authority = a, ea_publications = 0, ea_recentRoots = replicate 4 (zeros 32)\<rparr> roots = Some st \<and>
    activeRoots st = take 4 (rev roots)"
proof -
  have "ring_represents \<lparr>ea_authority = a, ea_publications = 0, ea_recentRoots = replicate 4 (zeros 32)\<rparr> []"
    by (simp add: ring_represents_def)
  from ring_represents_all [OF this, of roots] assms ring_active show ?thesis by auto
qed

theorem activeRoots_refines_history_witness:
  "\<exists>st. publish_all \<lparr>ea_authority = zeros 32, ea_publications = 0, ea_recentRoots = replicate 4 (zeros 32)\<rparr>
      (map (replicate 32) [1, 2, 3, 4, 5]) = Some st \<and>
    activeRoots st = map (replicate 32) [5, 4, 3, 2]"
  using activeRoots_refines_history [of "map (replicate 32) [1, 2, 3, 4, 5]" "zeros 32"] by simp

definition sample_chain :: chain where
  "sample_chain = \<lparr>ch_sha256 = (\<lambda>x. take 32 (x @ zeros 32)), ch_pda = (\<lambda>seeds p. take 32 (concat seeds @ p)),
     ch_toBase58 = hex_of_bytes, ch_ofBase58 = (\<lambda>s. Some (bytes_of_hex s)), ch_token = replicate 32 6,
     ch_system = zeros 32, ch_loader = replicate 32 7, ch_instructions = replicate 32 8,
     ch_usdc = replicate 32 9\<rparr>"

lemma sample_chain_sha: "length (ch_sha256 sample_chain x) = 32"
  by (simp add: sample_chain_def)

definition sample_protocol :: ProtocolConfig where
  "sample_protocol = \<lparr>pc_authority = zeros 32, pc_protocolId = zeros 32, pc_epochSeconds = 60,
     pc_verifier = zeros 32, pc_policyVersion = 1, pc_rewardMint = zeros 32, pc_rewardPerSlot = 5,
     pc_slotsPerEpoch = 3, pc_escrow = zeros 32\<rparr>"

definition sample_device :: DeviceRegistry where
  "sample_device = \<lparr>dr_deviceId = zeros 32, dr_key = zeros 32, dr_curve = 1, dr_externalAsset = None,
     dr_linked = True, dr_registeredAt = 5, dr_capabilities = 2, dr_claimedGeohash = Some ''u09tvw''\<rparr>"

theorem decodeProtocol_exact_witness:
  "decodeProtocol sample_chain (discriminator sample_chain ''account'' ''ProtocolConfig'' @
     protocol_bytes sample_protocol) = Some sample_protocol"
  unfolding decodeProtocol_exact [OF sample_chain_sha] by (simp add: protocol_ok_def sample_protocol_def)

theorem decodeDevice_layout_witness:
  "decodeDevice sample_chain (discriminator sample_chain ''account'' ''DeviceRegistry'' @
     device_bytes sample_device @ zeros (118 - length (device_bytes sample_device))) = Some sample_device"
  by (rule decodeDevice_layout [OF sample_chain_sha]) (simp add: device_ok_def sample_device_def)

end
