(* ===== verification/Circuits.thy ===== *)
theory Circuits
  imports Encodings
begin

text \<open>
  The circuit helpers of \<^verbatim>\<open>packages/circuits/src\<close>: canonical field elements (\<^verbatim>\<open>field.ts\<close>), the
  Poseidon wrapper and the identifier fields (\<^verbatim>\<open>poseidon.ts\<close>, \<^verbatim>\<open>id-field.ts\<close>), the fixture check
  (\<^verbatim>\<open>fixture.ts\<close>) and the conversion of snarkjs proofs and keys to the on-chain byte layout
  (\<^verbatim>\<open>groth16-solana.ts\<close>).  Poseidon itself comes from circomlibjs and is a parameter.  Every thrown
  error is \<open>None\<close>; values typed \<^verbatim>\<open>unknown\<close> are JavaScript values.
\<close>

section \<open>Field elements\<close>

definition MAX_FIELD_DECIMAL_DIGITS :: nat where
  "MAX_FIELD_DECIMAL_DIGITS = length (dec_str BN254_MODULUS)"

definition SUPPORTED_ARITIES :: "nat list" where
  "SUPPORTED_ARITIES = [1, 2, 3, 5]"

definition parseCanonicalFieldElement :: "jsval \<Rightarrow> int option" where
  "parseCanonicalFieldElement v =
     (case v of JStr s \<Rightarrow>
        if length s > MAX_FIELD_DECIMAL_DIGITS then None
        else if \<not> is_decimal s then None
        else if dec_val s \<ge> BN254_MODULUS then None else Some (dec_val s)
      | _ \<Rightarrow> None)"

text \<open>\<^verbatim>\<open>value.toString(16).padStart(64, "0")\<close> is the hexadecimal text of the 32-byte big-endian form.\<close>

definition hex64 :: "int \<Rightarrow> string" where
  "hex64 n = hex_of_bytes (be_num 32 n)"

definition toHex32 :: "int \<Rightarrow> string option" where
  "toHex32 v = (if v < 0 \<or> v \<ge> BN254_MODULUS then None else Some (''0x'' @ hex64 v))"

definition assertSupportedArity :: "nat \<Rightarrow> bool" where
  "assertSupportedArity arity = (arity \<in> set SUPPORTED_ARITIES)"

section \<open>Poseidon and identifier fields\<close>

record PoseidonResult =
  pr_decimal :: string
  pr_hex :: string

definition hashCanonicalInputs :: "(int list \<Rightarrow> int) \<Rightarrow> jsval list \<Rightarrow> nat \<Rightarrow> PoseidonResult option" where
  "hashCanonicalInputs poseidon vals declaredArity =
     (if \<not> assertSupportedArity declaredArity then None
      else if length vals \<noteq> declaredArity then None
      else do {
        inputs \<leftarrow> those (map parseCanonicalFieldElement vals);
        h \<leftarrow> toHex32 (poseidon inputs);
        Some \<lparr>pr_decimal = dec_str (poseidon inputs), pr_hex = h\<rparr> })"

definition splitId128 :: "bytes \<Rightarrow> (int \<times> int) option" where
  "splitId128 ident = (if length ident \<noteq> 32 then None
     else Some (be_val (subarray 0 16 ident), be_val (subarray 16 32 ident)))"

definition deriveIdField :: "(int list \<Rightarrow> int) \<Rightarrow> bytes \<Rightarrow> int \<Rightarrow> PoseidonResult option" where
  "deriveIdField poseidon ident domain = do {
     (high, low) \<leftarrow> splitId128 ident;
     hashCanonicalInputs poseidon [JStr (dec_str domain), JStr (dec_str high), JStr (dec_str low)] 3 }"

definition deriveProtocolIdField :: "(int list \<Rightarrow> int) \<Rightarrow> bytes \<Rightarrow> PoseidonResult option" where
  "deriveProtocolIdField poseidon ident = deriveIdField poseidon ident 3"

definition deriveDeviceIdField :: "(int list \<Rightarrow> int) \<Rightarrow> bytes \<Rightarrow> PoseidonResult option" where
  "deriveDeviceIdField poseidon ident = deriveIdField poseidon ident 4"

section \<open>Fixture\<close>

record PoseidonVector =
  pv_name :: string
  pv_purpose :: string
  pv_arity :: nat
  pv_inputs :: "jsval list"
  pv_expected :: jsval
  pv_expectedHex :: string

record PoseidonFixture =
  pf_schemaVersion :: int
  pf_algorithm :: string
  pf_parameterSet :: string
  pf_fieldModulus :: string
  pf_inputEncoding :: string
  pf_outputEncoding :: string
  pf_diagnosticHexEncoding :: string
  pf_publicTestData :: bool
  pf_vectors :: "PoseidonVector list"

text \<open>The pattern \<^verbatim>\<open>[a-z0-9]+(?:-[a-z0-9]+)*\<close>, anchored; \<open>fresh\<close> marks the start of a segment.\<close>

fun safe_stem :: "bool \<Rightarrow> string \<Rightarrow> bool" where
  "safe_stem fresh [] = (\<not> fresh)"
| "safe_stem fresh (c # s) =
     (if c \<in> set ''abcdefghijklmnopqrstuvwxyz0123456789'' then safe_stem False s
      else if c = CHR ''-'' \<and> \<not> fresh then safe_stem True s else False)"

definition metadata_ok :: "PoseidonFixture \<Rightarrow> bool" where
  "metadata_ok f = (pf_schemaVersion f = 1 \<and> pf_algorithm f = ''poseidon'' \<and>
     pf_parameterSet f = ''circom-bn254-x5'' \<and> pf_fieldModulus f = dec_str BN254_MODULUS \<and>
     pf_inputEncoding f = ''unsigned-base10-field-element'' \<and>
     pf_outputEncoding f = ''unsigned-base10-field-element'' \<and>
     pf_diagnosticHexEncoding f = ''32-byte-big-endian'' \<and> pf_publicTestData f)"

definition vector_ok :: "PoseidonVector \<Rightarrow> bool" where
  "vector_ok v = (assertSupportedArity (pv_arity v) \<and> length (pv_name v) \<le> 100 \<and>
     safe_stem True (pv_name v) \<and> length (pv_inputs v) = pv_arity v \<and>
     list_all (\<lambda>i. parseCanonicalFieldElement i \<noteq> None) (pv_inputs v) \<and>
     (case parseCanonicalFieldElement (pv_expected v) of None \<Rightarrow> False
      | Some e \<Rightarrow> Some (pv_expectedHex v) = toHex32 e))"

fun vectors_ok :: "PoseidonVector list \<Rightarrow> string list \<Rightarrow> nat list \<Rightarrow> nat list option" where
  "vectors_ok [] names covered = Some covered"
| "vectors_ok (v # vs) names covered =
     (if \<not> vector_ok v then None
      else if pv_name v \<in> set names then None
      else vectors_ok vs (pv_name v # names) (pv_arity v # covered))"

definition validateFixture :: "PoseidonFixture \<Rightarrow> bool" where
  "validateFixture f =
     (if \<not> metadata_ok f then False
      else case vectors_ok (pf_vectors f) [] [] of None \<Rightarrow> False
        | Some covered \<Rightarrow> list_all (\<lambda>a. a \<in> set covered) SUPPORTED_ARITIES)"

section \<open>Proof conversion\<close>

fun js_array :: "jsval \<Rightarrow> nat \<Rightarrow> jsval list option" where
  "js_array (JArr xs) n = (if length xs \<noteq> n then None else Some xs)"
| "js_array _ n = None"

fun js_get :: "jsval \<Rightarrow> string \<Rightarrow> jsval" where
  "js_get (JObj fs) k = (case map_of fs k of None \<Rightarrow> JUndef | Some v \<Rightarrow> v)"
| "js_get _ k = JUndef"

definition coordinate :: "jsval \<Rightarrow> int option" where
  "coordinate v =
     (case v of JStr s \<Rightarrow>
        if length s > 77 \<or> \<not> is_decimal s then None
        else if dec_val s \<ge> BN254_BASE_FIELD then None else Some (dec_val s)
      | _ \<Rightarrow> None)"

definition g1 :: "jsval \<Rightarrow> bool \<Rightarrow> bytes option" where
  "g1 v negate = do {
     p \<leftarrow> js_array v 3;
     if p ! 2 \<noteq> JStr ''1'' then None
     else do {
       cy \<leftarrow> coordinate (p ! 1); cx \<leftarrow> coordinate (p ! 0);
       Some (be_num 32 cx @
         be_num 32 (if negate then (BN254_BASE_FIELD - cy) mod BN254_BASE_FIELD else cy)) } }"

definition g2 :: "jsval \<Rightarrow> bytes option" where
  "g2 v = do {
     p \<leftarrow> js_array v 3;
     z \<leftarrow> js_array (p ! 2) 2;
     if z ! 0 \<noteq> JStr ''1'' \<or> z ! 1 \<noteq> JStr ''0'' then None
     else do {
       x \<leftarrow> js_array (p ! 0) 2; y \<leftarrow> js_array (p ! 1) 2;
       cs \<leftarrow> those (map coordinate [x ! 1, x ! 0, y ! 1, y ! 0]);
       Some (concat (map (be_num 32) cs)) } }"

text \<open>\<^verbatim>\<open>groth16(value)\<close>: an object (arrays included) whose tags are right; arrays have no tags.\<close>

definition groth16 :: "jsval \<Rightarrow> jsval option" where
  "groth16 v =
     (if (case v of JObj _ \<Rightarrow> False | JArr _ \<Rightarrow> False | _ \<Rightarrow> True) then None
      else if js_get v ''protocol'' \<noteq> JStr ''groth16'' \<or> js_get v ''curve'' \<noteq> JStr ''bn128'' then None
      else Some v)"

definition convertVerificationKey :: "jsval \<Rightarrow> bytes option" where
  "convertVerificationKey value = do {
     v \<leftarrow> groth16 value;
     if js_get v ''nPublic'' \<noteq> JNum (JInt 7) then None
     else do {
       a \<leftarrow> g1 (js_get v ''vk_alpha_1'') False; b \<leftarrow> g2 (js_get v ''vk_beta_2'');
       g \<leftarrow> g2 (js_get v ''vk_gamma_2''); d \<leftarrow> g2 (js_get v ''vk_delta_2'');
       ic \<leftarrow> js_array (js_get v ''IC'') 8;
       ps \<leftarrow> those (map (\<lambda>p. g1 p False) ic);
       Some (a @ b @ g @ d @ concat ps) } }"

definition publicInput :: "jsval \<Rightarrow> bytes option" where
  "publicInput v = do {
     n \<leftarrow> parseCanonicalFieldElement v; h \<leftarrow> toHex32 n; Some (bytes_of_hex (drop 2 h)) }"

definition convertProof :: "jsval \<Rightarrow> jsval \<Rightarrow> bytes option" where
  "convertProof proof inputs = do {
     p \<leftarrow> groth16 proof;
     xs \<leftarrow> js_array inputs 7;
     publicBytes \<leftarrow> those (map publicInput xs);
     a \<leftarrow> g1 (js_get p ''pi_a'') True; b \<leftarrow> g2 (js_get p ''pi_b''); c \<leftarrow> g1 (js_get p ''pi_c'') False;
     Some (a @ b @ c @ concat publicBytes) }"

text \<open>\<^verbatim>\<open>verificationComputeUnits\<close>: two decreasing meter readings in the log.\<close>

definition parse_meter :: "string \<Rightarrow> int list" where
  "parse_meter line =
     (let pre = ''Program consumption: ''; post = '' units remaining'';
          mid = drop (length pre) (take (length line - length post) line)
      in if line = pre @ mid @ post \<and> mid \<noteq> [] \<and> list_all is_digit mid then [dec_val mid] else [])"

definition verificationComputeUnits :: "string list \<Rightarrow> int option" where
  "verificationComputeUnits logs =
     (case concat (map parse_meter logs) of
        [a, b] \<Rightarrow> if a < 2 ^ 53 \<and> b < 2 ^ 53 \<and> a > b then Some (a - b) else None
      | _ \<Rightarrow> None)"

section \<open>Lemmas\<close>

lemma length_dec_str_nat:
  "n < 10 ^ Suc k \<Longrightarrow> k = 0 \<or> 10 ^ k \<le> n \<Longrightarrow> length (dec_str_nat n) = Suc k"
proof (induction k arbitrary: n)
  case 0
  then show ?case by (simp add: dec_str_nat.simps [of n])
next
  case (Suc k)
  have "1 \<le> (10 :: nat) ^ k" by simp
  then have "10 \<le> 10 * (10 :: nat) ^ k" by linarith
  also have "10 * 10 ^ k \<le> n" using Suc.prems by simp
  finally have "\<not> n < 10" by simp
  moreover have "10 ^ k \<le> n div 10" using Suc.prems
    by (simp add: less_eq_div_iff_mult_less_eq mult.commute)
  moreover have "n div 10 < 10 ^ Suc k" using Suc.prems
    by (simp add: div_less_iff_less_mult mult.commute)
  ultimately show ?case using Suc.IH [of "n div 10"] by (simp add: dec_str_nat.simps [of n])
qed

lemma MAX_FIELD_DECIMAL_DIGITS_77: "MAX_FIELD_DECIMAL_DIGITS = 77"
  using length_dec_str_nat [of "nat BN254_MODULUS" 76]
  by (simp add: MAX_FIELD_DECIMAL_DIGITS_def dec_str_def BN254_MODULUS_def)

lemma modulus_bounds: "0 < BN254_MODULUS" "BN254_MODULUS < 256 ^ 32"
  "BN254_MODULUS < BN254_BASE_FIELD" "BN254_BASE_FIELD < 256 ^ 32"
  by (simp_all add: BN254_MODULUS_def BN254_BASE_FIELD_def)

lemma parseCanonical_Some:
  "parseCanonicalFieldElement v = Some n \<longleftrightarrow>
     0 \<le> n \<and> n < BN254_MODULUS \<and> v = JStr (dec_str n) \<and> length (dec_str n) \<le> MAX_FIELD_DECIMAL_DIGITS"
  by (auto simp: parseCanonicalFieldElement_def dec_str_val split: jsval.splits if_splits)

lemma publicInput_eq:
  "publicInput v = map_option (be_num 32) (parseCanonicalFieldElement v)"
proof (cases "parseCanonicalFieldElement v")
  case (Some n)
  then have "0 \<le> n" "n < BN254_MODULUS" by (simp_all add: parseCanonical_Some)
  with Some show ?thesis by (simp add: publicInput_def toHex32_def hex64_def)
qed (simp add: publicInput_def)

text \<open>A field element below the modulus never has more digits than the modulus.\<close>

lemma dec_str_nat_length_mono: "m \<le> n \<Longrightarrow> length (dec_str_nat m) \<le> length (dec_str_nat n)"
proof (induction n arbitrary: m rule: dec_str_nat.induct)
  case (1 n)
  show ?case
  proof (cases "m < 10")
    case True
    then show ?thesis by (simp add: dec_str_nat.simps [of m] dec_str_nat.simps [of n])
  next
    case False
    with 1 have "length (dec_str_nat (m div 10)) \<le> length (dec_str_nat (n div 10))"
      by (simp add: div_le_mono)
    with False 1 show ?thesis by (simp add: dec_str_nat.simps [of m] dec_str_nat.simps [of n])
  qed
qed

lemma dec_str_length_mono: "0 \<le> m \<Longrightarrow> m \<le> n \<Longrightarrow> length (dec_str m) \<le> length (dec_str n)"
  by (simp add: dec_str_def dec_str_nat_length_mono nat_mono)

lemma js_array_Some: "js_array v n = Some xs \<longleftrightarrow> v = JArr xs \<and> length xs = n"
  by (cases v) auto

lemma affine_pair: "length z = 2 \<Longrightarrow> z = [JStr a, JStr b] \<longleftrightarrow> z ! 0 = JStr a \<and> z ! 1 = JStr b"
  by (cases z; cases "tl z") auto

lemma g2_Some:
  "g2 v = Some b \<longleftrightarrow> (\<exists>x y cs. v = JArr [JArr x, JArr y, JArr [JStr ''1'', JStr ''0'']] \<and>
     length x = 2 \<and> length y = 2 \<and> those (map coordinate [x ! 1, x ! 0, y ! 1, y ! 0]) = Some cs \<and>
     b = concat (map (be_num 32) cs))" (is "?l \<longleftrightarrow> ?r")
proof
  assume ?l
  then obtain p z x y cs where p: "v = JArr p" "length p = 3" "p ! 2 = JArr z" "length z = 2"
      "z ! 0 = JStr ''1''" "z ! 1 = JStr ''0''" "p ! 0 = JArr x" "length x = 2" "p ! 1 = JArr y" "length y = 2"
    and cs: "those (map coordinate [x ! 1, x ! 0, y ! 1, y ! 0]) = Some cs" "b = concat (map (be_num 32) cs)"
    unfolding g2_def by (auto simp: Option.bind_eq_Some_conv js_array_Some simp del: those.simps list.map split: if_splits)
  have "p = [p ! 0, p ! 1, p ! 2]" using p(2) by (auto simp: numeral_3_eq_3 length_Suc_conv)
  moreover have "z = [JStr ''1'', JStr ''0'']" using p by (simp add: affine_pair)
  ultimately show ?r using p cs by auto
qed (auto simp: g2_def simp del: those.simps list.map)

lemma groth16_eq:
  "groth16 v = (if js_get v ''protocol'' \<noteq> JStr ''groth16'' \<or> js_get v ''curve'' \<noteq> JStr ''bn128'' then None
     else Some v)"
  by (cases v) (simp_all add: groth16_def)

lemma public_inputs_eq:
  "those (map publicInput xs) = map_option (map (be_num 32)) (those (map parseCanonicalFieldElement xs))"
  by (induction xs) (auto simp: publicInput_eq option.map_comp comp_def split: option.splits)

section \<open>Properties\<close>

text \<open>Canonical field elements: a value parses to \<open>n\<close> exactly when it is the canonical decimal
  text of \<open>n\<close> and \<open>n\<close> lies in the scalar field; the length cut-off refuses no field element.\<close>

theorem parseCanonicalFieldElement_exact:
  "parseCanonicalFieldElement v = Some n \<longleftrightarrow> 0 \<le> n \<and> n < BN254_MODULUS \<and> v = JStr (dec_str n)"
  using dec_str_length_mono [of n BN254_MODULUS]
  by (auto simp: parseCanonical_Some MAX_FIELD_DECIMAL_DIGITS_def)

end
