(* ===== verification/Authorization.thy ===== *)
theory Authorization
  imports Registry Circuits
begin

text \<open>
  The verifier's authorization of an observation (\<^verbatim>\<open>observation-authorization.ts\<close>): the signed
  preimage in its two versions, the signer and the check, the key-file loader and the second proof
  converter.  Ed25519 (node's crypto module) is the parameter record \<open>ed25519\<close>.
\<close>

record ed25519 =
  ed_public :: "bytes \<Rightarrow> bytes"
  ed_sign :: "bytes \<Rightarrow> bytes \<Rightarrow> bytes"
  ed_verify :: "bytes \<Rightarrow> bytes \<Rightarrow> bytes \<Rightarrow> bool"

record ObservationAuthorization =
  au_transcriptHash :: string
  au_nullifier :: string
  au_pseudonym :: string
  au_observerClass :: jsnum
  au_policyVersion :: jsnum
  au_evidenceHash :: "string option"

definition hex32 :: "string \<Rightarrow> bytes option" where
  "hex32 v = (if \<not> is_hex 64 v then None else Some (bytes_of_hex v))"

definition class_ok :: "jsnum \<Rightarrow> bool" where
  "class_ok c = (c \<in> set [JInt 1, JInt 2, JInt 3])"

definition authorizationPreimage :: "ObservationAuthorization \<Rightarrow> bytes option" where
  "authorizationPreimage v = do {
     hash \<leftarrow> hex32 (au_transcriptHash v); nullifier \<leftarrow> hex32 (au_nullifier v);
     pseudonym \<leftarrow> hex32 (au_pseudonym v);
     if hex_int (au_nullifier v) \<ge> BN254_MODULUS \<or> hex_int (au_pseudonym v) \<ge> BN254_MODULUS \<or>
        \<not> class_ok (au_observerClass v) \<or> \<not> int_in (au_policyVersion v) 1 0xffffffff then None
     else do {
       let version = le_num 4 (jint (au_policyVersion v));
       evidence \<leftarrow> (case au_evidenceHash v of None \<Rightarrow> Some (zeros 32) | Some e \<Rightarrow> hex32 e);
       let present = list_ex (\<lambda>b. b \<noteq> 0) evidence;
       Some (bytes_of_string (if present then ''Pathnod/verified/v1'' else ''Pathnod/verified/v0'') @ hash @
         (if present then evidence else []) @ nullifier @ pseudonym @
         [word_of_int (jint (au_observerClass v))] @ version) } }"

definition authorizationDigest :: "hash \<Rightarrow> ObservationAuthorization \<Rightarrow> bytes option" where
  "authorizationDigest sha v = map_option sha (authorizationPreimage v)"

section \<open>Signing and checking\<close>

record ObservationSigner =
  os_publicKey :: string
  os_seed :: bytes

definition observationSigner :: "chain \<Rightarrow> ed25519 \<Rightarrow> bytes \<Rightarrow> ObservationSigner option" where
  "observationSigner ch ed seed =
     (if length seed \<noteq> 32 then None
      else Some \<lparr>os_publicKey = ch_toBase58 ch (ed_public ed seed), os_seed = seed\<rparr>)"

definition signer_sign :: "chain \<Rightarrow> ed25519 \<Rightarrow> ObservationSigner \<Rightarrow> ObservationAuthorization \<Rightarrow> string option" where
  "signer_sign ch ed s v =
     map_option (\<lambda>d. hex_of_bytes (ed_sign ed (os_seed s) d)) (authorizationDigest (ch_sha256 ch) v)"

definition signClaimDigest :: "ed25519 \<Rightarrow> ObservationSigner \<Rightarrow> bytes \<Rightarrow> string option" where
  "signClaimDigest ed s digest =
     (if length digest \<noteq> 32 then None else Some (hex_of_bytes (ed_sign ed (os_seed s) digest)))"

definition verifyAuthorization ::
  "chain \<Rightarrow> ed25519 \<Rightarrow> ObservationAuthorization \<Rightarrow> string \<Rightarrow> string \<Rightarrow> bool" where
  "verifyAuthorization ch ed v publicKey signature =
     (if \<not> is_hex 128 signature then False
      else case ch_ofBase58 ch publicKey of None \<Rightarrow> False
        | Some key \<Rightarrow> (case authorizationDigest (ch_sha256 ch) v of None \<Rightarrow> False
           | Some d \<Rightarrow> ed_verify ed key d (bytes_of_hex signature)))"

text \<open>The Ed25519 program instruction is built by the web3 library from these three parts.\<close>

record Ed25519Instruction =
  ei_publicKey :: bytes
  ei_signature :: bytes
  ei_message :: bytes

definition authorizationInstruction ::
  "chain \<Rightarrow> ed25519 \<Rightarrow> ObservationAuthorization \<Rightarrow> string \<Rightarrow> string \<Rightarrow> Ed25519Instruction option" where
  "authorizationInstruction ch ed v publicKey signature =
     (if \<not> verifyAuthorization ch ed v publicKey signature then None
      else do {
        key \<leftarrow> ch_ofBase58 ch publicKey; d \<leftarrow> authorizationDigest (ch_sha256 ch) v;
        Some \<lparr>ei_publicKey = key, ei_signature = bytes_of_hex signature, ei_message = d\<rparr> })"

text \<open>The key-file loader: what \<^verbatim>\<open>stat\<close> reports, the value \<^verbatim>\<open>JSON.parse\<close> returns (\<open>None\<close> when it
  throws) and the library's \<^verbatim>\<open>Keypair.fromSecretKey\<close> are arguments; \<^verbatim>\<open>0o077\<close> is \<open>0x3f\<close>.\<close>

record FileInfo =
  fi_isFile :: bool
  fi_size :: int
  fi_mode :: int

fun js_byte :: "jsval \<Rightarrow> byte option" where
  "js_byte (JNum n) = (if int_in n 0 255 then Some (word_of_int (jint n)) else None)"
| "js_byte _ = None"

definition loadPrivateKeypair ::
  "(bytes \<Rightarrow> 'k option) \<Rightarrow> FileInfo \<Rightarrow> jsval option \<Rightarrow> 'k option" where
  "loadPrivateKeypair fromSecretKey info parsed =
     (if \<not> fi_isFile info \<or> fi_size info > 4096 \<or> fi_mode info AND 0x3f \<noteq> 0 then None
      else do {
        v \<leftarrow> parsed;
        xs \<leftarrow> js_array v 64;
        bs \<leftarrow> those (map js_byte xs);
        fromSecretKey bs })"

definition loadObservationSigner ::
  "chain \<Rightarrow> ed25519 \<Rightarrow> (bytes \<Rightarrow> bytes option) \<Rightarrow> FileInfo \<Rightarrow> jsval option \<Rightarrow> ObservationSigner option" where
  "loadObservationSigner ch ed fromSecretKey info parsed = do {
     secretKey \<leftarrow> loadPrivateKeypair fromSecretKey info parsed;
     observationSigner ch ed (subarray 0 32 secretKey) }"

section \<open>The relay's proof converter\<close>

definition relay_scalar :: "jsval \<Rightarrow> int \<Rightarrow> int option" where
  "relay_scalar v modulus =
     (case v of JStr s \<Rightarrow>
        if length s > 77 \<or> \<not> is_decimal s \<or> dec_val s \<ge> modulus then None else Some (dec_val s)
      | _ \<Rightarrow> None)"

definition relay_g1 :: "jsval \<Rightarrow> bool \<Rightarrow> bytes option" where
  "relay_g1 v negate = do {
     p \<leftarrow> js_array v 3;
     if p ! 2 \<noteq> JStr ''1'' then None
     else do {
       cy \<leftarrow> relay_scalar (p ! 1) BN254_BASE_FIELD; cx \<leftarrow> relay_scalar (p ! 0) BN254_BASE_FIELD;
       Some (be_num 32 cx @
         be_num 32 (if negate then (BN254_BASE_FIELD - cy) mod BN254_BASE_FIELD else cy)) } }"

text \<open>\<^verbatim>\<open>JSON.stringify(z)\<close> is that text exactly for the array of the two strings.\<close>

definition relayProofBytes :: "jsval \<Rightarrow> jsval \<Rightarrow> bytes option" where
  "relayProofBytes proof inputs =
     (if js_get proof ''protocol'' \<noteq> JStr ''groth16'' \<or> js_get proof ''curve'' \<noteq> JStr ''bn128'' then None
      else do {
        p \<leftarrow> js_array (js_get proof ''pi_b'') 3; x \<leftarrow> js_array (p ! 0) 2; y \<leftarrow> js_array (p ! 1) 2;
        if p ! 2 \<noteq> JArr [JStr ''1'', JStr ''0''] then None
        else do {
          a \<leftarrow> relay_g1 (js_get proof ''pi_a'') True;
          b \<leftarrow> those (map (\<lambda>v. relay_scalar v BN254_BASE_FIELD) [x ! 1, x ! 0, y ! 1, y ! 0]);
          c \<leftarrow> relay_g1 (js_get proof ''pi_c'') False;
          xs \<leftarrow> js_array inputs 7;
          ss \<leftarrow> those (map (\<lambda>v. relay_scalar v BN254_MODULUS) xs);
          Some (a @ concat (map (be_num 32) b) @ c @ concat (map (be_num 32) ss)) } })"

section \<open>Lemmas\<close>

lemma hex32_Some: "hex32 v = Some b \<longleftrightarrow> length b = 32 \<and> v = hex_of_bytes b"
  using hex_of_bytes_of_hex [of 32 v] is_hex_of_bytes [of b] by (auto simp: hex32_def)

lemma hex32_of_bytes [simp]: "length b = 32 \<Longrightarrow> hex32 (hex_of_bytes b) = Some b"
  by (simp add: hex32_Some)

text \<open>The evidence slot the preimage commits to: absent evidence is the zero hash.\<close>

definition evidence_bytes :: "ObservationAuthorization \<Rightarrow> bytes" where
  "evidence_bytes v = (case au_evidenceHash v of None \<Rightarrow> zeros 32 | Some e \<Rightarrow> bytes_of_hex e)"

lemma nonzero_evidence: "\<not> list_ex (\<lambda>b. b \<noteq> 0) e \<Longrightarrow> e = zeros (length e)"
  by (induction e) (auto simp: zeros_def)

lemma class_ok_iff: "class_ok c \<longleftrightarrow> (\<exists>i. c = JInt i \<and> 1 \<le> i \<and> i \<le> 3)"
  by (cases c) (auto simp: class_ok_def)

lemma preimage_layout:
  assumes "authorizationPreimage v = Some p"
  obtains h n s e where "length h = 32" "length n = 32" "length s = 32" "length e = 32"
    and "au_transcriptHash v = hex_of_bytes h" "au_nullifier v = hex_of_bytes n"
    and "au_pseudonym v = hex_of_bytes s" "evidence_bytes v = e"
    and "be_val n < BN254_MODULUS" "be_val s < BN254_MODULUS"
    and "class_ok (au_observerClass v)" "int_in (au_policyVersion v) 1 0xffffffff"
    and "p = (if e = zeros 32 then bytes_of_string ''Pathnod/verified/v0'' @ h
          else bytes_of_string ''Pathnod/verified/v1'' @ h @ e) @ n @ s @
        [word_of_int (jint (au_observerClass v))] @ le_num 4 (jint (au_policyVersion v))"
proof -
  have z: "\<not> list_ex (\<lambda>b. b \<noteq> 0) (zeros 32)" by (simp add: zeros_def list_ex_iff)
  from assms obtain h n s e where parts: "hex32 (au_transcriptHash v) = Some h" "hex32 (au_nullifier v) = Some n"
      "hex32 (au_pseudonym v) = Some s"
      "(case au_evidenceHash v of None \<Rightarrow> Some (zeros 32) | Some e \<Rightarrow> hex32 e) = Some e"
    and g: "\<not> hex_int (au_nullifier v) \<ge> BN254_MODULUS" "\<not> hex_int (au_pseudonym v) \<ge> BN254_MODULUS"
      "class_ok (au_observerClass v)" "int_in (au_policyVersion v) 1 0xffffffff"
    and p: "p = bytes_of_string (if list_ex (\<lambda>b. b \<noteq> 0) e then ''Pathnod/verified/v1'' else ''Pathnod/verified/v0'')
        @ h @ (if list_ex (\<lambda>b. b \<noteq> 0) e then e else []) @ n @ s @
        [word_of_int (jint (au_observerClass v))] @ le_num 4 (jint (au_policyVersion v))"
    unfolding authorizationPreimage_def Let_def
    by (auto simp: Option.bind_eq_Some_conv simp del: int_in.simps split: if_splits)
  have ev: "length e = 32" "evidence_bytes v = e"
    using parts(4) by (auto simp: evidence_bytes_def hex32_Some split: option.splits)
  have pres: "list_ex (\<lambda>b. b \<noteq> 0) e \<longleftrightarrow> e \<noteq> zeros 32" using nonzero_evidence [of e] ev z by auto
  show thesis
    by (rule that [of h n s e]) (use parts g p ev in \<open>auto simp: hex32_Some hex_int_def pres\<close>)
qed

lemma scalar_coordinate [simp]: "relay_scalar v BN254_BASE_FIELD = coordinate v"
  by (auto simp: relay_scalar_def coordinate_def split: jsval.splits)

lemma scalar_input: "relay_scalar v BN254_MODULUS = parseCanonicalFieldElement v"
  by (auto simp: relay_scalar_def parseCanonicalFieldElement_def MAX_FIELD_DECIMAL_DIGITS_77
      split: jsval.splits)

lemma relay_g1_eq [simp]: "relay_g1 v negate = g1 v negate"
  unfolding relay_g1_def g1_def scalar_coordinate ..

text \<open>The relay's inlined G2 conversion is \<open>g2\<close>.\<close>

definition relay_g2 :: "jsval \<Rightarrow> bytes option" where
  "relay_g2 v = do {
     p \<leftarrow> js_array v 3; x \<leftarrow> js_array (p ! 0) 2; y \<leftarrow> js_array (p ! 1) 2;
     if p ! 2 \<noteq> JArr [JStr ''1'', JStr ''0''] then None
     else do {
       b \<leftarrow> those (map coordinate [x ! 1, x ! 0, y ! 1, y ! 0]);
       Some (concat (map (be_num 32) b)) } }"

lemma relay_g2_eq: "relay_g2 v = g2 v"
  by (rule option_eq_iffI, unfold g2_Some relay_g2_def)
    (auto simp: Option.bind_eq_Some_conv js_array_Some numeral_3_eq_3 length_Suc_conv
      simp del: those.simps list.map split: if_splits)

lemma relayProofBytes_split:
  "relayProofBytes proof inputs =
     (if js_get proof ''protocol'' \<noteq> JStr ''groth16'' \<or> js_get proof ''curve'' \<noteq> JStr ''bn128'' then None
      else do {
        b \<leftarrow> relay_g2 (js_get proof ''pi_b''); a \<leftarrow> g1 (js_get proof ''pi_a'') True;
        c \<leftarrow> g1 (js_get proof ''pi_c'') False; xs \<leftarrow> js_array inputs 7;
        ss \<leftarrow> those (map parseCanonicalFieldElement xs);
        Some (a @ b @ c @ concat (map (be_num 32) ss)) })"
  by (rule option_eq_iffI, unfold relayProofBytes_def relay_g2_def scalar_coordinate scalar_input relay_g1_eq)
    (auto simp: Option.bind_eq_Some_conv simp del: those.simps list.map split: if_splits)

section \<open>Properties\<close>

text \<open>C33. The relay's own proof converter and the circuit package's converter are the same partial
  function: they refuse the same inputs and produce the same 480 bytes.\<close>

theorem relayProofBytes_eq_convertProof: "relayProofBytes proof inputs = convertProof proof inputs"
  by (rule option_eq_iffI, unfold relayProofBytes_split convertProof_def groth16_eq public_inputs_eq relay_g2_eq)
    (auto simp: Option.bind_eq_Some_conv split: if_splits)

text \<open>The preimage is injective: two authorizations with the same preimage agree in the transcript
  hash, nullifier, pseudonym, class and policy version, and in the evidence hash, where a missing
  one and the zero hash count as the same.  In particular the two domains never collide.\<close>

theorem authorizationPreimage_inject:
  assumes "authorizationPreimage a = Some p" and "authorizationPreimage b = Some p"
  shows "au_transcriptHash a = au_transcriptHash b \<and> au_nullifier a = au_nullifier b \<and>
    au_pseudonym a = au_pseudonym b \<and> au_observerClass a = au_observerClass b \<and>
    au_policyVersion a = au_policyVersion b \<and> evidence_bytes a = evidence_bytes b"
proof -
  have inj: "x = y" if "int_in x 1 0xffffffff" "int_in y 1 0xffffffff" "le_num 4 (jint x) = le_num 4 (jint y)" for x y
    using that by (auto intro: le_num_u32_inject)
  have cls: "x = y" if "class_ok x" "class_ok y" "(word_of_int (jint x) :: byte) = word_of_int (jint y)" for x y
    using that by (auto simp: class_ok_def)
  from assms(1) show ?thesis
  proof (rule preimage_layout)
    fix h n s e
    assume a: "length h = 32" "length n = 32" "length s = 32" "length e = 32"
      "au_transcriptHash a = hex_of_bytes h" "au_nullifier a = hex_of_bytes n" "au_pseudonym a = hex_of_bytes s"
      "evidence_bytes a = e" "class_ok (au_observerClass a)" "int_in (au_policyVersion a) 1 0xffffffff"
      "p = (if e = zeros 32 then bytes_of_string ''Pathnod/verified/v0'' @ h
          else bytes_of_string ''Pathnod/verified/v1'' @ h @ e) @ n @ s @
        [word_of_int (jint (au_observerClass a))] @ le_num 4 (jint (au_policyVersion a))"
    from assms(2) show ?thesis
    proof (rule preimage_layout)
      fix h' n' s' e'
      assume b: "length h' = 32" "length n' = 32" "length s' = 32" "length e' = 32"
        "au_transcriptHash b = hex_of_bytes h'" "au_nullifier b = hex_of_bytes n'" "au_pseudonym b = hex_of_bytes s'"
        "evidence_bytes b = e'" "class_ok (au_observerClass b)" "int_in (au_policyVersion b) 1 0xffffffff"
        "p = (if e' = zeros 32 then bytes_of_string ''Pathnod/verified/v0'' @ h'
            else bytes_of_string ''Pathnod/verified/v1'' @ h' @ e') @ n' @ s' @
          [word_of_int (jint (au_observerClass b))] @ le_num 4 (jint (au_policyVersion b))"
      have "length p = (if e = zeros 32 then 120 else 152)" using a by simp
      moreover have "length p = (if e' = zeros 32 then 120 else 152)" using b by simp
      ultimately have same: "(e = zeros 32) = (e' = zeros 32)" by (auto split: if_splits)
      with a b show ?thesis by (auto split: if_splits intro: inj cls)
    qed
  qed
qed

definition sample_authorization :: "string option \<Rightarrow> ObservationAuthorization" where
  "sample_authorization e = \<lparr>au_transcriptHash = hex_of_bytes (replicate 32 9),
     au_nullifier = hex_of_bytes (zeros 32), au_pseudonym = hex_of_bytes (zeros 32),
     au_observerClass = JInt 2, au_policyVersion = JInt 7, au_evidenceHash = e\<rparr>"

lemmas sample_preimage_eval = authorizationPreimage_def sample_authorization_def hex_int_def class_ok_def
  BN254_MODULUS_def Let_def

theorem authorizationPreimage_inject_witness:
  "authorizationPreimage (sample_authorization None) \<noteq> None \<and>
   evidence_bytes (sample_authorization None) =
     evidence_bytes (sample_authorization (Some (hex_of_bytes (zeros 32))))"
proof -
  have "authorizationPreimage (sample_authorization None) \<noteq> None" by (simp add: sample_preimage_eval)
  then obtain p where p: "authorizationPreimage (sample_authorization None) = Some p" by blast
  have q: "authorizationPreimage (sample_authorization (Some (hex_of_bytes (zeros 32)))) =
      authorizationPreimage (sample_authorization None)"
    by (simp add: sample_preimage_eval)
  show ?thesis using authorizationPreimage_inject [OF p q [unfolded p]] p by simp
qed

text \<open>Signing and checking fit together: given that Ed25519 accepts its own signatures and Base58
  text decodes to the key it came from, a signer signs exactly the well-formed authorizations, and
  each signature is accepted for its authorization under the signer's published key.\<close>

theorem signed_authorization_verifies:
  assumes "\<And>s m. ed_verify ed (ed_public ed s) m (ed_sign ed s m)" and "\<And>s m. length (ed_sign ed s m) = 64"
    and "\<And>s. ch_ofBase58 ch (ch_toBase58 ch (ed_public ed s)) = Some (ed_public ed s)"
    and "observationSigner ch ed seed = Some signer"
  shows "(signer_sign ch ed signer v \<noteq> None) = (authorizationPreimage v \<noteq> None) \<and>
    (\<forall>sig. signer_sign ch ed signer v = Some sig \<longrightarrow> verifyAuthorization ch ed v (os_publicKey signer) sig)"
proof -
  have "is_hex 128 (hex_of_bytes (ed_sign ed s m))" for s m
    using is_hex_of_bytes [of "ed_sign ed s m"] assms(2) by simp
  with assms show ?thesis
    by (auto simp: signer_sign_def authorizationDigest_def verifyAuthorization_def observationSigner_def split: if_splits)
qed

definition sample_ed25519 :: ed25519 where
  "sample_ed25519 = \<lparr>ed_public = (\<lambda>s. take 32 (s @ zeros 32)), ed_sign = (\<lambda>s m. take 64 (s @ m @ zeros 64)),
     ed_verify = (\<lambda>k m g. length g = 64)\<rparr>"

theorem signed_authorization_verifies_witness:
  "\<exists>signer sig. observationSigner sample_chain sample_ed25519 (zeros 32) = Some signer \<and>
     signer_sign sample_chain sample_ed25519 signer (sample_authorization None) = Some sig \<and>
     verifyAuthorization sample_chain sample_ed25519 (sample_authorization None) (os_publicKey signer) sig"
proof -
  obtain signer where s: "observationSigner sample_chain sample_ed25519 (zeros 32) = Some signer"
    by (simp add: observationSigner_def)
  have "signer_sign sample_chain sample_ed25519 signer (sample_authorization None) \<noteq> None"
    by (simp add: signer_sign_def authorizationDigest_def sample_preimage_eval)
  then obtain sig where g: "signer_sign sample_chain sample_ed25519 signer (sample_authorization None) = Some sig"
    by blast
  have "verifyAuthorization sample_chain sample_ed25519 (sample_authorization None) (os_publicKey signer) sig"
    using signed_authorization_verifies [OF _ _ _ s, of "sample_authorization None"] g
    by (simp add: sample_ed25519_def sample_chain_def)
  with s g show ?thesis by blast
qed

end
