(* ===== verification/Payments.thy ===== *)
theory Payments
  imports Registry
begin

text \<open>
  The payment client of \<^verbatim>\<open>packages/solana/src/payments.ts\<close>: addresses, instructions, the digest of a
  claim, the reward split, and the decoders of the payout and settings accounts.  As in \<open>Registry\<close> a
  thrown error is \<open>None\<close>.  The module's own \<^verbatim>\<open>u64\<close>, \<^verbatim>\<open>u32\<close>, \<^verbatim>\<open>meta\<close> and \<^verbatim>\<open>ix\<close> do what those of
  \<^verbatim>\<open>index.ts\<close> do and are the same definitions here (\<^verbatim>\<open>writeUInt32LE\<close> refuses what is out of range).
\<close>

record PaymentAddresses =
  py_settings :: pubkey
  py_feeVault :: pubkey
  py_payout :: pubkey
  py_vault :: pubkey

definition paymentAddresses :: "chain \<Rightarrow> pubkey \<Rightarrow> bytes \<Rightarrow> bytes \<Rightarrow> PaymentAddresses option" where
  "paymentAddresses ch program protocol pseudonym = do {
     p \<leftarrow> bytes32 protocol; s \<leftarrow> bytes32 pseudonym;
     let pda = (\<lambda>seeds. ch_pda ch seeds program);
     Some \<lparr>py_settings = pda [bytes_of_string ''payments''], py_feeVault = pda [bytes_of_string ''fees''],
       py_payout = pda [bytes_of_string ''payout'', p, s],
       py_vault = pda [bytes_of_string ''payout-vault'', p, s]\<rparr> }"

definition initializePayments ::
  "chain \<Rightarrow> pubkey \<Rightarrow> pubkey \<Rightarrow> pubkey \<Rightarrow> pubkey \<Rightarrow> TransactionInstruction option" where
  "initializePayments ch program authority mint treasury = do {
     a \<leftarrow> paymentAddresses ch program (zeros 32) (zeros 32);
     r \<leftarrow> registryAddresses ch program (zeros 32);
     Some (instruction ch program ''initialize_payments'' []
       [meta (py_settings a) True False, meta (ra_enrollment r) False False, meta mint False False,
        meta treasury False False, meta (py_feeVault a) True False, meta authority True True,
        meta (ch_token ch) False False, meta (ch_system ch) False False]) }"

definition updateFees :: "chain \<Rightarrow> pubkey \<Rightarrow> pubkey \<Rightarrow> jsnum \<Rightarrow> TransactionInstruction option" where
  "updateFees ch program authority feeBps =
     (if \<not> int_in feeBps 0 10000 then None
      else do {
        a \<leftarrow> paymentAddresses ch program (zeros 32) (zeros 32);
        Some (instruction ch program ''update_fees'' (le_num 2 (jint feeBps))
          [meta (py_settings a) True False, meta authority False True]) })"

definition updatePolicy ::
  "chain \<Rightarrow> pubkey \<Rightarrow> bytes \<Rightarrow> pubkey \<Rightarrow> jsnum \<Rightarrow> pubkey \<Rightarrow> int \<Rightarrow> jsnum \<Rightarrow> TransactionInstruction option" where
  "updatePolicy ch program protocol authority policyVersion verifier grossReward slots =
     (if \<not> int_in slots 0 255 \<or> jint policyVersion < 1 \<or> verifier = zeros 32 \<or>
         jint slots > 0 \<and> grossReward = 0 then None
      else do {
        v \<leftarrow> u32 policyVersion; g \<leftarrow> u64 grossReward; s \<leftarrow> u8 slots;
        a \<leftarrow> registryAddresses ch program protocol;
        Some (instruction ch program ''update_policy'' (v @ verifier @ g @ s)
          [meta (ra_config a) True False, meta authority False True]) })"

section \<open>Claims\<close>

record ClaimAuthorization =
  ca_program :: string
  ca_payout :: string
  ca_mint :: string
  ca_withdrawalKey :: string
  ca_destination :: string
  ca_amount :: string
  ca_nonce :: string
  ca_expiresAt :: string
  ca_policyVersion :: jsnum

text \<open>The pattern \<^verbatim>\<open>0|[1-9][0-9]{0,19}\<close>.\<close>

definition claim_integer :: "string \<Rightarrow> bool" where
  "claim_integer s = (is_decimal s \<and> length s \<le> 20)"

definition claim_preimage :: "chain \<Rightarrow> ClaimAuthorization \<Rightarrow> bytes option" where
  "claim_preimage ch v =
     (if \<not> list_all claim_integer [ca_amount v, ca_nonce v, ca_expiresAt v] then None
      else if dec_val (ca_amount v) = 0 \<or> dec_val (ca_expiresAt v) > 0x7fffffffffffffff \<or>
          jint (ca_policyVersion v) < 1 then None
      else do {
        keys \<leftarrow> those (map (ch_ofBase58 ch)
          [ca_program v, ca_payout v, ca_mint v, ca_withdrawalKey v, ca_destination v]);
        a \<leftarrow> u64 (dec_val (ca_amount v)); n \<leftarrow> u64 (dec_val (ca_nonce v));
        e \<leftarrow> u64 (dec_val (ca_expiresAt v)); p \<leftarrow> u32 (ca_policyVersion v);
        Some (bytes_of_string ''Pathnod/claim/v0'' @ concat keys @ a @ n @ e @ p) })"

definition claimDigest :: "chain \<Rightarrow> ClaimAuthorization \<Rightarrow> bytes option" where
  "claimDigest ch v = map_option (ch_sha256 ch) (claim_preimage ch v)"

definition claimPayout ::
  "chain \<Rightarrow> pubkey \<Rightarrow> bytes \<Rightarrow> bytes \<Rightarrow> pubkey \<Rightarrow> pubkey \<Rightarrow> pubkey \<Rightarrow> int \<Rightarrow> int \<Rightarrow> int \<Rightarrow>
     TransactionInstruction option" where
  "claimPayout ch program protocol pseudonym mint withdrawalKey destination amount nonce expiresAt = do {
     a \<leftarrow> paymentAddresses ch program protocol pseudonym;
     if amount \<le> 0 \<or> expiresAt < 0 \<or> expiresAt > 0x7fffffffffffffff then None
     else do {
       m \<leftarrow> u64 amount; n \<leftarrow> u64 nonce; e \<leftarrow> u64 expiresAt;
       r \<leftarrow> registryAddresses ch program protocol;
       Some (instruction ch program ''claim_payout'' (m @ n @ e)
         [meta (ra_config r) False False, meta (py_payout a) True False, meta mint False False,
          meta (py_vault a) True False, meta destination True False, meta withdrawalKey False True,
          meta (ch_instructions ch) False False, meta (ch_token ch) False False]) } }"

section \<open>Amounts\<close>

record RewardSplit =
  rs_gross :: int
  rs_fee :: int
  rs_net :: int

definition splitReward :: "int \<Rightarrow> jsnum \<Rightarrow> RewardSplit option" where
  "splitReward gross feeBps =
     (if gross < 0 \<or> gross > 0xffffffffffffffff \<or> \<not> int_in feeBps 0 10000 then None
      else let fee = gross * jint feeBps div 10000
           in Some \<lparr>rs_gross = gross, rs_fee = fee, rs_net = gross - fee\<rparr>)"

text \<open>\<^verbatim>\<open>s.padStart(n, "0")\<close>.\<close>

definition pad_zero :: "nat \<Rightarrow> string \<Rightarrow> string" where
  "pad_zero n s = replicate (n - length s) CHR ''0'' @ s"

definition formatUSDC :: "int \<Rightarrow> string option" where
  "formatUSDC amount =
     (if amount < 0 then None
      else Some (dec_str (amount div 1000000) @ ''.'' @ pad_zero 6 (dec_str (amount mod 1000000))))"

section \<open>Accounts\<close>

record Payout =
  po_protocol :: bytes
  po_pseudonym :: bytes
  po_mint :: pubkey
  po_withdrawalKey :: pubkey
  po_gross :: int
  po_fees :: int
  po_available :: int
  po_withdrawn :: int
  po_nonce :: int

definition decodePayout :: "chain \<Rightarrow> bytes \<Rightarrow> Payout option" where
  "decodePayout ch b =
     (if length b \<noteq> 176 \<or> subarray 0 8 b \<noteq> discriminator ch ''account'' ''Payout'' then None
      else let r = \<lparr>po_protocol = subarray 8 40 b, po_pseudonym = subarray 40 72 b,
               po_mint = subarray 72 104 b, po_withdrawalKey = subarray 104 136 b,
               po_gross = le_val (subarray 136 144 b), po_fees = le_val (subarray 144 152 b),
               po_available = le_val (subarray 152 160 b), po_withdrawn = le_val (subarray 160 168 b),
               po_nonce = le_val (subarray 168 176 b)\<rparr>
           in if po_gross r \<noteq> po_fees r + po_available r + po_withdrawn r \<or>
                 be_val (po_pseudonym r) \<ge> BN254_MODULUS then None
              else Some r)"

record PaymentSettings =
  ps_authority :: pubkey
  ps_mint :: pubkey
  ps_treasury :: pubkey
  ps_feeBps :: int

definition decodePaymentSettings :: "chain \<Rightarrow> bytes \<Rightarrow> PaymentSettings option" where
  "decodePaymentSettings ch b =
     (if length b \<noteq> 106 \<or> subarray 0 8 b \<noteq> discriminator ch ''account'' ''PaymentSettings'' then None
      else let r = \<lparr>ps_authority = subarray 8 40 b, ps_mint = subarray 40 72 b,
               ps_treasury = subarray 72 104 b, ps_feeBps = le_val (subarray 104 106 b)\<rparr>
           in if ps_feeBps r > 10000 \<or>
                 list_ex (\<lambda>k. k = zeros 32) [ps_authority r, ps_mint r, ps_treasury r] then None
              else Some r)"

section \<open>Reference layouts\<close>

definition payout_bytes :: "Payout \<Rightarrow> bytes" where
  "payout_bytes p = po_protocol p @ po_pseudonym p @ po_mint p @ po_withdrawalKey p @
     le_num 8 (po_gross p) @ le_num 8 (po_fees p) @ le_num 8 (po_available p) @
     le_num 8 (po_withdrawn p) @ le_num 8 (po_nonce p)"

definition u64_range :: "int \<Rightarrow> bool" where
  "u64_range v = (0 \<le> v \<and> v < 256 ^ 8)"

text \<open>The books of a payout account: everything earned is a fee, still available, or withdrawn.\<close>

definition payout_ok :: "Payout \<Rightarrow> bool" where
  "payout_ok p = (length (po_protocol p) = 32 \<and> length (po_pseudonym p) = 32 \<and>
     length (po_mint p) = 32 \<and> length (po_withdrawalKey p) = 32 \<and>
     list_all u64_range [po_gross p, po_fees p, po_available p, po_withdrawn p, po_nonce p] \<and>
     po_gross p = po_fees p + po_available p + po_withdrawn p \<and> be_val (po_pseudonym p) < BN254_MODULUS)"

section \<open>Lemmas\<close>

lemma le_val_u64: "length b = 8 \<Longrightarrow> u64_range (le_val b)"
  using le_val_less [of b] by (simp add: u64_range_def)

lemma payout_cut:
  assumes "length b = 176"
  shows "b = subarray 0 8 b @ subarray 8 40 b @ subarray 40 72 b @ subarray 72 104 b @ subarray 104 136 b @
    subarray 136 144 b @ subarray 144 152 b @ subarray 152 160 b @ subarray 160 168 b @ subarray 168 176 b"
  using cut_at [of "[8, 40, 72, 104, 136, 144, 152, 160, 168, 176]" b] assms by simp

lemma decodePayout_sound:
  assumes "decodePayout ch b = Some p"
  shows "payout_ok p \<and> b = discriminator ch ''account'' ''Payout'' @ payout_bytes p"
proof -
  from assms have len: "length b = 176" by (simp add: decodePayout_def split: if_splits)
  from assms have p: "po_protocol p = subarray 8 40 b" "po_pseudonym p = subarray 40 72 b"
      "po_mint p = subarray 72 104 b" "po_withdrawalKey p = subarray 104 136 b"
      "po_gross p = le_val (subarray 136 144 b)" "po_fees p = le_val (subarray 144 152 b)"
      "po_available p = le_val (subarray 152 160 b)" "po_withdrawn p = le_val (subarray 160 168 b)"
      "po_nonce p = le_val (subarray 168 176 b)"
    and g: "subarray 0 8 b = discriminator ch ''account'' ''Payout''"
      "po_gross p = po_fees p + po_available p + po_withdrawn p" "\<not> be_val (po_pseudonym p) \<ge> BN254_MODULUS"
    unfolding decodePayout_def Let_def by (auto split: if_splits)
  have "list_all u64_range [po_gross p, po_fees p, po_available p, po_withdrawn p, po_nonce p]"
    unfolding p using len by (simp add: le_val_u64)
  with g len have "payout_ok p" unfolding payout_ok_def by (simp add: p(1-4))
  moreover have "b = discriminator ch ''account'' ''Payout'' @ payout_bytes p"
    unfolding payout_bytes_def p using payout_cut [OF len] len g(1) by (simp add: le_num_le_val')
  ultimately show ?thesis ..
qed

lemma decodePayout_complete:
  assumes "length (discriminator ch ''account'' ''Payout'') = 8" and "payout_ok p"
  shows "decodePayout ch (discriminator ch ''account'' ''Payout'' @ payout_bytes p) = Some p"
  using assms by (simp add: decodePayout_def payout_bytes_def payout_ok_def u64_range_def offset_simps)

lemma floor10000: "x div 10000 * 10000 \<le> x" "x < (x div 10000 + 1) * (10000 :: int)"
    "f * 10000 \<le> x \<Longrightarrow> x < (f + 1) * 10000 \<Longrightarrow> f = x div 10000"
proof -
  show "x div 10000 * 10000 \<le> x" "x < (x div 10000 + 1) * 10000"
    using div_mult_mod_eq [of x 10000] pos_mod_sign [of 10000 x] pos_mod_bound [of 10000 x]
    by (simp_all add: algebra_simps)
  show "f * 10000 \<le> x \<Longrightarrow> x < (f + 1) * 10000 \<Longrightarrow> f = x div 10000"
    using int_div_pos_eq [of x 10000 f "x - f * 10000"] by simp
qed

lemma dec_val_pad: "dec_val (pad_zero n s) = dec_val s"
proof -
  have "dec_val_acc 0 (replicate k CHR ''0'' @ s) = dec_val_acc 0 s" for k
    by (induction k) (simp_all add: dec_value_def dec_digits_def)
  then show ?thesis by (simp add: dec_val_def pad_zero_def)
qed

lemma digit_0: "is_digit CHR ''0''"
  by (simp add: is_digit_def dec_digits_def)

lemma length_pad_zero: "length s \<le> n \<Longrightarrow> length (pad_zero n s) = n"
  by (simp add: pad_zero_def)

lemma length_dec_str_nat_le: "n < 10 ^ k \<Longrightarrow> 0 < k \<Longrightarrow> length (dec_str_nat n) \<le> k"
proof (induction k arbitrary: n)
  case (Suc k)
  show ?case
  proof (cases "n < 10")
    case True
    then show ?thesis by (simp add: dec_str_nat.simps [of n])
  next
    case False
    with Suc.prems have "n div 10 < 10 ^ k" "0 < k"
      by (simp_all add: div_less_iff_less_mult mult.commute) (cases k; simp)
    with Suc.IH [of "n div 10"] False show ?thesis by (simp add: dec_str_nat.simps [of n])
  qed
qed simp

text \<open>The number an amount text denotes, in millionths: the digits before the point, and the six
  after it.\<close>

definition usdc_value :: "string \<Rightarrow> int" where
  "usdc_value s = dec_val (take (length s - 7) s) * 1000000 + dec_val (drop (length s - 6) s)"

lemma u64_Some: "u64 v = Some b \<longleftrightarrow> u64_range v \<and> b = le_num 8 v"
  by (auto simp: u64_def u64_range_def)

lemma u32_Some: "u32 v = Some b \<longleftrightarrow> int_in v 0 0xffffffff \<and> b = le_num 4 (jint v)"
  by (auto simp: u32_def)

lemma claim_preimage_layout:
  assumes "claim_preimage ch v = Some p"
  obtains ks where "those (map (ch_ofBase58 ch)
      [ca_program v, ca_payout v, ca_mint v, ca_withdrawalKey v, ca_destination v]) = Some ks"
    and "length ks = 5" "is_decimal (ca_amount v)" "is_decimal (ca_nonce v)" "is_decimal (ca_expiresAt v)"
    and "list_all u64_range [dec_val (ca_amount v), dec_val (ca_nonce v), dec_val (ca_expiresAt v)]"
    and "0 < dec_val (ca_amount v)" "int_in (ca_policyVersion v) 1 0xffffffff"
    and "p = bytes_of_string ''Pathnod/claim/v0'' @ concat ks @ le_num 8 (dec_val (ca_amount v)) @
      le_num 8 (dec_val (ca_nonce v)) @ le_num 8 (dec_val (ca_expiresAt v)) @
      le_num 4 (jint (ca_policyVersion v))"
proof -
  from assms obtain ks where k: "those (map (ch_ofBase58 ch)
      [ca_program v, ca_payout v, ca_mint v, ca_withdrawalKey v, ca_destination v]) = Some ks"
    and d: "is_decimal (ca_amount v)" "is_decimal (ca_nonce v)" "is_decimal (ca_expiresAt v)"
      "dec_val (ca_amount v) \<noteq> 0" "\<not> jint (ca_policyVersion v) < 1"
      "u64_range (dec_val (ca_amount v))" "u64_range (dec_val (ca_nonce v))" "u64_range (dec_val (ca_expiresAt v))"
      "int_in (ca_policyVersion v) 0 0xffffffff"
    and p: "p = bytes_of_string ''Pathnod/claim/v0'' @ concat ks @ le_num 8 (dec_val (ca_amount v)) @
      le_num 8 (dec_val (ca_nonce v)) @ le_num 8 (dec_val (ca_expiresAt v)) @
      le_num 4 (jint (ca_policyVersion v))"
    unfolding claim_preimage_def
    by (auto simp: Option.bind_eq_Some_conv claim_integer_def u64_Some u32_Some
        simp del: those.simps list.map split: if_splits)
  have "length ks = 5" using k by (auto split: option.splits)
  moreover have "int_in (ca_policyVersion v) 1 0xffffffff"
    using d by (cases "ca_policyVersion v") auto
  moreover have "0 < dec_val (ca_amount v)" using d(4) by (simp add: dec_val_def)
  ultimately show thesis using that [OF k] d p by (auto simp del: those.simps list.map)
qed

lemma decoded_keys_size:
  assumes "\<And>s k. dec s = Some k \<Longrightarrow> length k = n" and "those (map dec xs) = Some ks" and "k \<in> set ks"
  shows "length k = n"
proof -
  have "Some k \<in> set (map dec xs)" using assms(2,3) unfolding those_Some by simp
  with assms(1) show ?thesis by auto
qed

lemma decoded_keys_length:
  assumes "\<And>s k. dec s = Some k \<Longrightarrow> length k = n" and "those (map dec xs) = Some ks"
  shows "length (concat ks) = n * length ks"
proof -
  have "\<forall>k \<in> set ks. length k = n" using decoded_keys_size [OF assms] by simp
  then show ?thesis by (induction ks) auto
qed

lemma decoded_keys_inject:
  assumes "\<And>s k. dec s = Some k \<Longrightarrow> length k = n"
    and "those (map dec xs) = Some ks" and "those (map dec ys) = Some ls"
    and "concat ks = concat ls" and "length ks = length ls"
  shows "map dec xs = map dec ys"
proof -
  have "length x = length y" if "(x, y) \<in> set (zip ks ls)" for x y
    using decoded_keys_size [OF assms(1,2) set_zip_leftD [OF that]]
      decoded_keys_size [OF assms(1,3) set_zip_rightD [OF that]] by simp
  then have "ks = ls" using assms(4,5) by (intro concat_injective) auto
  with assms(2,3) show ?thesis unfolding those_Some by simp
qed

section \<open>Properties\<close>

text \<open>The reward split is defined exactly on u64 amounts and fee rates up to 100%, keeps every
  unit (fee and net add up to the gross, neither is negative), and rounds the fee down.\<close>

theorem splitReward_exact:
  "splitReward gross feeBps = Some r \<longleftrightarrow>
     0 \<le> gross \<and> gross \<le> 0xffffffffffffffff \<and> int_in feeBps 0 10000 \<and> rs_gross r = gross \<and>
     rs_fee r + rs_net r = gross \<and> 0 \<le> rs_fee r \<and> 0 \<le> rs_net r \<and>
     rs_fee r * 10000 \<le> gross * jint feeBps \<and> gross * jint feeBps < (rs_fee r + 1) * 10000"
proof
  assume "splitReward gross feeBps = Some r"
  then have g: "0 \<le> gross" "gross \<le> 0xffffffffffffffff" "int_in feeBps 0 10000"
    and r: "r = \<lparr>rs_gross = gross, rs_fee = gross * jint feeBps div 10000,
      rs_net = gross - gross * jint feeBps div 10000\<rparr>"
    by (auto simp: splitReward_def Let_def split: if_splits)
  from g have b: "0 \<le> jint feeBps" "jint feeBps \<le> 10000" by auto
  have "gross * jint feeBps \<le> gross * 10000" using g b by (simp add: mult_left_mono)
  then have "gross * jint feeBps div 10000 \<le> gross" by simp
  with g b r show "0 \<le> gross \<and> gross \<le> 0xffffffffffffffff \<and> int_in feeBps 0 10000 \<and> rs_gross r = gross \<and>
     rs_fee r + rs_net r = gross \<and> 0 \<le> rs_fee r \<and> 0 \<le> rs_net r \<and>
     rs_fee r * 10000 \<le> gross * jint feeBps \<and> gross * jint feeBps < (rs_fee r + 1) * 10000"
    using floor10000 [of "gross * jint feeBps"] by (simp add: pos_imp_zdiv_nonneg_iff)
next
  assume a: "0 \<le> gross \<and> gross \<le> 0xffffffffffffffff \<and> int_in feeBps 0 10000 \<and> rs_gross r = gross \<and>
     rs_fee r + rs_net r = gross \<and> 0 \<le> rs_fee r \<and> 0 \<le> rs_net r \<and>
     rs_fee r * 10000 \<le> gross * jint feeBps \<and> gross * jint feeBps < (rs_fee r + 1) * 10000"
  then have "rs_fee r = gross * jint feeBps div 10000" by (intro floor10000(3)) simp_all
  with a show "splitReward gross feeBps = Some r"
    by (cases r) (auto simp: splitReward_def Let_def)
qed

text \<open>Formatting loses nothing: a nonnegative amount is shown with exactly six decimals, and the
  text denotes the amount again.\<close>

theorem formatUSDC_value:
  "0 \<le> amount \<Longrightarrow> \<exists>w f. formatUSDC amount = Some (w @ ''.'' @ f) \<and> length f = 6 \<and> is_decimal w \<and>
     list_all is_digit f \<and> usdc_value (w @ ''.'' @ f) = amount"
proof -
  assume a: "0 \<le> amount"
  let ?w = "dec_str (amount div 1000000)" and ?f = "pad_zero 6 (dec_str (amount mod 1000000))"
  have "nat (amount mod 1000000) < 10 ^ 6" by simp
  from length_dec_str_nat_le [OF this] have f: "length ?f = 6" by (simp add: length_pad_zero dec_str_def)
  have "list_all is_digit ?f"
    using dec_str_nat_digits [of "nat (amount mod 1000000)"] digit_0
    by (auto simp: pad_zero_def dec_str_def list_all_iff)
  moreover have "usdc_value (?w @ ''.'' @ ?f) = amount"
    using a f by (simp add: usdc_value_def dec_val_pad)
  ultimately have "formatUSDC amount = Some (?w @ ''.'' @ ?f) \<and> length ?f = 6 \<and> is_decimal ?w \<and>
      list_all is_digit ?f \<and> usdc_value (?w @ ''.'' @ ?f) = amount" using a f by (simp add: formatUSDC_def)
  then show ?thesis by blast
qed

theorem formatUSDC_value_witness:
  "\<exists>w f. formatUSDC 1500000 = Some (w @ ''.'' @ f) \<and> usdc_value (w @ ''.'' @ f) = 1500000"
  using formatUSDC_value [of 1500000] by auto

text \<open>C34. The payout decoder accepts exactly the 176-byte layouts of accounts whose books balance
  (gross earnings are fees plus available plus withdrawn) and whose pseudonym is a canonical field
  element, and reads the account back.\<close>

theorem decodePayout_exact:
  assumes "\<And>x. length (ch_sha256 ch x) = 32"
  shows "decodePayout ch b = Some p \<longleftrightarrow> payout_ok p \<and> b = discriminator ch ''account'' ''Payout'' @ payout_bytes p"
  using decodePayout_sound decodePayout_complete length_discriminator [OF assms] by blast

definition sample_payout :: Payout where
  "sample_payout = \<lparr>po_protocol = zeros 32, po_pseudonym = zeros 32, po_mint = zeros 32,
     po_withdrawalKey = zeros 32, po_gross = 100, po_fees = 20, po_available = 50, po_withdrawn = 30, po_nonce = 3\<rparr>"

theorem decodePayout_exact_witness:
  "decodePayout sample_chain (discriminator sample_chain ''account'' ''Payout'' @ payout_bytes sample_payout) =
     Some sample_payout"
  unfolding decodePayout_exact [OF sample_chain_sha]
  by (simp add: payout_ok_def sample_payout_def u64_range_def BN254_MODULUS_def)

text \<open>C35. The claim preimage binds every field: two claims with the same preimage name the same five
  keys, amount, nonce, expiry and policy version.  The hypothesis is that Base58 decoding yields
  32-byte keys.\<close>

theorem claim_preimage_inject:
  assumes "\<And>s k. ch_ofBase58 ch s = Some k \<Longrightarrow> length k = 32"
    and "claim_preimage ch a = Some p" and "claim_preimage ch b = Some p"
  shows "map (ch_ofBase58 ch) [ca_program a, ca_payout a, ca_mint a, ca_withdrawalKey a, ca_destination a] =
      map (ch_ofBase58 ch) [ca_program b, ca_payout b, ca_mint b, ca_withdrawalKey b, ca_destination b] \<and>
    ca_amount a = ca_amount b \<and> ca_nonce a = ca_nonce b \<and> ca_expiresAt a = ca_expiresAt b \<and>
    ca_policyVersion a = ca_policyVersion b"
proof -
  have dec: "x = y" if "is_decimal x" "is_decimal y" "dec_val x = dec_val y" for x y
    using that dec_str_val by metis
  from assms(2) show ?thesis
  proof (rule claim_preimage_layout)
    fix ks
    let ?A = "[ca_program a, ca_payout a, ca_mint a, ca_withdrawalKey a, ca_destination a]"
    let ?B = "[ca_program b, ca_payout b, ca_mint b, ca_withdrawalKey b, ca_destination b]"
    assume a: "those (map (ch_ofBase58 ch) ?A) = Some ks" "length ks = 5"
      "is_decimal (ca_amount a)" "is_decimal (ca_nonce a)" "is_decimal (ca_expiresAt a)"
      "list_all u64_range [dec_val (ca_amount a), dec_val (ca_nonce a), dec_val (ca_expiresAt a)]"
      "int_in (ca_policyVersion a) 1 0xffffffff"
      "p = bytes_of_string ''Pathnod/claim/v0'' @ concat ks @ le_num 8 (dec_val (ca_amount a)) @
      le_num 8 (dec_val (ca_nonce a)) @ le_num 8 (dec_val (ca_expiresAt a)) @
      le_num 4 (jint (ca_policyVersion a))"
    from assms(3) show ?thesis
    proof (rule claim_preimage_layout)
      fix ls
      assume b: "those (map (ch_ofBase58 ch) ?B) = Some ls" "length ls = 5"
        "is_decimal (ca_amount b)" "is_decimal (ca_nonce b)" "is_decimal (ca_expiresAt b)"
        "list_all u64_range [dec_val (ca_amount b), dec_val (ca_nonce b), dec_val (ca_expiresAt b)]"
        "int_in (ca_policyVersion b) 1 0xffffffff"
        "p = bytes_of_string ''Pathnod/claim/v0'' @ concat ls @ le_num 8 (dec_val (ca_amount b)) @
        le_num 8 (dec_val (ca_nonce b)) @ le_num 8 (dec_val (ca_expiresAt b)) @
        le_num 4 (jint (ca_policyVersion b))"
      have "length (concat ks) = length (concat ls)" 
        using a(2) b(2) decoded_keys_length [OF assms(1) a(1)] decoded_keys_length [OF assms(1) b(1)] by simp
      with a(8) b(8) have e: "concat ks = concat ls"
          "le_num 8 (dec_val (ca_amount a)) = le_num 8 (dec_val (ca_amount b))"
          "le_num 8 (dec_val (ca_nonce a)) = le_num 8 (dec_val (ca_nonce b))"
          "le_num 8 (dec_val (ca_expiresAt a)) = le_num 8 (dec_val (ca_expiresAt b))"
          "le_num 4 (jint (ca_policyVersion a)) = le_num 4 (jint (ca_policyVersion b))"
        by simp_all
      have n: "dec_val x = dec_val y" if "u64_range (dec_val x)" "u64_range (dec_val y)"
          "le_num 8 (dec_val x) = le_num 8 (dec_val y)" for x y
        using that le.enc_inject [of "dec_val x" 8 "dec_val y"] by (simp add: u64_range_def)
      have "ca_policyVersion a = ca_policyVersion b" using e(5) a(7) b(7) by (auto intro: le_num_u32_inject)
      moreover have "map (ch_ofBase58 ch) ?A = map (ch_ofBase58 ch) ?B"
        using decoded_keys_inject [OF assms(1) a(1) b(1) e(1)] a(2) b(2) by simp
      ultimately show ?thesis using a b e n dec by auto
    qed
  qed
qed

definition sample_claim :: ClaimAuthorization where
  "sample_claim = (let k = hex_of_bytes (zeros 32) in \<lparr>ca_program = k, ca_payout = k, ca_mint = k,
     ca_withdrawalKey = k, ca_destination = k, ca_amount = ''5'', ca_nonce = ''0'', ca_expiresAt = ''9'',
     ca_policyVersion = JInt 1\<rparr>)"

definition strict_chain :: chain where
  "strict_chain = sample_chain\<lparr>ch_ofBase58 := \<lambda>s. if is_hex 64 s then Some (bytes_of_hex s) else None\<rparr>"

lemma strict_chain_keys: "ch_ofBase58 strict_chain s = Some k \<Longrightarrow> length k = 32"
  using hex_of_bytes_of_hex [of 32 s] by (auto simp: strict_chain_def split: if_splits)

lemma sample_claim_preimage:
  "claim_preimage strict_chain sample_claim \<noteq> None"
  "claim_preimage strict_chain (sample_claim\<lparr>ca_amount := ''6''\<rparr>) \<noteq> None"
proof -
  have h: "is_hex 64 (hex_of_bytes (zeros 32))" using is_hex_of_bytes [of "zeros 32"] by simp
  note eval = claim_preimage_def sample_claim_def Let_def claim_integer_def is_decimal_def is_digit_def
    dec_digits_def dec_val_def dec_value_def strict_chain_def u64_def u32_def
  show "claim_preimage strict_chain sample_claim \<noteq> None" using h by (simp add: eval)
  show "claim_preimage strict_chain (sample_claim\<lparr>ca_amount := ''6''\<rparr>) \<noteq> None" using h by (simp add: eval)
qed

theorem claim_preimage_inject_witness:
  "claim_preimage strict_chain sample_claim \<noteq> claim_preimage strict_chain (sample_claim\<lparr>ca_amount := ''6''\<rparr>)"
proof
  assume eq: "claim_preimage strict_chain sample_claim = claim_preimage strict_chain (sample_claim\<lparr>ca_amount := ''6''\<rparr>)"
  obtain p where p: "claim_preimage strict_chain sample_claim = Some p" using sample_claim_preimage by blast
  from claim_preimage_inject [OF strict_chain_keys p p [unfolded eq]] show False
    by (simp add: sample_claim_def Let_def)
qed

end
