(* ===== verification/Merkle.thy ===== *)
theory Merkle
  imports Main
begin

text \<open>
  Reference Merkle trees: the value of the node at a level and an index over a list of leaves
  padded with a zero leaf, its root, and the recomputation of a root from an authentication path.
  Both trees of the system (the observer tree of \<^verbatim>\<open>observer-enrollment.ts\<close>, Poseidon, depth 20,
  and the observation tree of \<^verbatim>\<open>observation.ts\<close>, SHA-256, depth 16) are measured against it.
\<close>

fun zero_at :: "('a \<Rightarrow> 'a \<Rightarrow> 'a) \<Rightarrow> 'a \<Rightarrow> nat \<Rightarrow> 'a" where
  "zero_at node z 0 = z"
| "zero_at node z (Suc l) = node (zero_at node z l) (zero_at node z l)"

definition leaf_at :: "'a \<Rightarrow> 'a list \<Rightarrow> nat \<Rightarrow> 'a" where
  "leaf_at z xs i = (if i < length xs then xs ! i else z)"

fun subtree :: "('a \<Rightarrow> 'a \<Rightarrow> 'a) \<Rightarrow> 'a \<Rightarrow> 'a list \<Rightarrow> nat \<Rightarrow> nat \<Rightarrow> 'a" where
  "subtree node z xs 0 i = leaf_at z xs i"
| "subtree node z xs (Suc l) i = node (subtree node z xs l (2 * i)) (subtree node z xs l (Suc (2 * i)))"

definition merkle_root :: "('a \<Rightarrow> 'a \<Rightarrow> 'a) \<Rightarrow> 'a \<Rightarrow> nat \<Rightarrow> 'a list \<Rightarrow> 'a" where
  "merkle_root node z depth xs = subtree node z xs depth 0"

text \<open>The neighbour at the same level, \<^verbatim>\<open>index ^ 1\<close>, and one step of a path check.\<close>

definition sibling :: "nat \<Rightarrow> nat" where
  "sibling i = (if even i then Suc i else i - 1)"

definition join_at :: "('a \<Rightarrow> 'a \<Rightarrow> 'a) \<Rightarrow> nat \<Rightarrow> 'a \<Rightarrow> 'a \<Rightarrow> 'a" where
  "join_at node i current other = (if even i then node current other else node other current)"

text \<open>What a holder of an authentication path computes: fold the siblings in, on the side the
  direction bit says.\<close>

fun path_root :: "('a \<Rightarrow> 'a \<Rightarrow> 'a) \<Rightarrow> 'a \<Rightarrow> 'a list \<Rightarrow> nat list \<Rightarrow> 'a" where
  "path_root node current (s # ss) (d # ds) =
     path_root node (if d = 0 then node current s else node s current) ss ds"
| "path_root node current _ _ = current"

section \<open>Locality\<close>

lemma subtree_beyond: "length xs \<le> i * 2 ^ l \<Longrightarrow> subtree node z xs l i = zero_at node z l"
proof (induction l arbitrary: i)
  case (Suc l)
  then have "length xs \<le> 2 * i * 2 ^ l" "length xs \<le> Suc (2 * i) * 2 ^ l"
    by (simp_all add: mult.commute mult.left_commute)
  with Suc.IH show ?case by simp
qed (simp add: leaf_at_def)

lemma div_pow_half: "k div 2 ^ Suc l = k div 2 ^ l div (2 :: nat)"
  by (simp only: power_Suc2 div_mult2_eq)

lemma subtree_append: "i \<noteq> length xs div 2 ^ l \<Longrightarrow> subtree node z (xs @ [x]) l i = subtree node z xs l i"
proof (induction l arbitrary: i)
  case 0
  then show ?case by (auto simp: leaf_at_def nth_append)
next
  case (Suc l)
  then have "2 * i \<noteq> length xs div 2 ^ l" "Suc (2 * i) \<noteq> length xs div 2 ^ l"
    unfolding div_pow_half by auto
  with Suc.IH show ?case by simp
qed

lemma sibling_neq [simp]: "sibling i \<noteq> i"
  by (auto simp: sibling_def) (metis Suc_pred even_Suc neq0_conv even_zero n_not_Suc_n)

lemma sibling_div [simp]: "sibling i div 2 = i div 2"
  by (auto simp: sibling_def elim!: oddE evenE)

lemma subtree_Suc_join:
  "subtree node z xs (Suc l) (i div 2) =
     join_at node i (subtree node z xs l i) (subtree node z xs l (sibling i))"
  by (cases "even i") (auto simp: join_at_def sibling_def elim!: evenE oddE)

lemma sibling_bound: "i < 2 * n \<Longrightarrow> sibling i < 2 * n"
  by (auto simp: sibling_def elim!: evenE)

section \<open>Authentication paths\<close>

text \<open>The siblings and direction bits on the way from a leaf to the root.\<close>

fun siblings_of :: "(nat \<Rightarrow> nat \<Rightarrow> 'a) \<Rightarrow> nat \<Rightarrow> nat \<Rightarrow> nat \<Rightarrow> 'a list" where
  "siblings_of lookup level 0 i = []"
| "siblings_of lookup level (Suc n) i = lookup level (sibling i) # siblings_of lookup (Suc level) n (i div 2)"

fun directions_of :: "nat \<Rightarrow> nat \<Rightarrow> nat list" where
  "directions_of 0 i = []"
| "directions_of (Suc n) i = i mod 2 # directions_of n (i div 2)"

lemma path_root_subtree:
  assumes "\<And>l j. level \<le> l \<Longrightarrow> l < level + n \<Longrightarrow> j < 2 ^ (level + n - l) \<Longrightarrow>
      lookup l j = subtree node z xs l j"
    and "i < 2 ^ n"
  shows "path_root node (subtree node z xs level i) (siblings_of lookup level n i) (directions_of n i) =
    subtree node z xs (level + n) 0"
  using assms
proof (induction n arbitrary: level i)
  case (Suc n)
  have s: "sibling i < 2 ^ Suc n" using Suc.prems(2) sibling_bound [of i "2 ^ n"] by simp
  with Suc.prems(1) [of level "sibling i"]
  have "lookup level (sibling i) = subtree node z xs level (sibling i)" by simp
  moreover have "path_root node (subtree node z xs (Suc level) (i div 2))
      (siblings_of lookup (Suc level) n (i div 2)) (directions_of n (i div 2)) =
      subtree node z xs (Suc level + n) 0"
    using Suc.prems by (intro Suc.IH) auto
  ultimately show ?case
    unfolding subtree_Suc_join by (simp add: join_at_def even_iff_mod_2_eq_zero)
qed simp

end
