(* ===== verification/Observation.thy ===== *)
theory Observation
  imports Payments Circuits Merkle
begin

text \<open>
  The observation client of \<^verbatim>\<open>packages/solana/src/observation.ts\<close>: addresses, the submission
  instruction, account decoders, the on-chain observation tree that keeps only a frontier, and the
  digest of a verification key; and the loop of \<^verbatim>\<open>confidence.ts\<close> that rebuilds the tree from the
  transcript order.  The frontier algorithm is proved against the reference tree of \<open>Merkle\<close>.
\<close>

definition OBSERVATION_COMMITMENT_SIZE :: nat where
  "OBSERVATION_COMMITMENT_SIZE = 214"

definition OBSERVATION_TREE_DEPTH :: nat where
  "OBSERVATION_TREE_DEPTH = 16"

section \<open>Addresses and instructions\<close>

record ObservationAddresses = RegistryAddresses +
  oa_commitment :: pubkey
  oa_verifierInfo :: pubkey
  oa_deviceAccount :: pubkey
  oa_deviceEpoch :: pubkey

definition observationAddresses ::
  "chain \<Rightarrow> pubkey \<Rightarrow> bytes \<Rightarrow> bytes \<Rightarrow> jsnum \<Rightarrow> bytes \<Rightarrow> ObservationAddresses option" where
  "observationAddresses ch program protocol device epoch nullifier = do {
     registry \<leftarrow> registryAddresses ch program protocol;
     n \<leftarrow> bytes32 nullifier; d \<leftarrow> ra_device registry device; e \<leftarrow> ra_epoch registry device epoch;
     Some (RegistryAddresses.extend registry (ObservationAddresses.fields
       (ch_pda ch [bytes_of_string ''obs'', n] program)
       (ch_pda ch [bytes_of_string ''observation-verifier''] program) d e)) }"

definition initializeObservationVerifier ::
  "chain \<Rightarrow> pubkey \<Rightarrow> pubkey \<Rightarrow> TransactionInstruction option" where
  "initializeObservationVerifier ch program authority = do {
     a \<leftarrow> observationAddresses ch program (zeros 32) (zeros 32) (JInt 0) (zeros 32);
     Some \<lparr>ti_programId = program,
       ti_keys = [meta (oa_verifierInfo a) True False, meta (ra_enrollment a) False False,
         meta authority True True, meta (ch_system ch) False False],
       ti_data = discriminator ch ''global'' ''initialize_observation_verifier''\<rparr> }"

text \<open>The checks on the 480-byte proof: seven canonical public inputs, an epoch that fits 32 bits and
  a class in 1..3.\<close>

definition proof_inputs_ok :: "bytes \<Rightarrow> bool" where
  "proof_inputs_ok proof =
     (list_all (\<lambda>offset. be_val (subarray offset (offset + 32) proof) < BN254_MODULUS)
        [256, 288, 320, 352, 384, 416, 448])"

definition proof_scope_ok :: "bytes \<Rightarrow> bool" where
  "proof_scope_ok proof = (all_zero (subarray 352 380 proof) \<and> all_zero (subarray 448 479 proof) \<and>
     proof ! 479 \<in> set [1, 2, 3])"

definition submitObservation ::
  "chain \<Rightarrow> pubkey \<Rightarrow> pubkey \<Rightarrow> bytes \<Rightarrow> bytes \<Rightarrow> bytes \<Rightarrow> bytes \<Rightarrow> bytes \<Rightarrow> pubkey \<Rightarrow>
     TransactionInstruction option" where
  "submitObservation ch program payer protocol device transcriptHash evidenceHash proof mint =
     (if length proof \<noteq> 480 then None
      else if \<not> proof_inputs_ok proof then None
      else if \<not> proof_scope_ok proof then None
      else do {
        a \<leftarrow> observationAddresses ch program protocol device (JInt (be_val (subarray 380 384 proof)))
          (subarray 384 416 proof);
        root \<leftarrow> ra_root a (subarray 256 288 proof);
        p \<leftarrow> paymentAddresses ch program protocol (subarray 416 448 proof);
        th \<leftarrow> bytes32 transcriptHash; eh \<leftarrow> bytes32 evidenceHash;
        Some \<lparr>ti_programId = program,
          ti_keys = [meta (ra_config a) False False, meta (oa_deviceAccount a) False False,
            meta (ra_enrollment a) False False, meta root False False, meta (oa_commitment a) True False,
            meta (oa_deviceEpoch a) True False, meta (ch_instructions ch) False False, meta payer True True,
            meta (ch_system ch) False False, meta (py_settings p) False False, meta mint False False,
            meta (ra_escrow a) True False, meta (py_payout p) True False, meta (py_vault p) True False,
            meta (py_feeVault p) True False, meta (ch_token ch) False False],
          ti_data = discriminator ch ''global'' ''submit_observation'' @ proof @ th @ eh\<rparr> })"

section \<open>Accounts\<close>

record ObservationVerifier =
  ov_keyDigest :: string
  ov_abiVersion :: int
  ov_publicInputs :: int

definition decodeObservationVerifier :: "chain \<Rightarrow> bytes \<Rightarrow> ObservationVerifier option" where
  "decodeObservationVerifier ch b =
     (if length b \<noteq> 42 \<or> subarray 0 8 b \<noteq> discriminator ch ''account'' ''ObservationVerifierInfo'' \<or>
         b ! 40 \<noteq> 2 \<or> b ! 41 \<noteq> 7 then None
      else Some \<lparr>ov_keyDigest = hex_of_bytes (subarray 8 40 b), ov_abiVersion = 2, ov_publicInputs = 7\<rparr>)"

record ObservationCommitment =
  oc_protocolID :: bytes
  oc_deviceID :: bytes
  oc_epoch :: int
  oc_nullifier :: bytes
  oc_pseudonym :: bytes
  oc_observerClass :: int
  oc_transcriptHash :: bytes
  oc_evidenceHash :: bytes
  oc_slotPaid :: bool
  oc_submittedAt :: int

text \<open>\<^verbatim>\<open>readBigInt64LE\<close>.\<close>

definition i64_val :: "bytes \<Rightarrow> int" where
  "i64_val b = (if le_val b \<ge> 2 ^ 63 then le_val b - 2 ^ 64 else le_val b)"

definition decodeObservationCommitment :: "chain \<Rightarrow> bytes \<Rightarrow> ObservationCommitment option" where
  "decodeObservationCommitment ch b =
     (if length b \<noteq> OBSERVATION_COMMITMENT_SIZE \<or>
         subarray 0 8 b \<noteq> discriminator ch ''account'' ''ObservationCommitment'' then None
      else let r = \<lparr>oc_protocolID = subarray 8 40 b, oc_deviceID = subarray 40 72 b,
               oc_epoch = le_val (subarray 72 76 b), oc_nullifier = subarray 76 108 b,
               oc_pseudonym = subarray 108 140 b, oc_observerClass = le_val (subarray 140 141 b),
               oc_transcriptHash = subarray 141 173 b, oc_evidenceHash = subarray 173 205 b,
               oc_slotPaid = (le_val (subarray 205 206 b) = 1), oc_submittedAt = i64_val (subarray 206 214 b)\<rparr>
           in if oc_observerClass r \<notin> {1, 2, 3} \<or> le_val (subarray 205 206 b) > 1 \<or> oc_submittedAt r \<le> 0 \<or>
                 list_ex (\<lambda>v. be_val v \<ge> BN254_MODULUS) [oc_nullifier r, oc_pseudonym r] then None
              else Some r)"

section \<open>The observation tree\<close>

definition observationTreeLeaf :: "hash \<Rightarrow> bytes \<Rightarrow> bytes option" where
  "observationTreeLeaf sha transcriptHash = do {
     h \<leftarrow> bytes32 transcriptHash; Some (sha (bytes_of_string ''Pathnod/observation-leaf/v0'' @ h)) }"

definition observationTreeNode :: "hash \<Rightarrow> bytes \<Rightarrow> bytes \<Rightarrow> bytes option" where
  "observationTreeNode sha left right = do {
     l \<leftarrow> bytes32 left; r \<leftarrow> bytes32 right;
     Some (sha (bytes_of_string ''Pathnod/observation-node/v0'' @ l @ r)) }"

record ObservationTree =
  tr_frontier :: "bytes list"
  tr_root :: bytes
  tr_count :: int

text \<open>The loop over the levels, its variables \<^verbatim>\<open>next\<close>, \<^verbatim>\<open>node\<close>, \<^verbatim>\<open>zero\<close> threaded through.\<close>

fun append_levels :: "hash \<Rightarrow> int \<Rightarrow> nat list \<Rightarrow> bytes list \<Rightarrow> bytes \<Rightarrow> bytes \<Rightarrow> (bytes list \<times> bytes) option" where
  "append_levels sha count [] next node zero = Some (next, node)"
| "append_levels sha count (level # levels) next node zero = do {
     (next', node') \<leftarrow> (if count AND push_bit level 1 = 0
        then do { m \<leftarrow> observationTreeNode sha node zero; Some (next[level := node], m) }
        else do { m \<leftarrow> observationTreeNode sha (next ! level) node; Some (next, m) });
     zero' \<leftarrow> observationTreeNode sha zero zero;
     append_levels sha count levels next' node' zero' }"

definition appendObservationTree :: "hash \<Rightarrow> bytes list \<Rightarrow> jsnum \<Rightarrow> bytes \<Rightarrow> ObservationTree option" where
  "appendObservationTree sha frontier count transcriptHash =
     (if length frontier \<noteq> 16 \<or> \<not> int_in count 0 65534 then None
      else do {
        next \<leftarrow> those (map bytes32 frontier);
        node \<leftarrow> observationTreeLeaf sha transcriptHash;
        (next, node) \<leftarrow> append_levels sha (jint count) [0..<OBSERVATION_TREE_DEPTH] next node
          (sha (bytes_of_string ''Pathnod/observation-empty/v0''));
        Some \<lparr>tr_frontier = next, tr_root = node, tr_count = jint count + 1\<rparr> })"

text \<open>The rebuilding loop of \<^verbatim>\<open>evaluateConfidence\<close>.\<close>

fun append_all :: "hash \<Rightarrow> string list \<Rightarrow> ObservationTree \<Rightarrow> ObservationTree option" where
  "append_all sha [] t = Some t"
| "append_all sha (h # hs) t =
     (if \<not> is_hex 64 h then None
      else do {
        t' \<leftarrow> appendObservationTree sha (tr_frontier t) (JInt (tr_count t)) (bytes_of_hex h);
        append_all sha hs t' })"

definition empty_tree :: ObservationTree where
  "empty_tree = \<lparr>tr_frontier = replicate 16 (zeros 32), tr_root = zeros 32, tr_count = 0\<rparr>"

section \<open>Key digest\<close>

definition vk_scalar :: "jsval \<Rightarrow> bytes option" where
  "vk_scalar v =
     (case v of JStr s \<Rightarrow>
        if length s > 77 \<or> \<not> is_decimal s \<or> dec_val s \<ge> BN254_BASE_FIELD then None
        else Some (be_num 32 (dec_val s))
      | _ \<Rightarrow> None)"

definition vk_g1 :: "jsval \<Rightarrow> bytes option" where
  "vk_g1 v = do {
     p \<leftarrow> js_array v 3;
     if p ! 2 \<noteq> JStr ''1'' then None
     else do { x \<leftarrow> vk_scalar (p ! 0); y \<leftarrow> vk_scalar (p ! 1); Some (x @ y) } }"

definition vk_g2 :: "jsval \<Rightarrow> bytes option" where
  "vk_g2 v = do {
     p \<leftarrow> js_array v 3;
     if p ! 2 \<noteq> JArr [JStr ''1'', JStr ''0''] then None
     else do {
       x \<leftarrow> js_array (p ! 0) 2; y \<leftarrow> js_array (p ! 1) 2;
       x1 \<leftarrow> vk_scalar (x ! 1); x0 \<leftarrow> vk_scalar (x ! 0); y1 \<leftarrow> vk_scalar (y ! 1); y0 \<leftarrow> vk_scalar (y ! 0);
       Some (x1 @ x0 @ y1 @ y0) } }"

definition verificationKeyDigest :: "hash \<Rightarrow> jsval \<Rightarrow> string option" where
  "verificationKeyDigest sha key =
     (if js_get key ''protocol'' \<noteq> JStr ''groth16'' \<or> js_get key ''curve'' \<noteq> JStr ''bn128'' \<or>
         js_get key ''nPublic'' \<noteq> JNum (JInt 7) then None
      else do {
        a \<leftarrow> vk_g1 (js_get key ''vk_alpha_1''); b \<leftarrow> vk_g2 (js_get key ''vk_beta_2'');
        g \<leftarrow> vk_g2 (js_get key ''vk_gamma_2''); d \<leftarrow> vk_g2 (js_get key ''vk_delta_2'');
        ic \<leftarrow> js_array (js_get key ''IC'') 8;
        ps \<leftarrow> those (map vk_g1 ic);
        Some (hex_of_bytes (sha (bytes_of_string ''Pathnod/groth16-key/v0'' @ a @ b @ g @ d @ concat ps))) })"

section \<open>The frontier represents the tree\<close>

definition obs_node :: "hash \<Rightarrow> bytes \<Rightarrow> bytes \<Rightarrow> bytes" where
  "obs_node sha l r = sha (bytes_of_string ''Pathnod/observation-node/v0'' @ l @ r)"

definition obs_leaf :: "hash \<Rightarrow> bytes \<Rightarrow> bytes" where
  "obs_leaf sha h = sha (bytes_of_string ''Pathnod/observation-leaf/v0'' @ h)"

definition obs_zero :: "hash \<Rightarrow> bytes" where
  "obs_zero sha = sha (bytes_of_string ''Pathnod/observation-empty/v0'')"

abbreviation obs_subtree :: "hash \<Rightarrow> bytes list \<Rightarrow> nat \<Rightarrow> nat \<Rightarrow> bytes" where
  "obs_subtree sha leaves \<equiv> subtree (obs_node sha) (obs_zero sha) leaves"

definition frontier_represents :: "hash \<Rightarrow> bytes list \<Rightarrow> bytes list \<Rightarrow> bool" where
  "frontier_represents sha leaves f = (length f = 16 \<and> list_all (\<lambda>b. length b = 32) f \<and>
     (\<forall>l < 16. odd (length leaves div 2 ^ l) \<longrightarrow>
        f ! l = obs_subtree sha leaves l (length leaves div 2 ^ l - 1)))"

lemma bytes32_Some [simp]: "length b = 32 \<Longrightarrow> bytes32 b = Some b"
  by (simp add: bytes32_def)

lemma observationTreeNode_eq:
  "length l = 32 \<Longrightarrow> length r = 32 \<Longrightarrow> observationTreeNode sha l r = Some (obs_node sha l r)"
  by (simp add: observationTreeNode_def obs_node_def)

lemma length_subtree:
  "(\<And>x. length (sha x) = 32) \<Longrightarrow> list_all (\<lambda>b. length b = 32) leaves \<Longrightarrow>
     length (obs_subtree sha leaves l i) = 32"
  by (cases l) (auto simp: leaf_at_def obs_zero_def obs_node_def list_all_length)

lemma length_zero_at:
  "(\<And>x. length (sha x) = 32) \<Longrightarrow> length (zero_at (obs_node sha) (obs_zero sha) l) = 32"
  by (cases l) (auto simp: obs_zero_def obs_node_def)

lemma bit_test: "int n AND 2 ^ l = 0 \<longleftrightarrow> even (n div 2 ^ l)"
  by (simp add: and_exp_eq_0_iff_not_bit bit_of_nat_iff_bit bit_iff_odd [of n])

lemma odd_pred_neq: "odd k \<Longrightarrow> k - Suc 0 \<noteq> k"
  by (cases k) auto

text \<open>The subtree to the right of the one the new leaf falls into is empty.\<close>

lemma subtree_right_empty:
  "obs_subtree sha (leaves @ [x]) l (Suc (length leaves div 2 ^ l)) = zero_at (obs_node sha) (obs_zero sha) l"
proof (rule subtree_beyond)
  have "length leaves < Suc (length leaves div 2 ^ l) * 2 ^ l"
    using dividend_less_div_times [of "2 ^ l" "length leaves"] by simp
  then show "length (leaves @ [x]) \<le> Suc (length leaves div 2 ^ l) * 2 ^ l" by simp
qed

text \<open>One level of the loop computes the parent of the current node in the extended tree.\<close>

lemma level_even:
  "even (length leaves div 2 ^ l) \<Longrightarrow>
     obs_node sha (obs_subtree sha (leaves @ [x]) l (length leaves div 2 ^ l)) (zero_at (obs_node sha) (obs_zero sha) l) =
     obs_subtree sha (leaves @ [x]) (Suc l) (length leaves div 2 ^ Suc l)"
  unfolding div_pow_half subtree_Suc_join
  by (simp add: join_at_def sibling_def subtree_right_empty)

lemma level_odd:
  "odd (length leaves div 2 ^ l) \<Longrightarrow>
     obs_node sha (obs_subtree sha leaves l (length leaves div 2 ^ l - 1))
       (obs_subtree sha (leaves @ [x]) l (length leaves div 2 ^ l)) =
     obs_subtree sha (leaves @ [x]) (Suc l) (length leaves div 2 ^ Suc l)"
  unfolding div_pow_half subtree_Suc_join
  by (simp add: join_at_def sibling_def subtree_append odd_pred_neq)

text \<open>What the loop leaves in the frontier at a level.\<close>

definition level_value :: "hash \<Rightarrow> bytes list \<Rightarrow> bytes \<Rightarrow> bytes list \<Rightarrow> nat \<Rightarrow> bytes" where
  "level_value sha leaves x f l =
     (if even (length leaves div 2 ^ l) then obs_subtree sha (leaves @ [x]) l (length leaves div 2 ^ l) else f ! l)"

lemma append_levels_correct:
  assumes sha: "\<And>x. length (sha x) = 32" and leaves: "list_all (\<lambda>b. length b = 32) (leaves @ [x])"
    and rep: "frontier_represents sha leaves f"
    and nx: "length next = 16" "\<forall>l. level \<le> l \<and> l < 16 \<longrightarrow> next ! l = f ! l" and lv: "level + n = 16"
  shows "append_levels sha (int (length leaves)) [level..<16] next
      (obs_subtree sha (leaves @ [x]) level (length leaves div 2 ^ level)) (zero_at (obs_node sha) (obs_zero sha) level) =
    Some (map (\<lambda>l. if l < level then next ! l else level_value sha leaves x f l) [0..<16],
      obs_subtree sha (leaves @ [x]) 16 (length leaves div 2 ^ 16))"
  using nx lv
proof (induction n arbitrary: level "next")
  case 0
  have "map (\<lambda>l. if l < 16 then next ! l else level_value sha leaves x f l) [0..<16] = next"
    using 0 by (intro nth_equalityI) auto
  with 0 show ?case by simp
next
  case (Suc n)
  let ?k = "length leaves div 2 ^ level"
  let ?node = "obs_subtree sha (leaves @ [x]) level ?k"
  let ?up = "obs_subtree sha (leaves @ [x]) (Suc level) (length leaves div 2 ^ Suc level)"
  let ?zero = "zero_at (obs_node sha) (obs_zero sha) level"
  define next' where "next' = (if even ?k then next[level := ?node] else next)"
  have lens: "length ?node = 32" "length ?zero = 32" using length_subtree [OF sha leaves] length_zero_at [OF sha] by auto
  have upt: "[level..<16] = level # [Suc level..<16]" using Suc.prems by (simp add: upt_conv_Cons)
  have step: "append_levels sha (int (length leaves)) [level..<16] next ?node ?zero =
      append_levels sha (int (length leaves)) [Suc level..<16] next' ?up (zero_at (obs_node sha) (obs_zero sha) (Suc level))"
  proof (cases "even ?k")
    case True
    then show ?thesis unfolding upt next'_def using lens level_even [OF True, of sha x]
      by (simp add: bit_test observationTreeNode_eq del: subtree.simps)
  next
    case False
    have "level < 16" and fl: "next ! level = f ! level" using Suc.prems by auto
    then have f: "f ! level = obs_subtree sha leaves level (?k - 1)" and "length (f ! level) = 32"
      using rep False by (simp_all only: frontier_represents_def list_all_length) blast+
    show ?thesis unfolding upt next'_def using lens fl f \<open>length (f ! level) = 32\<close> level_odd [OF False, of sha x] False
      by (simp add: bit_test observationTreeNode_eq del: subtree.simps)
  qed
  have "length next' = 16" "\<forall>l. Suc level \<le> l \<and> l < 16 \<longrightarrow> next' ! l = f ! l"
    using Suc.prems by (auto simp: next'_def)
  from Suc.IH [OF this] Suc.prems step have "append_levels sha (int (length leaves)) [level..<16] next ?node ?zero =
      Some (map (\<lambda>l. if l < Suc level then next' ! l else level_value sha leaves x f l) [0..<16],
        obs_subtree sha (leaves @ [x]) 16 (length leaves div 2 ^ 16))" by simp
  moreover have "(if l < Suc level then next' ! l else level_value sha leaves x f l) =
      (if l < level then next ! l else level_value sha leaves x f l)" if "l < 16" for l
    using that Suc.prems by (auto simp: next'_def level_value_def less_Suc_eq)
  ultimately show ?case by (simp cong: map_cong)
qed

lemma frontier_represents_append:
  assumes sha: "\<And>x. length (sha x) = 32" and leaves: "list_all (\<lambda>b. length b = 32) (leaves @ [x])"
    and rep: "frontier_represents sha leaves f"
  shows "frontier_represents sha (leaves @ [x]) (map (level_value sha leaves x f) [0..<16])"
proof -
  have "level_value sha leaves x f l = obs_subtree sha (leaves @ [x]) l (Suc (length leaves) div 2 ^ l - 1)"
    if l: "l < 16" "odd (Suc (length leaves) div 2 ^ l)" for l
  proof (cases "even (length leaves div 2 ^ l)")
    case True
    then have "Suc (length leaves) div 2 ^ l = Suc (length leaves div 2 ^ l)"
      using l by (metis div_Suc)
    with True show ?thesis by (simp add: level_value_def)
  next
    case False
    then have same: "Suc (length leaves) div 2 ^ l = length leaves div 2 ^ l"
      using l by (metis div_Suc even_Suc)
    with False same rep l show ?thesis
      by (simp add: level_value_def frontier_represents_def subtree_append odd_pred_neq)
  qed
  moreover have "length (level_value sha leaves x f l) = 32" if "l < 16" for l
    using that rep length_subtree [OF sha leaves]
    by (auto simp: level_value_def frontier_represents_def list_all_length)
  ultimately show ?thesis by (auto simp: frontier_represents_def list_all_length)
qed

lemma appendObservationTree_correct:
  assumes sha: "\<And>x. length (sha x) = 32" and leaves: "list_all (\<lambda>b. length b = 32) leaves"
    and rep: "frontier_represents sha leaves f" and n: "length leaves < 65535" and h: "length h = 32"
  shows "appendObservationTree sha f (JInt (int (length leaves))) h =
    Some \<lparr>tr_frontier = map (level_value sha leaves (obs_leaf sha h) f) [0..<16],
      tr_root = merkle_root (obs_node sha) (obs_zero sha) 16 (leaves @ [obs_leaf sha h]),
      tr_count = int (length leaves) + 1\<rparr>"
proof -
  have f: "those (map bytes32 f) = Some f" using rep
    unfolding those_Some by (auto simp: frontier_represents_def list_all_iff)
  have l: "observationTreeLeaf sha h = Some (obs_leaf sha h)" using h by (simp add: observationTreeLeaf_def obs_leaf_def)
  have "list_all (\<lambda>b. length b = 32) (leaves @ [obs_leaf sha h])" using leaves sha by (simp add: obs_leaf_def)
  from append_levels_correct [OF sha this rep, of f 0 16]
  have "append_levels sha (int (length leaves)) [0..<16] f (obs_leaf sha h) (obs_zero sha) =
      Some (map (level_value sha leaves (obs_leaf sha h) f) [0..<16],
        merkle_root (obs_node sha) (obs_zero sha) 16 (leaves @ [obs_leaf sha h]))"
    using rep n by (simp add: frontier_represents_def leaf_at_def merkle_root_def)
  with f l n rep show ?thesis
    by (simp add: appendObservationTree_def OBSERVATION_TREE_DEPTH_def obs_zero_def frontier_represents_def)
qed

lemma append_all_correct:
  assumes sha: "\<And>x. length (sha x) = 32" and hs: "list_all (is_hex 64) hs"
    and rep: "frontier_represents sha leaves (tr_frontier t)" and cnt: "tr_count t = int (length leaves)"
    and leaves: "list_all (\<lambda>b. length b = 32) leaves" and n: "length leaves + length hs \<le> 65535"
    and root: "leaves \<noteq> [] \<Longrightarrow> tr_root t = merkle_root (obs_node sha) (obs_zero sha) 16 leaves"
    and ne: "leaves @ map (\<lambda>h. obs_leaf sha (bytes_of_hex h)) hs \<noteq> []"
  shows "\<exists>t'. append_all sha hs t = Some t' \<and> tr_count t' = int (length leaves + length hs) \<and>
    tr_root t' = merkle_root (obs_node sha) (obs_zero sha) 16 (leaves @ map (\<lambda>h. obs_leaf sha (bytes_of_hex h)) hs)"
  using assms(2-)
proof (induction hs arbitrary: leaves t)
  case (Cons h hs)
  let ?x = "obs_leaf sha (bytes_of_hex h)"
  have h: "length (bytes_of_hex h) = 32" using Cons.prems hex_of_bytes_of_hex [of 32 h] by simp
  have x: "list_all (\<lambda>b. length b = 32) (leaves @ [?x])" using Cons.prems sha by (simp add: obs_leaf_def)
  obtain t' where t': "appendObservationTree sha (tr_frontier t) (JInt (tr_count t)) (bytes_of_hex h) = Some t'"
    "frontier_represents sha (leaves @ [?x]) (tr_frontier t')" "tr_count t' = int (length (leaves @ [?x]))"
    "tr_root t' = merkle_root (obs_node sha) (obs_zero sha) 16 (leaves @ [?x])"
    using appendObservationTree_correct [OF sha Cons.prems(4,2) _ h] Cons.prems
      frontier_represents_append [OF sha x Cons.prems(2)] by auto
  from Cons.IH [OF _ t'(2,3) x _ t'(4)] Cons.prems t' show ?case by simp
qed auto

lemma vk_scalar_eq: "vk_scalar v = map_option (be_num 32) (coordinate v)"
  by (auto simp: vk_scalar_def coordinate_def split: jsval.splits)

lemma vk_g1_eq: "vk_g1 v = g1 v False"
  by (rule option_eq_iffI) (auto simp: vk_g1_def g1_def vk_scalar_eq Option.bind_eq_Some_conv split: if_splits)

lemma vk_g2_eq: "vk_g2 v = g2 v"
  by (rule option_eq_iffI, unfold g2_Some vk_g2_def vk_scalar_eq)
    (fastforce simp: Option.bind_eq_Some_conv js_array_Some numeral_3_eq_3 length_Suc_conv split: if_splits option.splits)

lemma g1_length: "g1 v negate = Some b \<Longrightarrow> length b = 64"
  by (auto simp: g1_def Option.bind_eq_Some_conv split: if_splits)

lemma g2_length: "g2 v = Some b \<Longrightarrow> length b = 128"
  unfolding g2_Some by (auto split: option.splits)

lemma convertProof_layout:
  assumes "convertProof proof inputs = Some b"
  obtains h xs ns where "b = h @ concat (map (be_num 32) ns)" "length h = 256" "inputs = JArr xs"
    "length ns = 7" "those (map parseCanonicalFieldElement xs) = Some ns"
proof -
  from assms obtain xs ns a b2 c where x: "js_array inputs 7 = Some xs"
      "those (map parseCanonicalFieldElement xs) = Some ns"
    and p: "g1 (js_get proof ''pi_a'') True = Some a" "g2 (js_get proof ''pi_b'') = Some b2"
      "g1 (js_get proof ''pi_c'') False = Some c" "b = a @ b2 @ c @ concat (map (be_num 32) ns)"
    unfolding convertProof_def groth16_eq public_inputs_eq
    by (auto simp: Option.bind_eq_Some_conv split: if_splits)
  have "length ns = 7" using x unfolding those_Some js_array_Some by (metis length_map)
  with x p that [of "a @ b2 @ c" ns xs] show thesis
    using g1_length [OF p(1)] g2_length [OF p(2)] g1_length [OF p(3)] unfolding js_array_Some by simp
qed

section \<open>Properties\<close>

text \<open>C20. The frontier computes the tree: rebuilding from any nonempty order of at most 65535
  well-formed transcript hashes succeeds, counts every leaf, and ends in the root of the complete
  depth-16 Merkle tree over the hashed transcripts in that order, though only sixteen nodes are kept.\<close>

theorem append_all_computes_root:
  assumes "\<And>x. length (sha x) = 32" and "list_all (is_hex 64) hs" and "hs \<noteq> []" and "length hs \<le> 65535"
  shows "\<exists>t. append_all sha hs empty_tree = Some t \<and> tr_count t = int (length hs) \<and>
    tr_root t = merkle_root (obs_node sha) (obs_zero sha) 16 (map (\<lambda>h. obs_leaf sha (bytes_of_hex h)) hs)"
proof -
  have "frontier_represents sha [] (tr_frontier empty_tree)"
    by (simp add: frontier_represents_def empty_tree_def list_all_iff)
  from append_all_correct [OF assms(1,2) this] assms(3,4) show ?thesis by (simp add: empty_tree_def)
qed

theorem append_all_computes_root_witness:
  "\<exists>t. append_all (ch_sha256 sample_chain) [hex_of_bytes (zeros 32), hex_of_bytes (replicate 32 1)] empty_tree = Some t \<and>
     tr_count t = 2"
proof -
  have "is_hex 64 (hex_of_bytes (zeros 32))" "is_hex 64 (hex_of_bytes (replicate 32 1))"
    using is_hex_of_bytes [of "zeros 32"] is_hex_of_bytes [of "replicate 32 1"] by simp_all
  with append_all_computes_root [of "ch_sha256 sample_chain" "[hex_of_bytes (zeros 32), hex_of_bytes (replicate 32 1)]"]
    sample_chain_sha show ?thesis by auto
qed

text \<open>The key digest the client compares with the chain is the hash of the very bytes the circuit
  package converts the key to: both accept the same verification keys.\<close>

theorem verificationKeyDigest_eq:
  "verificationKeyDigest sha key =
     map_option (\<lambda>b. hex_of_bytes (sha (bytes_of_string ''Pathnod/groth16-key/v0'' @ b))) (convertVerificationKey key)"
  by (rule option_eq_iffI, unfold verificationKeyDigest_def convertVerificationKey_def groth16_eq vk_g1_eq vk_g2_eq)
    (auto simp: Option.bind_eq_Some_conv split: if_splits)

text \<open>A converted proof always passes the size and public-input checks of the submission: it has
  480 bytes, and the seven slots hold the public inputs, canonical and in order.\<close>

theorem converted_proof_inputs:
  assumes "convertProof proof inputs = Some b"
  shows "length b = 480 \<and> proof_inputs_ok b \<and>
    (\<exists>xs ns. inputs = JArr xs \<and> those (map parseCanonicalFieldElement xs) = Some ns \<and>
      map (\<lambda>offset. be_val (subarray offset (offset + 32) b)) [256, 288, 320, 352, 384, 416, 448] = ns)"
proof -
  from assms obtain h xs ns where b: "b = h @ concat (map (be_num 32) ns)" "length h = 256" "inputs = JArr xs"
    "length ns = 7" "those (map parseCanonicalFieldElement xs) = Some ns" by (rule convertProof_layout)
  have r: "0 \<le> n \<and> n < BN254_MODULUS" if "n \<in> set ns" for n
  proof -
    have "Some n \<in> set (map parseCanonicalFieldElement xs)" using b(5) that unfolding those_Some by simp
    then obtain v where "parseCanonicalFieldElement v = Some n" by auto
    then show ?thesis by (simp add: parseCanonical_Some)
  qed
  then have id: "be_val (be_num 32 n) = n" if "n \<in> set ns" for n
    using r [OF that] modulus_bounds(2) by (intro be_val_be_num) linarith+
  obtain n0 n1 n2 n3 n4 n5 n6 where ns: "ns = [n0, n1, n2, n3, n4, n5, n6]"
    using b(4) by (auto simp: length_Suc_conv eval_nat_numeral)
  have slots: "map (\<lambda>offset. be_val (subarray offset (offset + 32) b)) [256, 288, 320, 352, 384, 416, 448] = ns"
    using id b(2) unfolding b(1) ns by (simp add: offset_simps)
  with r have "proof_inputs_ok b" unfolding proof_inputs_ok_def ns by (auto simp: ns)
  with slots b show ?thesis by (auto simp: ns)
qed

definition sample_proof :: jsval where
  "sample_proof = (let g = JArr [JStr ''1'', JStr ''2'', JStr ''1''];
       h = JArr [JArr [JStr ''1'', JStr ''2''], JArr [JStr ''3'', JStr ''4''], JArr [JStr ''1'', JStr ''0'']]
     in JObj [(''protocol'', JStr ''groth16''), (''curve'', JStr ''bn128''), (''pi_a'', g), (''pi_b'', h), (''pi_c'', g)])"

theorem converted_proof_inputs_witness:
  "\<exists>b. convertProof sample_proof (JArr (replicate 7 (JStr ''5''))) = Some b \<and> length b = 480 \<and> proof_inputs_ok b"
proof -
  have f: "parseCanonicalFieldElement (JStr ''5'') = Some 5"
    by (simp add: parseCanonicalFieldElement_def MAX_FIELD_DECIMAL_DIGITS_77 is_decimal_def is_digit_def dec_digits_def
        dec_val_def dec_value_def BN254_MODULUS_def)
  have "convertProof sample_proof (JArr (replicate 7 (JStr ''5''))) \<noteq> None"
    by (simp add: convertProof_def sample_proof_def Let_def groth16_def g1_def g2_def coordinate_def is_decimal_def
        is_digit_def dec_digits_def dec_val_def dec_value_def BN254_BASE_FIELD_def publicInput_eq f eval_nat_numeral)
  then obtain b where "convertProof sample_proof (JArr (replicate 7 (JStr ''5''))) = Some b" by blast
  with converted_proof_inputs [OF this] show ?thesis by blast
qed

end
