(* ===== verification/Confidence_Auth.thy ===== *)
theory Confidence_Auth
  imports Authorization
begin

text \<open>
  The confidence publication client of \<^verbatim>\<open>packages/solana/src/confidence.ts\<close>: the fixed-width
  encoding of a confidence authorization, its digest and the publication instruction.
\<close>

record ConfidenceAuthorization =
  cf_epoch :: jsnum
  cf_observationRoot :: string
  cf_observerCount :: jsnum
  cf_previousCommitment :: string
  cf_commitment :: string
  cf_policyVersion :: jsnum
  cf_evaluatedAtMilliseconds :: int

text \<open>\<^verbatim>\<open>uint\<close> on a \<^verbatim>\<open>bigint\<close>, and on a \<^verbatim>\<open>number\<close>, which must be a safe integer first.\<close>

definition uint_big :: "int \<Rightarrow> nat \<Rightarrow> bytes option" where
  "uint_big n width = (if n < 0 \<or> n \<ge> 2 ^ (width * 8) then None else Some (le_num width n))"

definition uint_num :: "jsnum \<Rightarrow> nat \<Rightarrow> bytes option" where
  "uint_num v width = (if \<not> int_in v (1 - 2 ^ 53) (2 ^ 53 - 1) then None else uint_big (jint v) width)"

text \<open>The module's \<^verbatim>\<open>hex\<close> is \<open>hex32\<close>.\<close>

definition confidenceAuthorizationBytes :: "ConfidenceAuthorization \<Rightarrow> bytes option" where
  "confidenceAuthorizationBytes args = do {
     e \<leftarrow> uint_num (cf_epoch args) 4; r \<leftarrow> hex32 (cf_observationRoot args);
     n \<leftarrow> uint_num (cf_observerCount args) 2; p \<leftarrow> hex32 (cf_previousCommitment args);
     c \<leftarrow> hex32 (cf_commitment args); v \<leftarrow> uint_num (cf_policyVersion args) 4;
     t \<leftarrow> uint_big (cf_evaluatedAtMilliseconds args) 8;
     Some (e @ r @ n @ p @ c @ v @ t) }"

definition confidenceAuthorizationDigest ::
  "hash \<Rightarrow> pubkey \<Rightarrow> bytes \<Rightarrow> bytes \<Rightarrow> ConfidenceAuthorization \<Rightarrow> bytes option" where
  "confidenceAuthorizationDigest sha program protocol device args =
     (if length protocol \<noteq> 32 \<or> length device \<noteq> 32 then None
      else map_option (\<lambda>b. sha (bytes_of_string ''Pathnod/confidence-authorization/v0'' @ program @ protocol @ device @ b))
        (confidenceAuthorizationBytes args))"

definition publishConfidence ::
  "chain \<Rightarrow> pubkey \<Rightarrow> bytes \<Rightarrow> bytes \<Rightarrow> ConfidenceAuthorization \<Rightarrow> TransactionInstruction option" where
  "publishConfidence ch program protocol device args =
     (if length protocol \<noteq> 32 \<or> length device \<noteq> 32 then None
      else do {
        b \<leftarrow> confidenceAuthorizationBytes args; e \<leftarrow> uint_num (cf_epoch args) 4;
        let pda = (\<lambda>seeds. ch_pda ch seeds program);
        Some \<lparr>ti_programId = program,
          ti_keys = [meta (pda [bytes_of_string ''protocol'', protocol]) False False,
            meta (pda [bytes_of_string ''device'', protocol, device]) False False,
            meta (pda [bytes_of_string ''epoch'', protocol, device, e]) True False,
            meta (ch_instructions ch) False False],
          ti_data = discriminator ch ''global'' ''publish_confidence'' @ b\<rparr> })"

section \<open>Lemmas\<close>

lemma uint_big_Some:
  "uint_big n width = Some b \<longleftrightarrow> 0 \<le> n \<and> n < 2 ^ (width * 8) \<and> b = le_num width n"
  by (auto simp: uint_big_def)

lemma uint_num_Some:
  "uint_num v width = Some b \<longleftrightarrow>
     (\<exists>i. v = JInt i \<and> 0 \<le> i \<and> i < 2 ^ (width * 8) \<and> i < 2 ^ 53 \<and> b = le_num width i)"
  by (cases v) (auto simp: uint_num_def uint_big_Some)

lemma uint_pow: "(2 :: int) ^ (width * 8) = 256 ^ width"
  by (simp add: power_mult mult.commute [of width])

section \<open>Properties\<close>

text \<open>A confidence authorization is encoded in exactly 114 bytes and the encoding is injective:
  equal bytes come from equal authorizations.\<close>

theorem confidenceAuthorizationBytes_inject:
  assumes "confidenceAuthorizationBytes a = Some x" and "confidenceAuthorizationBytes b = Some y"
  shows "length x = 114 \<and> (x = y \<longleftrightarrow> a = b)"
proof -
  have inj: "i = j" if "0 \<le> i" "i < 2 ^ (n * 8)" "0 \<le> j" "j < 2 ^ (n * 8)" "le_num n i = le_num n j" for i j :: int and n
    using that le.enc_inject [of i n j] by (simp add: uint_pow)
  from assms obtain e r n p c v t e' r' n' p' c' v' t' where
    a: "cf_epoch a = JInt e" "cf_observationRoot a = hex_of_bytes r" "cf_observerCount a = JInt n"
      "cf_previousCommitment a = hex_of_bytes p" "cf_commitment a = hex_of_bytes c" "cf_policyVersion a = JInt v"
      "cf_evaluatedAtMilliseconds a = t" "length r = 32" "length p = 32" "length c = 32"
      "0 \<le> e" "e < 2 ^ (4 * 8)" "0 \<le> n" "n < 2 ^ (2 * 8)" "0 \<le> v" "v < 2 ^ (4 * 8)" "0 \<le> t" "t < 2 ^ (8 * 8)"
      "x = le_num 4 e @ r @ le_num 2 n @ p @ c @ le_num 4 v @ le_num 8 t"
    and b: "cf_epoch b = JInt e'" "cf_observationRoot b = hex_of_bytes r'" "cf_observerCount b = JInt n'"
      "cf_previousCommitment b = hex_of_bytes p'" "cf_commitment b = hex_of_bytes c'" "cf_policyVersion b = JInt v'"
      "cf_evaluatedAtMilliseconds b = t'" "length r' = 32" "length p' = 32" "length c' = 32"
      "0 \<le> e'" "e' < 2 ^ (4 * 8)" "0 \<le> n'" "n' < 2 ^ (2 * 8)" "0 \<le> v'" "v' < 2 ^ (4 * 8)" "0 \<le> t'" "t' < 2 ^ (8 * 8)"
      "y = le_num 4 e' @ r' @ le_num 2 n' @ p' @ c' @ le_num 4 v' @ le_num 8 t'"
    unfolding confidenceAuthorizationBytes_def Option.bind_eq_Some_conv uint_num_Some uint_big_Some hex32_Some
    by blast
  have "x = y \<longleftrightarrow> le_num 4 e = le_num 4 e' \<and> r = r' \<and> le_num 2 n = le_num 2 n' \<and> p = p' \<and> c = c' \<and>
      le_num 4 v = le_num 4 v' \<and> le_num 8 t = le_num 8 t'"
    using a(8-10) b(8-10) unfolding a(19) b(19) by simp
  also have "\<dots> \<longleftrightarrow> e = e' \<and> r = r' \<and> n = n' \<and> p = p' \<and> c = c' \<and> v = v' \<and> t = t'"
    using inj [of e 4 e'] inj [of n 2 n'] inj [of v 4 v'] inj [of t 8 t'] a(11-18) b(11-18) by blast
  also have "\<dots> \<longleftrightarrow> a = b"
    using a(1-7) b(1-7) by (auto intro: ConfidenceAuthorization.equality)
  finally show ?thesis using a by simp
qed

definition sample_confidence :: ConfidenceAuthorization where
  "sample_confidence = \<lparr>cf_epoch = JInt 3, cf_observationRoot = hex_of_bytes (zeros 32), cf_observerCount = JInt 2,
     cf_previousCommitment = hex_of_bytes (zeros 32), cf_commitment = hex_of_bytes (zeros 32),
     cf_policyVersion = JInt 1, cf_evaluatedAtMilliseconds = 9\<rparr>"

theorem confidenceAuthorizationBytes_inject_witness:
  "\<exists>x y. confidenceAuthorizationBytes sample_confidence = Some x \<and>
     confidenceAuthorizationBytes (sample_confidence\<lparr>cf_observerCount := JInt 3\<rparr>) = Some y \<and> length x = 114 \<and> x \<noteq> y"
proof -
  have "confidenceAuthorizationBytes sample_confidence \<noteq> None"
      "confidenceAuthorizationBytes (sample_confidence\<lparr>cf_observerCount := JInt 3\<rparr>) \<noteq> None"
    by (simp_all add: confidenceAuthorizationBytes_def sample_confidence_def uint_num_def uint_big_def)
  then obtain x y where xy: "confidenceAuthorizationBytes sample_confidence = Some x"
    "confidenceAuthorizationBytes (sample_confidence\<lparr>cf_observerCount := JInt 3\<rparr>) = Some y" by blast
  with confidenceAuthorizationBytes_inject [OF xy] show ?thesis by (auto simp: sample_confidence_def)
qed

end
