(* ===== verification/Der.thy ===== *)
theory Der
  imports Prelude
begin

text \<open>
  The DER reader of \<^verbatim>\<open>app-attest-der.ts\<close>: tag-length-value elements with minimal definite lengths,
  the children of a constructed element, and the extraction of the App Attest nonce from a leaf
  certificate.  Every \<^verbatim>\<open>DerDecodingError\<close> is \<open>None\<close>.  The loop of \<^verbatim>\<open>children\<close> is a recursion on the
  offset that terminates because every element moves it forward.
\<close>

record DerElement =
  el_tag :: byte
  el_value :: bytes
  el_next :: nat

text \<open>The length field: its value and the offset of the contents.\<close>

definition element_length :: "bytes \<Rightarrow> nat \<Rightarrow> (nat \<times> nat) option" where
  "element_length data offset =
     (let firstLength = uint (data ! (offset + 1)); start = offset + 2
      in if firstLength AND 0x80 \<noteq> 0
         then let count = nat (firstLength AND 0x7f)
              in if count = 0 \<or> count > 4 \<or> start + count > length data \<or> data ! start = 0 then None
                 else let len = nat (be_val (subarray start (start + count) data))
                      in if len < 128 then None else Some (len, start + count)
         else Some (nat firstLength, start))"

definition element :: "bytes \<Rightarrow> nat \<Rightarrow> DerElement option" where
  "element data offset =
     (if offset + 2 > length data then None
      else do {
        (len, start) \<leftarrow> element_length data offset;
        if start + len > length data then None
        else Some \<lparr>el_tag = data ! offset, el_value = subarray start (start + len) data, el_next = start + len\<rparr> })"

lemma element_next: "element data offset = Some e \<Longrightarrow> offset + 2 \<le> el_next e \<and> el_next e \<le> length data"
  by (auto simp: element_def element_length_def Let_def Option.bind_eq_Some_conv split: if_splits)

function children_from :: "bytes \<Rightarrow> nat \<Rightarrow> DerElement list option" where
  "children_from data offset =
     (if offset < length data
      then case element data offset of None \<Rightarrow> None
        | Some child \<Rightarrow> map_option ((#) child) (children_from data (el_next child))
      else Some [])"
  by pat_completeness auto

termination children_from
  by (relation "measure (\<lambda>(data, offset). length data - offset)") (auto dest!: element_next)

declare children_from.simps [simp del]

definition children :: "bytes \<Rightarrow> DerElement list option" where
  "children data = children_from data 0"

definition one_element :: "bytes \<Rightarrow> byte \<Rightarrow> DerElement option" where
  "one_element data tag = do {
     parsed \<leftarrow> element data 0;
     if el_tag parsed \<noteq> tag \<or> el_next parsed \<noteq> length data then None else Some parsed }"

definition APP_ATTEST_NONCE_OID :: bytes where
  "APP_ATTEST_NONCE_OID = [0x2a, 0x86, 0x48, 0x86, 0xf7, 0x63, 0x64, 0x08, 0x02]"

text \<open>The body of the loop over the extensions; \<open>nonce\<close> is the value found so far.\<close>

definition is_nonce_extension :: "DerElement list \<Rightarrow> bool" where
  "is_nonce_extension parts =
     (parts \<noteq> [] \<and> el_tag (hd parts) = 0x06 \<and> el_value (hd parts) = APP_ATTEST_NONCE_OID)"

definition extension_nonce :: "DerElement list \<Rightarrow> bytes option" where
  "extension_nonce parts =
     (if length parts < 2 \<or> length parts > 3 then None
      else let payload = last parts
           in if el_tag payload \<noteq> 0x04 then None
              else if length parts = 3 \<and> (el_tag (parts ! 1) \<noteq> 0x01 \<or> length (el_value (parts ! 1)) \<noteq> 1) then None
              else do {
                seq \<leftarrow> one_element (el_value payload) 0x30;
                sequence \<leftarrow> children (el_value seq);
                if length sequence \<noteq> 1 then None
                else do {
                  v \<leftarrow> (if el_tag (sequence ! 0) = 0xa1 then one_element (el_value (sequence ! 0)) 0x04
                        else Some (sequence ! 0));
                  if el_tag v \<noteq> 0x04 \<or> length (el_value v) \<noteq> 32 then None else Some (el_value v) } })"

fun nonce_loop :: "DerElement list \<Rightarrow> bytes option \<Rightarrow> bytes option option" where
  "nonce_loop [] nonce = Some nonce"
| "nonce_loop (extension # extensions) nonce =
     (if el_tag extension \<noteq> 0x30 then None
      else do {
        parts \<leftarrow> children (el_value extension);
        if \<not> is_nonce_extension parts then nonce_loop extensions nonce
        else if nonce \<noteq> None then None
        else do { n \<leftarrow> extension_nonce parts; nonce_loop extensions (Some n) } })"

definition extractAppAttestNonce :: "bytes \<Rightarrow> bytes option" where
  "extractAppAttestNonce certificateDer = do {
     cert \<leftarrow> one_element certificateDer 0x30;
     certificate \<leftarrow> children (el_value cert);
     if length certificate \<noteq> 3 \<or> el_tag (certificate ! 0) \<noteq> 0x30 then None
     else do {
       tbs \<leftarrow> children (el_value (certificate ! 0));
       let extensionFields = filter (\<lambda>field. el_tag field = 0xa3) tbs;
       if length extensionFields \<noteq> 1 then None
       else do {
         exts \<leftarrow> one_element (el_value (extensionFields ! 0)) 0x30;
         extensions \<leftarrow> children (el_value exts);
         nonce \<leftarrow> nonce_loop extensions None;
         nonce } } }"

section \<open>Reference encoding\<close>

text \<open>DER as a writer produces it: the shortest length field.\<close>

definition der_width :: "nat \<Rightarrow> nat" where
  "der_width n = (if n < 256 then 1 else if n < 256 ^ 2 then 2 else if n < 256 ^ 3 then 3 else 4)"

definition der_length :: "nat \<Rightarrow> bytes" where
  "der_length n = (if n < 128 then [of_nat n] else of_nat (128 + der_width n) # be_num (der_width n) (int n))"

definition der_enc :: "byte \<times> bytes \<Rightarrow> bytes" where
  "der_enc = (\<lambda>(tag, v). tag # der_length (length v) @ v)"

definition der_pair :: "DerElement \<Rightarrow> byte \<times> bytes" where
  "der_pair e = (el_tag e, el_value e)"

section \<open>Elements are exactly the shortest encodings\<close>

lemma int_and_128: "0 \<le> x \<Longrightarrow> x < 256 \<Longrightarrow> x AND 128 = 0 \<longleftrightarrow> x < (128 :: int)"
proof -
  assume x: "0 \<le> x" "x < 256"
  have "x AND 128 = 0 \<longleftrightarrow> \<not> bit x 7" using and_exp_eq_0_iff_not_bit [of x 7] by simp
  also have "\<dots> \<longleftrightarrow> even (x div 128)" by (simp add: bit_iff_odd)
  also have "\<dots> \<longleftrightarrow> x < 128"
  proof (cases "x < 128")
    case False
    with x have "x div 128 = 1" by (intro int_div_pos_eq [of x 128 1 "x - 128"]) auto
    with False show ?thesis by simp
  qed (use x in simp)
  finally show ?thesis by simp
qed

lemma int_and_127: "x AND 127 = x mod (128 :: int)"
  using take_bit_eq_mask [of 7 x] by (simp add: mask_eq_exp_minus_1 take_bit_eq_mod)

lemma be_val_Cons: "be_val (b # bs) = uint b * 256 ^ length bs + be_val bs"
proof -
  have "le_val (xs @ [b]) = le_val xs + uint b * 256 ^ length xs" for xs
    by (induction xs) (simp_all add: algebra_simps)
  from this [of "rev bs"] show ?thesis by (simp add: be_val_def)
qed

lemma der_width_be_val:
  assumes "bs \<noteq> []" and "hd bs \<noteq> 0" and "length bs \<le> 4"
  shows "der_width (nat (be_val bs)) = length bs"
proof -
  obtain b r where bs: "bs = b # r" using assms(1) by (cases bs) auto
  have "1 \<le> uint b" using assms(2) bs uint_byte_bounds(1) [of b]
    by (metis int_one_le_iff_zero_less le_less list.sel(1) uint_0_eq unsigned_eq_0_iff)
  then have "1 * 256 ^ length r \<le> uint b * 256 ^ length r" by (intro mult_right_mono) auto
  then have lo: "256 ^ length r \<le> be_val bs" unfolding bs be_val_Cons using be_val_nonneg [of r] by linarith
  have hi: "be_val bs < 256 ^ length bs" by (rule be_val_less)
  have "length bs = 1 \<or> length bs = 2 \<or> length bs = 3 \<or> length bs = 4"
    using assms(1,3) length_greater_0_conv [of bs] by linarith
  with lo hi bs show ?thesis by (auto simp: der_width_def nat_less_iff)
qed

lemma der_width_bounds: "1 \<le> der_width n" "der_width n \<le> 4" "n < 256 ^ 4 \<Longrightarrow> n < 256 ^ der_width n"
  "128 \<le> n \<Longrightarrow> 256 ^ (der_width n - 1) \<le> n"
  by (simp_all add: der_width_def)

lemma length_der_length: "length (der_length n) = (if n < 128 then 1 else 1 + der_width n)"
  by (simp add: der_length_def)

lemma be_num_hd:
  assumes "256 ^ k \<le> v" and "v < 256 ^ Suc k"
  shows "hd (be_num (Suc k) v) \<noteq> 0"
proof
  assume h: "hd (be_num (Suc k) v) = 0"
  have "length (be_num (Suc k) v) = Suc k" by simp
  then obtain r where r: "be_num (Suc k) v = 0 # r" "length r = k" using h by (cases "be_num (Suc k) v") auto
  have "0 \<le> v" using assms(1) by (metis order_trans zero_le_power zero_le_numeral)
  then have "v = be_val (0 # r)" using r(1) assms(2) be_val_be_num [of v "Suc k"] by simp
  also have "\<dots> < 256 ^ k" using be_val_less [of r] r(2) by (simp add: be_val_Cons)
  finally show False using assms(1) by simp
qed

text \<open>The length field read back.\<close>

lemma element_length_enc:
  assumes "n < 256 ^ 4"
  shows "element_length (pre @ t # der_length n @ r) (length pre) = Some (n, length pre + 1 + length (der_length n))"
proof (cases "n < 128")
  case True
  have "uint (of_nat n :: byte) = int n" using True by (simp add: unsigned_of_nat take_bit_eq_mod)
  with True show ?thesis
    by (simp add: element_length_def der_length_def nth_append int_and_128)
next
  case False
  let ?w = "der_width n"
  note b = der_width_bounds [of n]
  define l where "l = (of_nat (128 + ?w) :: byte)"
  define data where "data = pre @ t # l # be_num ?w (int n) @ r"
  have eq: "pre @ t # der_length n @ r = data" using False by (simp add: der_length_def data_def l_def)
  have u: "uint l = 128 + int ?w" using b(2) unfolding l_def
    by (simp only: unsigned_of_nat take_bit_eq_mod) simp
  have "hd (be_num ?w (int n)) \<noteq> 0"
    using be_num_hd [of "?w - 1" "int n"] b(1) b(3) [OF assms] b(4) False
    by (simp flip: of_nat_power add: of_nat_le_iff of_nat_less_iff)
  then have f: "be_num ?w (int n) ! 0 \<noteq> 0" using b(1) length_be_num [of ?w "int n"]
    by (cases "be_num ?w (int n)") (simp_all del: length_be_num)
  have c: "(128 + int ?w) AND 127 = int ?w" using b(2) by (simp add: int_and_127)
  have d: "\<not> (128 + int ?w) AND 128 = 0" using b(2) by (simp add: int_and_128)
  have v: "be_val (be_num ?w (int n)) = int n" using b(3) [OF assms] by (intro be_val_be_num) (simp_all flip: of_nat_power)
  have sub: "subarray (length pre + 2) (length pre + 2 + ?w) data = be_num ?w (int n)"
    by (simp add: subarray_def data_def)
  have nth: "data ! (length pre + 1) = l" "data ! (length pre + 2) = be_num ?w (int n) ! 0"
    using b(1) by (simp_all add: nth_append data_def)
  have len: "length data = length pre + 2 + ?w + length r" by (simp add: data_def)
  have dl: "length pre + 1 + length (der_length n) = length pre + 2 + ?w" using False by (simp add: length_der_length)
  show ?thesis
    unfolding element_length_def Let_def eq nth u c nat_int sub v dl
    using False b f d len by simp
qed

lemma element_enc:
  assumes "length v < 256 ^ 4"
  shows "element (pre @ der_enc (t, v) @ rest) (length pre) =
    Some \<lparr>el_tag = t, el_value = v, el_next = length pre + length (der_enc (t, v))\<rparr>"
proof -
  define data where "data = pre @ t # der_length (length v) @ v @ rest"
  define start where "start = length pre + 1 + length (der_length (length v))"
  have eq: "pre @ der_enc (t, v) @ rest = data" by (simp add: der_enc_def data_def)
  have l: "element_length data (length pre) = Some (length v, start)"
    unfolding data_def start_def by (rule element_length_enc [OF assms])
  have "length pre + 2 \<le> start" by (simp add: start_def length_der_length)
  moreover have "start + length v \<le> length data" "data ! length pre = t"
    by (simp_all add: start_def data_def nth_append)
  moreover have "subarray start (start + length v) data = v"
    by (simp add: subarray_def data_def start_def)
  moreover have "start + length v = length pre + length (der_enc (t, v))" by (simp add: start_def der_enc_def)
  ultimately show ?thesis unfolding eq element_def l by simp
qed

lemma element_length_det:
  assumes "element_length (pre @ t # b # r) (length pre) = Some (len, start)"
  shows "b # r = der_length len @ drop start (pre @ t # b # r)" "start = length pre + 1 + length (der_length len)"
    "len < 256 ^ 4"
proof -
  define data where "data = pre @ t # b # r"
  have nth: "data ! (length pre + 1) = b" by (simp add: data_def nth_append)
  have main: "b # r = der_length len @ drop start data \<and> start = length pre + 1 + length (der_length len) \<and> len < 256 ^ 4"
  proof (cases "uint b < 128")
    case True
    then have "len = nat (uint b)" "start = length pre + 2"
      using assms unfolding data_def [symmetric] element_length_def Let_def nth by (auto simp: int_and_128)
    moreover have "unat b < 128" using True by (simp add: nat_less_iff flip: nat_uint_eq)
    ultimately show ?thesis by (simp add: der_length_def data_def)
  next
    case False
    define c where "c = nat (uint b AND 127)"
    have c: "int c = uint b - 128"
      using False uint_byte_bounds [of b] int_mod_pos_eq [of "uint b" 128 1 "uint b - 128"]
      by (simp add: c_def int_and_127)
    define bs where "bs = take c r"
    have sub: "subarray (length pre + 2) (length pre + 2 + c) data = bs" by (simp add: subarray_def data_def bs_def)
    have hd: "data ! (length pre + 2) = r ! 0" if "r \<noteq> []" using that by (simp add: data_def nth_append)
    have "\<not> (c = 0 \<or> c > 4 \<or> length pre + 2 + c > length data \<or> data ! (length pre + 2) = 0)"
        "len = nat (be_val bs)" "128 \<le> len" "start = length pre + 2 + c"
      using assms False
      unfolding data_def [symmetric] element_length_def Let_def nth c_def [symmetric] sub
      by (auto simp: int_and_128 split: if_splits)
    moreover from this have "bs \<noteq> []" "length bs = c" "hd bs \<noteq> 0"
      using hd by (cases r; auto simp: bs_def data_def)+
    ultimately have w: "der_width len = c" "128 \<le> len" "be_num c (int len) = bs" "length bs \<le> 4"
        "len = nat (be_val bs)" "start = length pre + 2 + c" "min (length r) c = c"
      using der_width_be_val [of bs] be_num_be_val' [of bs c] by (auto simp: bs_def)
    have "128 + c = unat b" using c False by (simp flip: nat_uint_eq)
    then have "(of_nat (128 + c) :: byte) = b" by (simp del: of_nat_add)
    moreover have "drop start data = drop c r" using w by (simp add: data_def)
    moreover have "len < 256 ^ 4"
    proof -
      have "be_val bs < 256 ^ length bs" by (rule be_val_less)
      also have "\<dots> \<le> 256 ^ 4" using w(4) by (intro power_increasing) auto
      finally show ?thesis using w(5) by (simp add: nat_less_iff)
    qed
    ultimately show ?thesis using w by (simp add: der_length_def bs_def)
  qed
  from main show "b # r = der_length len @ drop start (pre @ t # b # r)" unfolding data_def by blast
  from main show "start = length pre + 1 + length (der_length len)" "len < 256 ^ 4" by simp_all
qed

lemma element_det:
  assumes "element data offset = Some e"
  shows "drop offset data = der_enc (der_pair e) @ drop (el_next e) data" "length (el_value e) < 256 ^ 4"
proof -
  from assms obtain len start where l: "element_length data offset = Some (len, start)"
    and b: "offset + 2 \<le> length data" "start + len \<le> length data"
    and e: "el_tag e = data ! offset" "el_value e = subarray start (start + len) data" "el_next e = start + len"
    by (auto simp: element_def Option.bind_eq_Some_conv split: if_splits)
  define pre where "pre = take offset data"
  obtain t b' r where d: "drop offset data = t # b' # r"
    using b(1) by (metis Cons_nth_drop_Suc Suc_le_lessD add_2_eq_Suc' less_Suc_eq less_or_eq_imp_le order.strict_trans2 Suc_leD)
  have data: "data = pre @ t # b' # r" using d by (metis append_take_drop_id pre_def)
  have len: "length pre = offset" using b(1) by (simp add: pre_def)
  note det = element_length_det [of pre t b' r len start, folded data, unfolded len, OF l]
  have "t = data ! offset" using data len by (metis nth_append_length)
  moreover have "length (el_value e) = len" using b e by simp
  moreover have "drop start data = el_value e @ drop (el_next e) data"
    using e by (simp add: subarray_def) (metis add.commute append_take_drop_id drop_drop)
  ultimately show "drop offset data = der_enc (der_pair e) @ drop (el_next e) data" "length (el_value e) < 256 ^ 4"
    using det d e by (simp_all add: der_enc_def der_pair_def)
qed

lemma children_from_det:
  "children_from data offset = Some es \<Longrightarrow> offset \<le> length data \<Longrightarrow>
     drop offset data = concat (map der_enc (map der_pair es)) \<and> list_all (\<lambda>e. length (el_value e) < 256 ^ 4) es"
proof (induction data offset arbitrary: es rule: children_from.induct)
  case (1 data offset)
  show ?case
  proof (cases "offset < length data")
    case True
    with 1 obtain c cs where c: "element data offset = Some c" "children_from data (el_next c) = Some cs" "es = c # cs"
      by (auto simp: children_from.simps [of data offset] split: option.splits)
    from 1(1) [OF True c(1,2)] element_next [OF c(1)] element_det [OF c(1)] c(3) show ?thesis by simp
  next
    case False
    with 1 have "offset = length data" "es = []" by (simp_all add: children_from.simps [of data offset])
    then show ?thesis by simp
  qed
qed

lemma der_enc_nonempty: "der_enc p \<noteq> []"
  by (cases p) (simp add: der_enc_def)

lemma children_from_enc:
  "list_all (\<lambda>p. length (snd p) < 256 ^ 4) ps \<Longrightarrow>
     map_option (map der_pair) (children_from (pre @ concat (map der_enc ps)) (length pre)) = Some ps"
proof (induction ps arbitrary: pre)
  case Nil
  then show ?case by (simp add: children_from.simps)
next
  case (Cons p ps)
  obtain t v where p: "p = (t, v)" by (cases p)
  have "element (pre @ der_enc p @ concat (map der_enc ps)) (length pre) =
      Some \<lparr>el_tag = t, el_value = v, el_next = length pre + length (der_enc p)\<rparr>"
    using Cons.prems p element_enc [of v pre t "concat (map der_enc ps)"] by simp
  moreover have "length (der_enc p) > 0" by (simp add: der_enc_nonempty)
  moreover have "map_option (map der_pair)
      (children_from (pre @ der_enc p @ concat (map der_enc ps)) (length pre + length (der_enc p))) = Some ps"
    using Cons.IH [of "pre @ der_enc p"] Cons.prems by simp
  ultimately show ?case
    by (auto simp: children_from.simps [of _ "length pre"] der_pair_def p)
qed

text \<open>The same in the shape the nonce extraction uses.\<close>

lemma one_element_enc:
  "length v < 256 ^ 4 \<Longrightarrow> one_element (der_enc (t, v)) t =
     Some \<lparr>el_tag = t, el_value = v, el_next = length (der_enc (t, v))\<rparr>"
  using element_enc [of v "[]" t "[]"] by (simp add: one_element_def)

lemma children_enc:
  assumes "list_all (\<lambda>p. length (snd p) < 256 ^ 4) ps"
  obtains es where "children (concat (map der_enc ps)) = Some es" "map el_tag es = map fst ps" "map el_value es = map snd ps"
proof -
  from children_from_enc [OF assms, of "[]"] obtain es where
    "children (concat (map der_enc ps)) = Some es" "map der_pair es = ps" by (auto simp: children_def)
  moreover from this have "map el_tag es = map fst ps" "map el_value es = map snd ps"
    by (auto simp: der_pair_def)
  ultimately show thesis using that by blast
qed

lemma children_single:
  "length v < 256 ^ 4 \<Longrightarrow> \<exists>n. children (der_enc (t, v)) = Some [\<lparr>el_tag = t, el_value = v, el_next = n\<rparr>]"
proof -
  assume "length v < 256 ^ 4"
  then obtain es where "children (der_enc (t, v)) = Some es" "map el_tag es = [t]" "map el_value es = [v]"
    using children_enc [of "[(t, v)]"] by auto
  then obtain a where "children (der_enc (t, v)) = Some [a]" "el_tag a = t" "el_value a = v" by (cases es) auto
  then show ?thesis by (cases a) auto
qed

section \<open>Properties\<close>

text \<open>C31. DER sequences are parsed exactly: the children of a buffer are \<open>ps\<close> if and only if the
  buffer is the concatenation of their shortest encodings, so lengths are minimal, no byte is
  skipped and none is left over.\<close>

theorem children_exact:
  "map_option (map der_pair) (children data) = Some ps \<longleftrightarrow>
     data = concat (map der_enc ps) \<and> list_all (\<lambda>p. length (snd p) < 256 ^ 4) ps"
proof
  assume "map_option (map der_pair) (children data) = Some ps"
  then obtain es where "children_from data 0 = Some es" "ps = map der_pair es" by (auto simp: children_def)
  with children_from_det [of data 0 es] show "data = concat (map der_enc ps) \<and> list_all (\<lambda>p. length (snd p) < 256 ^ 4) ps"
    by (auto simp: list_all_iff der_pair_def)
next
  assume "data = concat (map der_enc ps) \<and> list_all (\<lambda>p. length (snd p) < 256 ^ 4) ps"
  then show "map_option (map der_pair) (children data) = Some ps"
    using children_from_enc [of ps "[]"] by (simp add: children_def)
qed

end
