(* ===== verification/App_Attest.thy ===== *)
theory App_Attest
  imports Cbor Der Encodings
begin

text \<open>
  The App Attest verifier of \<^verbatim>\<open>app-attest.ts\<close>: verification of an attestation (a new device key) and
  of an assertion (a use of a known key).  SHA-256 and what the verifier takes from node's X.509 and
  signature implementation are the parameter record \<open>x509\<close>; a parsed certificate is the record of the
  attributes the code reads.  An exported JWK coordinate is given decoded, \<open>None\<close> when the attribute is
  missing or empty.  The clock is an argument.  Errors carry the source's code and optional detail.
\<close>

datatype AppAttestEnvironment = Development | Production

datatype attest_code =
    Invalid_input
  | Challenge_limit
  | Invalid_attestation
  | Invalid_chain
  | Invalid_nonce
  | Invalid_key
  | Invalid_app
  | Invalid_environment
  | Invalid_counter
  | Invalid_assertion

type_synonym attest_error = "attest_code \<times> string option"

definition fail_with :: "attest_code \<Rightarrow> attest_error + 'a" where
  "fail_with code = Inl (code, None)"

definition fail_detail :: "attest_code \<Rightarrow> string \<Rightarrow> attest_error + 'a" where
  "fail_detail code detail = Inl (code, Some detail)"

record AppAttestPolicy =
  ap_appID :: string
  ap_environment :: AppAttestEnvironment
  ap_allowedValidationCategories :: "int list"
  ap_allowedBundleVersions :: "string list"

text \<open>Counters come from a 32-bit field or the key table's integer column, so \<^verbatim>\<open>Number.isInteger\<close>
  holds for them and they are integers here.\<close>

record VerifiedAppAttestKey =
  ak_keyID :: string
  ak_publicKeyPem :: string
  ak_appID :: string
  ak_environment :: AppAttestEnvironment
  ak_counter :: int
  ak_validationCategory :: "int option"
  ak_bundleVersion :: "string option"

section \<open>Certificates\<close>

record ec_key =
  ec_keyType :: string
  ec_namedCurve :: "string option"
  ec_kty :: string
  ec_crv :: string
  ec_x :: "bytes option"
  ec_y :: "bytes option"
  ec_pem :: string

record certificate =
  ct_ca :: bool
  ct_keyUsage :: "string list option"
  ct_validFrom :: "int option"
  ct_validTo :: "int option"
  ct_publicKey :: ec_key

record x509 =
  xl_sha256 :: hash
  xl_parse :: "bytes \<Rightarrow> certificate option"
  xl_checkIssued :: "certificate \<Rightarrow> certificate \<Rightarrow> bool"
  xl_verify :: "certificate \<Rightarrow> ec_key \<Rightarrow> bool"
  xl_root :: certificate
  xl_signature :: "bytes \<Rightarrow> string \<Rightarrow> bytes \<Rightarrow> bool option"

text \<open>An unparsable date is NaN (\<open>None\<close>), which every comparison refuses.\<close>

definition certificateValidNow :: "certificate \<Rightarrow> int \<Rightarrow> bool" where
  "certificateValidNow c now =
     (case (ct_validFrom c, ct_validTo c) of (Some f, Some t) \<Rightarrow> f \<le> now \<and> now \<le> t | _ \<Rightarrow> False)"

definition APP_ATTEST_USAGE :: string where
  "APP_ATTEST_USAGE = ''1.2.840.113635.100.4.24''"

definition chain_ok :: "x509 \<Rightarrow> int \<Rightarrow> certificate \<Rightarrow> certificate \<Rightarrow> bool" where
  "chain_ok lib now leaf intermediate =
     (\<not> ct_ca leaf \<and> ct_ca intermediate \<and> ct_ca (xl_root lib) \<and>
      (case ct_keyUsage leaf of None \<Rightarrow> False | Some us \<Rightarrow> APP_ATTEST_USAGE \<in> set us) \<and>
      certificateValidNow leaf now \<and> certificateValidNow intermediate now \<and>
      certificateValidNow (xl_root lib) now \<and>
      xl_checkIssued lib leaf intermediate \<and> xl_verify lib leaf (ct_publicKey intermediate) \<and>
      xl_checkIssued lib intermediate (xl_root lib) \<and>
      xl_verify lib intermediate (ct_publicKey (xl_root lib)) \<and>
      xl_verify lib (xl_root lib) (ct_publicKey (xl_root lib)))"

definition verifyCertificateChain :: "x509 \<Rightarrow> int \<Rightarrow> bytes \<Rightarrow> bytes \<Rightarrow> attest_error + certificate" where
  "verifyCertificateChain lib now leafDer intermediateDer =
     (case (xl_parse lib leafDer, xl_parse lib intermediateDer) of
        (Some leaf, Some intermediate) \<Rightarrow>
          if \<not> chain_ok lib now leaf intermediate then fail_with Invalid_chain else Inr leaf
      | _ \<Rightarrow> fail_with Invalid_chain)"

section \<open>Input checks\<close>

definition checkChallenge :: "bytes \<Rightarrow> attest_error + bytes" where
  "checkChallenge v = (if length v \<noteq> 32 then fail_with Invalid_input else Inr v)"

text \<open>The pattern \<^verbatim>\<open>[A-Za-z0-9+/]{43}=\<close>.\<close>

definition key_id_pattern :: "string \<Rightarrow> bool" where
  "key_id_pattern s = (length s = 44 \<and> list_all is_b64_char (take 43 s) \<and> s ! 43 = pad)"

definition decodeKeyID :: "string \<Rightarrow> attest_error + bytes" where
  "decodeKeyID keyID =
     (if \<not> key_id_pattern keyID then fail_with Invalid_input
      else if length (b64_dec keyID) \<noteq> 32 \<or> b64_enc (b64_dec keyID) \<noteq> keyID then fail_with Invalid_input
      else Inr (b64_dec keyID))"

definition as_map :: "cbor \<Rightarrow> cbor_key list \<Rightarrow> attest_code \<Rightarrow> attest_error + (cbor_key \<rightharpoonup> cbor)" where
  "as_map v keys code = of_opt (code, None) (requireCborMap v keys)"

fun cbor_bytes :: "cbor option \<Rightarrow> attest_code \<Rightarrow> attest_error + bytes" where
  "cbor_bytes (Some (CBytes b)) code = Inr b"
| "cbor_bytes _ code = fail_with code"

section \<open>Authenticator data\<close>

record AuthenticatorData =
  ad_rpID :: bytes
  ad_flags :: int
  ad_counter :: int
  ad_credentialID :: "bytes option"
  ad_coseKey :: "cbor option"
  ad_extensions :: "(cbor_key \<times> cbor) list option"

text \<open>The parser's own error and a CBOR error are both replaced by the caller, so a throw is \<open>None\<close>.\<close>

definition parseExtensions :: "bytes \<Rightarrow> int \<Rightarrow> nat \<Rightarrow> (cbor_key \<times> cbor) list option option" where
  "parseExtensions data flags offset =
     (if flags AND 0x80 = 0 then (if offset \<noteq> length data then None else Some None)
      else if offset \<ge> length data then None
      else case decodeCbor (drop offset data) of Some (CMap m) \<Rightarrow> Some (Some m) | _ \<Rightarrow> None)"

definition parseAuthenticatorData :: "bytes \<Rightarrow> bool \<Rightarrow> AuthenticatorData option" where
  "parseAuthenticatorData data attestation =
     (if length data < 37 then None
      else let rpID = subarray 0 32 data; flags = uint (data ! 32); counter = be_val (subarray 33 37 data)
      in if \<not> attestation then do {
           extensions \<leftarrow> parseExtensions data flags 37;
           Some \<lparr>ad_rpID = rpID, ad_flags = flags, ad_counter = counter, ad_credentialID = None,
             ad_coseKey = None, ad_extensions = extensions\<rparr> }
         else if flags AND 0x40 = 0 \<or> length data < 55 then None
         else let credentialLength = nat (be_val (subarray 53 55 data))
         in if credentialLength \<noteq> 32 \<or> length data < 55 + credentialLength then None
            else do {
              (coseKey, bytesRead) \<leftarrow> decodeCborPrefix (drop (55 + credentialLength) data);
              extensions \<leftarrow> parseExtensions data flags (55 + credentialLength + bytesRead);
              Some \<lparr>ad_rpID = rpID, ad_flags = flags, ad_counter = counter,
                ad_credentialID = Some (subarray 55 (55 + credentialLength) data),
                ad_coseKey = Some coseKey, ad_extensions = extensions\<rparr> })"

definition ext_category :: "cbor option \<Rightarrow> attest_error + int option" where
  "ext_category v = (case v of None \<Rightarrow> Inr None
     | Some (CBytes b) \<Rightarrow> if length b \<noteq> 4 then fail_detail Invalid_environment ''validation_category_format''
         else Inr (Some (le_val b))
     | _ \<Rightarrow> fail_detail Invalid_environment ''validation_category_format'')"

definition ext_bundle :: "cbor option \<Rightarrow> attest_error + string option" where
  "ext_bundle v = (case v of None \<Rightarrow> Inr None
     | Some (CText s) \<Rightarrow> if s = [] then fail_detail Invalid_environment ''bundle_version_format'' else Inr (Some s)
     | _ \<Rightarrow> fail_detail Invalid_environment ''bundle_version_format'')"

definition extensionValues :: "(cbor_key \<times> cbor) list option \<Rightarrow> attest_error + (int option \<times> string option)" where
  "extensionValues extensions =
     (case extensions of None \<Rightarrow> Inr (None, None)
      | Some m \<Rightarrow>
          ebind (ext_category (map_of m (KText ''apple_validation_category_01''))) (\<lambda>category.
          ebind (ext_bundle (map_of m (KText ''apple_bundle_version_01''))) (\<lambda>bundle.
          Inr (category, bundle))))"

definition checkCoseKey :: "cbor option \<Rightarrow> ec_key \<Rightarrow> attest_error + unit" where
  "checkCoseKey v publicKey =
     (case v of None \<Rightarrow> fail_with Invalid_key
      | Some value \<Rightarrow>
          ebind (as_map value [KInt 1, KInt 3, KInt (- 1), KInt (- 2), KInt (- 3)] Invalid_key) (\<lambda>m.
          if m (KInt 1) \<noteq> Some (CNum 2) \<or> m (KInt 3) \<noteq> Some (CNum (- 7)) \<or> m (KInt (- 1)) \<noteq> Some (CNum 1)
          then fail_with Invalid_key
          else ebind (cbor_bytes (m (KInt (- 2))) Invalid_key) (\<lambda>x.
            ebind (cbor_bytes (m (KInt (- 3))) Invalid_key) (\<lambda>y.
            if length x \<noteq> 32 \<or> length y \<noteq> 32 then fail_with Invalid_key
            else case (ec_x publicKey, ec_y publicKey) of (Some kx, Some ky) \<Rightarrow>
                if ec_kty publicKey \<noteq> ''EC'' \<or> ec_crv publicKey \<noteq> ''P-256'' then fail_with Invalid_key
                else if x \<noteq> kx \<or> y \<noteq> ky then fail_with Invalid_key else Inr ()
              | _ \<Rightarrow> fail_with Invalid_key))))"

section \<open>The verifier\<close>

record AppAttestVerifier =
  av_policy :: AppAttestPolicy
  av_rpID :: bytes

text \<open>The pattern \<^verbatim>\<open>[A-Z0-9]{10}\.[A-Za-z0-9.-]+\<close>.\<close>

definition app_id_pattern :: "string \<Rightarrow> bool" where
  "app_id_pattern s =
     (let team = take 10 s; rest = drop 11 s
      in length s > 11 \<and> list_all (\<lambda>c. c \<in> set ''ABCDEFGHIJKLMNOPQRSTUVWXYZ0123456789'') team \<and>
         s ! 10 = CHR ''.'' \<and>
         list_all (\<lambda>c. c \<in> set ''ABCDEFGHIJKLMNOPQRSTUVWXYZabcdefghijklmnopqrstuvwxyz0123456789.-'') rest)"

definition appAttestVerifier :: "x509 \<Rightarrow> bool \<Rightarrow> AppAttestPolicy \<Rightarrow> attest_error + AppAttestVerifier" where
  "appAttestVerifier lib production policy =
     (if \<not> app_id_pattern (ap_appID policy) \<or> (production \<and> ap_environment policy = Development) \<or>
         ap_allowedValidationCategories policy = [] \<or>
         list_ex (\<lambda>v. v \<notin> set [2, 3, 4, 5]) (ap_allowedValidationCategories policy) \<or>
         list_ex (\<lambda>v. v = []) (ap_allowedBundleVersions policy) then fail_with Invalid_input
      else Inr \<lparr>av_policy = policy, av_rpID = xl_sha256 lib (bytes_of_string (ap_appID policy))\<rparr>)"

definition checkBundleVersion :: "AppAttestPolicy \<Rightarrow> string option \<Rightarrow> attest_error + unit" where
  "checkBundleVersion policy version =
     (if (case version of None \<Rightarrow> ap_allowedBundleVersions policy \<noteq> []
          | Some s \<Rightarrow> s \<notin> set (ap_allowedBundleVersions policy))
      then fail_detail Invalid_environment ''bundle_version'' else Inr ())"

definition category_allowed :: "AppAttestPolicy \<Rightarrow> int option \<Rightarrow> bool" where
  "category_allowed policy category =
     (case category of None \<Rightarrow> True | Some c \<Rightarrow> c \<in> set (ap_allowedValidationCategories policy))"

definition expected_aaguid :: "AppAttestEnvironment \<Rightarrow> bytes" where
  "expected_aaguid env =
     (case env of Development \<Rightarrow> bytes_of_string ''appattestdevelop''
      | Production \<Rightarrow> bytes_of_string ''appattest'' @ zeros 7)"

text \<open>The decoded parts of an attestation object: leaf, intermediate and authenticator data.\<close>

definition attestation_object :: "bytes \<Rightarrow> attest_error + (bytes \<times> bytes \<times> bytes)" where
  "attestation_object input =
     ebind (of_opt (Invalid_attestation, None) (decodeCbor input)) (\<lambda>object.
     ebind (as_map object [KText ''fmt'', KText ''attStmt'', KText ''authData''] Invalid_attestation) (\<lambda>outer.
     if outer (KText ''fmt'') \<noteq> Some (CText ''apple-appattest'') then fail_with Invalid_attestation
     else ebind (as_map (the (outer (KText ''attStmt''))) [KText ''x5c'', KText ''receipt''] Invalid_attestation) (\<lambda>stmt.
       case stmt (KText ''x5c'') of Some (CArr [leaf, intermediate]) \<Rightarrow>
         ebind (cbor_bytes (Some leaf) Invalid_chain) (\<lambda>leafDer.
         ebind (cbor_bytes (Some intermediate) Invalid_chain) (\<lambda>intermediateDer.
         ebind (cbor_bytes (stmt (KText ''receipt'')) Invalid_attestation) (\<lambda>receipt.
         if receipt = [] then fail_with Invalid_attestation
         else ebind (cbor_bytes (outer (KText ''authData'')) Invalid_attestation) (\<lambda>authData.
           Inr (leafDer, intermediateDer, authData)))))
       | _ \<Rightarrow> fail_with Invalid_chain)))"

text \<open>The key of the leaf certificate: its curve, and that its hash is the key identifier.\<close>

definition leaf_key_check :: "x509 \<Rightarrow> ec_key \<Rightarrow> bytes \<Rightarrow> attest_error + unit" where
  "leaf_key_check lib publicKey keyID =
     (if ec_keyType publicKey \<noteq> ''ec'' \<or> ec_namedCurve publicKey \<noteq> Some ''prime256v1'' then fail_with Invalid_key
      else case (ec_x publicKey, ec_y publicKey) of (Some x, Some y) \<Rightarrow>
          if xl_sha256 lib ([4] @ x @ y) \<noteq> keyID then fail_with Invalid_key else Inr ()
        | _ \<Rightarrow> fail_with Invalid_key)"

definition verifyAttestation ::
  "x509 \<Rightarrow> AppAttestVerifier \<Rightarrow> int \<Rightarrow> string \<Rightarrow> bytes \<Rightarrow> bytes \<Rightarrow> attest_error + VerifiedAppAttestKey" where
  "verifyAttestation lib vf now inputKeyID object expectedChallenge =
     ebind (decodeKeyID inputKeyID) (\<lambda>keyID.
     ebind (checkChallenge expectedChallenge) (\<lambda>challenge.
     ebind (attestation_object object) (\<lambda>(leafDer, intermediateDer, authData).
     ebind (verifyCertificateChain lib now leafDer intermediateDer) (\<lambda>certificate.
     ebind (of_opt (Invalid_nonce, None) (extractAppAttestNonce leafDer)) (\<lambda>actualNonce.
     if actualNonce \<noteq> xl_sha256 lib (authData @ xl_sha256 lib challenge) then fail_with Invalid_nonce
     else ebind (leaf_key_check lib (ct_publicKey certificate) keyID) (\<lambda>_.
     ebind (of_opt (Invalid_attestation, None) (parseAuthenticatorData authData True)) (\<lambda>parsed.
     if ad_rpID parsed \<noteq> av_rpID vf then fail_with Invalid_app
     else if ad_counter parsed \<noteq> 0 then fail_with Invalid_counter
     else if subarray 37 53 authData \<noteq> expected_aaguid (ap_environment (av_policy vf))
       then fail_detail Invalid_environment ''aaguid''
     else if ad_credentialID parsed \<noteq> Some keyID then fail_with Invalid_key
     else ebind (checkCoseKey (ad_coseKey parsed) (ct_publicKey certificate)) (\<lambda>_.
     ebind (extensionValues (ad_extensions parsed)) (\<lambda>(category, bundle).
     if \<not> category_allowed (av_policy vf) category then fail_detail Invalid_environment ''validation_category''
     else ebind (checkBundleVersion (av_policy vf) bundle) (\<lambda>_.
     Inr \<lparr>ak_keyID = inputKeyID, ak_publicKeyPem = ec_pem (ct_publicKey certificate),
       ak_appID = ap_appID (av_policy vf), ak_environment = ap_environment (av_policy vf), ak_counter = 0,
       ak_validationCategory = category, ak_bundleVersion = bundle\<rparr>))))))))))"

definition verifyAssertion ::
  "x509 \<Rightarrow> AppAttestVerifier \<Rightarrow> VerifiedAppAttestKey \<Rightarrow> bytes \<Rightarrow> bytes \<Rightarrow> bool \<Rightarrow> attest_error + VerifiedAppAttestKey" where
  "verifyAssertion lib vf key object expectedChallenge challengeIsClientDataHash =
     ebind (checkChallenge expectedChallenge) (\<lambda>challenge.
     if ak_appID key \<noteq> ap_appID (av_policy vf) \<or> ak_environment key \<noteq> ap_environment (av_policy vf)
     then fail_with Invalid_app
     else ebind (decodeKeyID (ak_keyID key)) (\<lambda>_.
     ebind (of_opt (Invalid_assertion, None) (decodeCbor object)) (\<lambda>value.
     ebind (as_map value [KText ''signature'', KText ''authenticatorData''] Invalid_assertion) (\<lambda>outer.
     ebind (cbor_bytes (outer (KText ''signature'')) Invalid_assertion) (\<lambda>signature.
     ebind (cbor_bytes (outer (KText ''authenticatorData'')) Invalid_assertion) (\<lambda>authData.
     ebind (of_opt (Invalid_assertion, None) (parseAuthenticatorData authData False)) (\<lambda>parsed.
     if ad_rpID parsed \<noteq> av_rpID vf then fail_with Invalid_app
     else if ad_counter parsed \<le> ak_counter key then fail_with Invalid_counter
     else ebind (extensionValues (ad_extensions parsed)) (\<lambda>(category, bundle).
     if \<not> category_allowed (av_policy vf) category then fail_detail Invalid_environment ''validation_category''
     else if ak_validationCategory key \<noteq> None \<and> category \<noteq> ak_validationCategory key
       then fail_detail Invalid_environment ''validation_category_changed''
     else ebind (checkBundleVersion (av_policy vf) bundle) (\<lambda>_.
     case xl_signature lib
         (xl_sha256 lib (authData @ (if challengeIsClientDataHash then challenge else xl_sha256 lib challenge)))
         (ak_publicKeyPem key) signature of
       None \<Rightarrow> fail_with Invalid_key
     | Some valid \<Rightarrow> if \<not> valid then fail_with Invalid_assertion
         else Inr (key\<lparr>ak_counter := ad_counter parsed,
           ak_bundleVersion := (if bundle = None then ak_bundleVersion key else bundle)\<rparr>))))))))))"

section \<open>Lemmas\<close>

lemma fail_simps [simp]: "fail_with c \<noteq> Inr x" "fail_detail c d \<noteq> Inr x"
  by (simp_all add: fail_with_def fail_detail_def)

lemma decodeKeyID_Inr: "decodeKeyID s = Inr b \<Longrightarrow> s = b64_enc b \<and> length b = 32"
  by (auto simp: decodeKeyID_def split: if_splits)

lemma key_id_pattern_enc:
  assumes "length b = 32"
  shows "key_id_pattern (b64_enc b)"
  by (rule b64_enc_32 [OF assms]) (simp add: key_id_pattern_def nth_append)

lemma decodeKeyID_enc: "length b = 32 \<Longrightarrow> decodeKeyID (b64_enc b) = Inr b"
  by (simp add: decodeKeyID_def key_id_pattern_enc)

lemma checkChallenge_Inr: "checkChallenge v = Inr c \<longleftrightarrow> c = v \<and> length v = 32"
  by (auto simp: checkChallenge_def)

lemma verifyCertificateChain_Inr:
  "verifyCertificateChain lib now l i = Inr leaf \<longleftrightarrow>
     (\<exists>im. xl_parse lib l = Some leaf \<and> xl_parse lib i = Some im \<and> chain_ok lib now leaf im)"
  by (auto simp: verifyCertificateChain_def split: option.splits)

lemma leaf_key_check_Inr:
  "leaf_key_check lib pk keyID = Inr u \<Longrightarrow>
     \<exists>x y. ec_x pk = Some x \<and> ec_y pk = Some y \<and> keyID = xl_sha256 lib ([4] @ x @ y)"
  by (auto simp: leaf_key_check_def split: if_splits option.splits)

lemma parse_attestation:
  "parseAuthenticatorData d True = Some p \<Longrightarrow>
     ad_rpID p = subarray 0 32 d \<and> ad_counter p = be_val (subarray 33 37 d) \<and> ad_credentialID p = Some (subarray 55 87 d)"
  by (auto simp: parseAuthenticatorData_def Let_def Option.bind_eq_Some_conv split: if_splits)

lemma parse_assertion:
  "parseAuthenticatorData d False = Some p \<Longrightarrow>
     37 \<le> length d \<and> ad_rpID p = subarray 0 32 d \<and> ad_counter p = be_val (subarray 33 37 d)"
  by (auto simp: parseAuthenticatorData_def Let_def Option.bind_eq_Some_conv split: if_splits)

lemma u32_field: "37 \<le> length d \<Longrightarrow> be_val (subarray 33 37 d) < 2 ^ 32"
  using be_val_less [of "subarray 33 37 d"] by simp

lemma attestation_accepted_parts:
  assumes "verifyAttestation lib vf now keyID object challenge = Inr k"
  obtains idb leafDer intDer authData leaf category "bundle" parsed where
    "decodeKeyID keyID = Inr idb" "checkChallenge challenge = Inr challenge"
    "attestation_object object = Inr (leafDer, intDer, authData)"
    "verifyCertificateChain lib now leafDer intDer = Inr leaf"
    "extractAppAttestNonce leafDer = Some (xl_sha256 lib (authData @ xl_sha256 lib challenge))"
    "leaf_key_check lib (ct_publicKey leaf) idb = Inr ()"
    "parseAuthenticatorData authData True = Some parsed" "ad_rpID parsed = av_rpID vf" "ad_counter parsed = 0"
    "subarray 37 53 authData = expected_aaguid (ap_environment (av_policy vf))" "ad_credentialID parsed = Some idb"
    "checkCoseKey (ad_coseKey parsed) (ct_publicKey leaf) = Inr ()"
    "extensionValues (ad_extensions parsed) = Inr (category, bundle)" "category_allowed (av_policy vf) category"
    "checkBundleVersion (av_policy vf) bundle = Inr ()"
    "k = \<lparr>ak_keyID = keyID, ak_publicKeyPem = ec_pem (ct_publicKey leaf), ak_appID = ap_appID (av_policy vf),
      ak_environment = ap_environment (av_policy vf), ak_counter = 0, ak_validationCategory = category,
      ak_bundleVersion = bundle\<rparr>"
  using assms unfolding verifyAttestation_def ebind_eq_Inr
  by (auto simp: ebind_eq_Inr checkChallenge_Inr split: if_splits prod.splits)

lemma assertion_accepted_parts:
  assumes "verifyAssertion lib vf key object challenge direct = Inr k"
  obtains authData signature parsed category "bundle" where
    "length challenge = 32" "ak_appID key = ap_appID (av_policy vf)" "ak_environment key = ap_environment (av_policy vf)"
    "parseAuthenticatorData authData False = Some parsed" "ad_rpID parsed = av_rpID vf" "ak_counter key < ad_counter parsed"
    "extensionValues (ad_extensions parsed) = Inr (category, bundle)" "category_allowed (av_policy vf) category"
    "ak_validationCategory key \<noteq> None \<Longrightarrow> category = ak_validationCategory key"
    "checkBundleVersion (av_policy vf) bundle = Inr ()"
    "xl_signature lib (xl_sha256 lib (authData @ (if direct then challenge else xl_sha256 lib challenge)))
       (ak_publicKeyPem key) signature = Some True"
    "k = key\<lparr>ak_counter := ad_counter parsed, ak_bundleVersion := (if bundle = None then ak_bundleVersion key else bundle)\<rparr>"
  using assms unfolding verifyAssertion_def ebind_eq_Inr
  by (auto simp: ebind_eq_Inr checkChallenge_Inr split: if_splits prod.splits option.splits)

section \<open>Properties\<close>

text \<open>C13. What an accepted attestation guarantees: the new key has the requested identifier, which is
  the hash of the public key in a leaf certificate that chains to the Apple root and is valid now;
  the certificate's nonce binds the authenticator data to the expected challenge; the authenticator
  data names this app, this environment and the same key; the counter starts at zero and the
  validation category is an allowed one.\<close>

theorem attestation_accepted:
  assumes "verifyAttestation lib vf now keyID object challenge = Inr k"
  shows "ak_keyID k = keyID \<and> ak_counter k = 0 \<and> ak_appID k = ap_appID (av_policy vf) \<and>
    ak_environment k = ap_environment (av_policy vf) \<and> category_allowed (av_policy vf) (ak_validationCategory k) \<and>
    length challenge = 32 \<and>
    (\<exists>leafDer intDer authData leaf intermediate x y.
      attestation_object object = Inr (leafDer, intDer, authData) \<and>
      xl_parse lib leafDer = Some leaf \<and> xl_parse lib intDer = Some intermediate \<and> chain_ok lib now leaf intermediate \<and>
      extractAppAttestNonce leafDer = Some (xl_sha256 lib (authData @ xl_sha256 lib challenge)) \<and>
      ak_publicKeyPem k = ec_pem (ct_publicKey leaf) \<and>
      ec_x (ct_publicKey leaf) = Some x \<and> ec_y (ct_publicKey leaf) = Some y \<and>
      keyID = b64_enc (xl_sha256 lib ([4] @ x @ y)) \<and>
      subarray 0 32 authData = av_rpID vf \<and> be_val (subarray 33 37 authData) = 0 \<and>
      subarray 37 53 authData = expected_aaguid (ap_environment (av_policy vf)) \<and>
      subarray 55 87 authData = xl_sha256 lib ([4] @ x @ y))"
  using assms
proof (rule attestation_accepted_parts, goal_cases)
  case (1 idb leafDer intDer authData leaf category b parsed)
  note p = 1
  from p(4) obtain im where im: "xl_parse lib leafDer = Some leaf" "xl_parse lib intDer = Some im" "chain_ok lib now leaf im"
    unfolding verifyCertificateChain_Inr by blast
  from leaf_key_check_Inr [OF p(6)] obtain x y where xy: "ec_x (ct_publicKey leaf) = Some x"
    "ec_y (ct_publicKey leaf) = Some y" "idb = xl_sha256 lib ([4] @ x @ y)" by blast
  have "keyID = b64_enc idb" using decodeKeyID_Inr [OF p(1)] by simp
  with p im xy parse_attestation [OF p(7)] show ?case
    by (auto simp: checkChallenge_Inr)
qed

text \<open>C14. What an accepted assertion guarantees: the counter moves strictly forward and stays a 32-bit
  value, nothing else of the key but the bundle version can change, and the key's signature covers
  authenticator data of this app together with the expected challenge.\<close>

theorem assertion_accepted:
  assumes "verifyAssertion lib vf key object challenge direct = Inr k"
  shows "ak_counter key < ak_counter k \<and> ak_counter k < 2 ^ 32 \<and>
    k = key\<lparr>ak_counter := ak_counter k, ak_bundleVersion := ak_bundleVersion k\<rparr> \<and>
    ak_appID key = ap_appID (av_policy vf) \<and> ak_environment key = ap_environment (av_policy vf) \<and> length challenge = 32 \<and>
    (\<exists>authData signature. subarray 0 32 authData = av_rpID vf \<and> be_val (subarray 33 37 authData) = ak_counter k \<and>
      xl_signature lib (xl_sha256 lib (authData @ (if direct then challenge else xl_sha256 lib challenge)))
        (ak_publicKeyPem key) signature = Some True)"
  using assms
proof (rule assertion_accepted_parts, goal_cases)
  case (1 authData signature parsed category b)
  from parse_assertion [OF 1(4)] have p: "37 \<le> length authData" "subarray 0 32 authData = av_rpID vf"
    "be_val (subarray 33 37 authData) = ak_counter k" using 1 by auto
  with u32_field [of authData] 1 have "ak_counter key < ak_counter k" "ak_counter k < 2 ^ 32"
    "k = key\<lparr>ak_counter := ak_counter k, ak_bundleVersion := ak_bundleVersion k\<rparr>" by simp_all
  with p 1 show ?case by blast
qed

definition sample_cert :: "bool \<Rightarrow> certificate" where
  "sample_cert ca = \<lparr>ct_ca = ca, ct_keyUsage = Some [APP_ATTEST_USAGE], ct_validFrom = Some 0, ct_validTo = Some 10,
     ct_publicKey = \<lparr>ec_keyType = ''ec'', ec_namedCurve = Some ''prime256v1'', ec_kty = ''EC'', ec_crv = ''P-256'',
       ec_x = Some (zeros 32), ec_y = Some (zeros 32), ec_pem = ''pem''\<rparr>\<rparr>"

definition sample_x509 :: x509 where
  "sample_x509 = \<lparr>xl_sha256 = (\<lambda>_. zeros 32), xl_parse = (\<lambda>d. Some (sample_cert (d = [1]))),
     xl_checkIssued = (\<lambda>_ _. True), xl_verify = (\<lambda>_ _. True), xl_root = sample_cert True,
     xl_signature = (\<lambda>m p s. Some (s = [9]))\<rparr>"

definition sample_verifier :: AppAttestVerifier where
  "sample_verifier = \<lparr>av_policy = \<lparr>ap_appID = ''A'', ap_environment = Development,
     ap_allowedValidationCategories = [2], ap_allowedBundleVersions = []\<rparr>, av_rpID = zeros 32\<rparr>"

definition sample_key :: "int \<Rightarrow> VerifiedAppAttestKey" where
  "sample_key n = \<lparr>ak_keyID = b64_enc (zeros 32), ak_publicKeyPem = ''pem'', ak_appID = ''A'', ak_environment = Development,
     ak_counter = n, ak_validationCategory = None, ak_bundleVersion = None\<rparr>"

definition sample_assertion :: bytes where
  "sample_assertion = cbor_enc (CMap [(KText ''signature'', CBytes [9]),
     (KText ''authenticatorData'', CBytes (zeros 32 @ [0] @ be_num 4 5))])"

lemma sample_assertion_decoded:
  "decodeCbor sample_assertion = Some (CMap [(KText ''signature'', CBytes [9]),
     (KText ''authenticatorData'', CBytes (zeros 32 @ [0] @ be_num 4 5))])"
  unfolding sample_assertion_def
  by (rule decodeCbor_of_enc) (simp_all add: cbor_eval)

lemma sample_assertion_verified:
  "verifyAssertion sample_x509 sample_verifier (sample_key 3) sample_assertion (zeros 32) direct = Inr (sample_key 5)"
proof -
  have p: "parseAuthenticatorData (zeros 32 @ [0] @ be_num 4 5) False = Some \<lparr>ad_rpID = zeros 32, ad_flags = 0, ad_counter = 5,
      ad_credentialID = None, ad_coseKey = None, ad_extensions = None\<rparr>"
    by (simp add: parseAuthenticatorData_def parseExtensions_def nth_append offset_simps)
  show ?thesis
    by (simp add: verifyAssertion_def checkChallenge_def sample_key_def sample_verifier_def decodeKeyID_enc
        sample_assertion_decoded as_map_def requireCborMap_def p [simplified] extensionValues_def category_allowed_def
        checkBundleVersion_def sample_x509_def)
qed

theorem assertion_accepted_witness:
  "\<exists>k. verifyAssertion sample_x509 sample_verifier (sample_key 3) sample_assertion (zeros 32) True = Inr k \<and> 3 < ak_counter k"
  using assertion_accepted [OF sample_assertion_verified, of True] sample_assertion_verified by (auto simp: sample_key_def)

definition sample_extension :: bytes where
  "sample_extension = concat (map der_enc
     [(0x06, APP_ATTEST_NONCE_OID), (0x04, der_enc (0x30, der_enc (0x04, zeros 32)))])"

definition sample_tbs :: bytes where
  "sample_tbs = der_enc (0xa3, der_enc (0x30, der_enc (0x30, sample_extension)))"

definition sample_leaf :: bytes where
  "sample_leaf = der_enc (0x30, concat (map der_enc [(0x30, sample_tbs), (0x30, []), (0x03, [])]))"

lemma length_der_enc: "length (der_enc (t, v)) = 1 + length (der_length (length v)) + length v"
  by (simp add: der_enc_def)

lemmas der_sizes = length_der_enc length_der_length der_width_def APP_ATTEST_NONCE_OID_def

lemma sample_extension_nonce:
  "\<exists>ps. children sample_extension = Some ps \<and> is_nonce_extension ps \<and> extension_nonce ps = Some (zeros 32)"
proof -
  let ?ps = "[(0x06 :: byte, APP_ATTEST_NONCE_OID), (0x04, der_enc (0x30, der_enc (0x04, zeros 32)))]"
  have "list_all (\<lambda>p. length (snd p) < 256 ^ 4) ?ps" by (simp add: der_sizes)
  then obtain es where es: "children sample_extension = Some es" "map el_tag es = map fst ?ps" "map el_value es = map snd ?ps"
    unfolding sample_extension_def by (rule children_enc)
  then obtain a b where ab: "es = [a, b]" by (cases es; cases "tl es") auto
  obtain n where "children (der_enc (0x04, zeros 32)) = Some [\<lparr>el_tag = 0x04, el_value = zeros 32, el_next = n\<rparr>]"
    using children_single [of "zeros 32" "0x04"] by auto
  moreover have "one_element (der_enc (0x30, der_enc (0x04, zeros 32))) 0x30 = Some \<lparr>el_tag = 0x30,
      el_value = der_enc (0x04, zeros 32), el_next = length (der_enc (0x30, der_enc (0x04, zeros 32)))\<rparr>"
    by (rule one_element_enc) (simp add: der_sizes)
  ultimately have "is_nonce_extension es \<and> extension_nonce es = Some (zeros 32)"
    using es(2,3) by (simp add: ab is_nonce_extension_def extension_nonce_def)
  with es(1) show ?thesis by blast
qed

lemma sample_leaf_nonce: "extractAppAttestNonce sample_leaf = Some (zeros 32)"
proof -
  let ?cs = "[(0x30 :: byte, sample_tbs), (0x30, []), (0x03, [])]"
  let ?exts = "der_enc (0x30, der_enc (0x30, sample_extension))"
  have sz: "length sample_extension < 256" "length sample_tbs < 256"
    by (simp_all add: sample_tbs_def sample_extension_def der_sizes)
  have one: "one_element (der_enc (t, v)) t = Some \<lparr>el_tag = t, el_value = v, el_next = length (der_enc (t, v))\<rparr>"
    if "length v < 1000" for t v using that by (intro one_element_enc) simp
  have "list_all (\<lambda>p. length (snd p) < 256 ^ 4) ?cs" using sz by simp
  then obtain es where es: "children (concat (map der_enc ?cs)) = Some es" "map el_tag es = map fst ?cs" "map el_value es = map snd ?cs"
    by (rule children_enc)
  then obtain a b c where abc: "es = [a, b, c]" by (cases es; cases "tl es"; cases "tl (tl es)") auto
  obtain n where n: "children sample_tbs = Some [\<lparr>el_tag = 0xa3, el_value = ?exts, el_next = n\<rparr>]"
    using children_single [of ?exts "0xa3"] sz by (auto simp: sample_tbs_def der_sizes)
  obtain m where m: "children (der_enc (0x30, sample_extension)) = Some [\<lparr>el_tag = 0x30, el_value = sample_extension, el_next = m\<rparr>]"
    using children_single [of sample_extension "0x30"] sz by auto
  obtain ps where ps: "children sample_extension = Some ps" "is_nonce_extension ps" "extension_nonce ps = Some (zeros 32)"
    using sample_extension_nonce by blast
  have "length (concat (map der_enc ?cs)) < 1000" "length (der_enc (0x30, sample_extension)) < 1000"
    using sz by (simp_all add: der_sizes)
  with one es abc n m ps show ?thesis
    by (simp add: extractAppAttestNonce_def sample_leaf_def)
qed

definition sample_cose :: cbor where
  "sample_cose = CMap [(KInt 1, CNum 2), (KInt 3, CNum (- 7)), (KInt (- 1), CNum 1), (KInt (- 2), CBytes (zeros 32)),
     (KInt (- 3), CBytes (zeros 32))]"

definition sample_auth_data :: bytes where
  "sample_auth_data = zeros 32 @ [0x40] @ zeros 4 @ bytes_of_string ''appattestdevelop'' @ [0, 32] @ zeros 32 @
     cbor_enc sample_cose"

definition sample_attestation :: cbor where
  "sample_attestation = CMap [(KText ''fmt'', CText ''apple-appattest''),
     (KText ''attStmt'', CMap [(KText ''x5c'', CArr [CBytes sample_leaf, CBytes [1]]), (KText ''receipt'', CBytes [1])]),
     (KText ''authData'', CBytes sample_auth_data)]"

lemma sample_sizes: "length (cbor_enc sample_cose) = 77" "length sample_auth_data = 164" "length sample_leaf < 200"
proof -
  show c: "length (cbor_enc sample_cose) = 77" by (simp add: sample_cose_def enc_num_def head_def head_arg_def)
  show "length sample_auth_data = 164" using c by (simp add: sample_auth_data_def)
  show "length sample_leaf < 200" by (simp add: sample_leaf_def sample_tbs_def sample_extension_def der_sizes)
qed

lemma sample_attestation_decoded: "decodeCbor (cbor_enc sample_attestation) = Some sample_attestation"
proof (rule decodeCbor_of_enc)
  show "cbor_ok 13 sample_attestation" "cbor_no_bom 13 sample_attestation"
    using sample_sizes by (simp_all add: sample_attestation_def cbor_eval)
  show "length (cbor_enc sample_attestation) \<le> 1048576"
    using sample_sizes by (simp add: sample_attestation_def enc_text_def head_def head_arg_def)
qed

lemma sample_auth_data_parsed:
  "parseAuthenticatorData sample_auth_data True = Some \<lparr>ad_rpID = zeros 32, ad_flags = 0x40, ad_counter = 0,
     ad_credentialID = Some (zeros 32), ad_coseKey = Some sample_cose, ad_extensions = None\<rparr>"
proof -
  have cose: "decode (cbor_enc sample_cose) = Some (sample_cose, 77)"
    using decode_of_enc [of sample_cose "[]"] sample_sizes by (simp add: sample_cose_def cbor_eval)
  have at: "sample_auth_data ! 32 = 0x40" by (simp add: sample_auth_data_def nth_append)
  have cut: "subarray 0 32 sample_auth_data = zeros 32" "subarray 33 37 sample_auth_data = zeros 4"
      "subarray 53 55 sample_auth_data = [0, 32]" "subarray 55 87 sample_auth_data = zeros 32"
      "drop 87 sample_auth_data = cbor_enc sample_cose"
    by (simp_all add: sample_auth_data_def offset_simps)
  have "be_val [0, 32] = 32" by (simp add: be_val_def)
  with cose at cut sample_sizes show ?thesis
    by (simp add: parseAuthenticatorData_def parseExtensions_def decodeCborPrefix_def)
qed

theorem attestation_accepted_witness:
  "\<exists>k. verifyAttestation sample_x509 sample_verifier 5 (b64_enc (zeros 32)) (cbor_enc sample_attestation) (zeros 32) = Inr k \<and>
     ak_counter k = 0"
proof -
  have o: "attestation_object (cbor_enc sample_attestation) = Inr (sample_leaf, [1], sample_auth_data)"
    by (simp add: attestation_object_def sample_attestation_decoded)
      (simp add: sample_attestation_def as_map_def requireCborMap_def)
  have "sample_leaf \<noteq> [1]" by (auto dest: arg_cong [where f = length] simp: sample_leaf_def der_sizes)
  then have c: "verifyCertificateChain sample_x509 5 sample_leaf [1] = Inr (sample_cert False)"
    by (simp add: verifyCertificateChain_def chain_ok_def sample_x509_def sample_cert_def certificateValidNow_def)
  have g: "subarray 37 53 sample_auth_data = bytes_of_string ''appattestdevelop''"
    by (simp add: sample_auth_data_def offset_simps)
  have "verifyAttestation sample_x509 sample_verifier 5 (b64_enc (zeros 32)) (cbor_enc sample_attestation) (zeros 32) =
      Inr (sample_key 0)"
    by (simp add: verifyAttestation_def decodeKeyID_enc checkChallenge_def o c sample_leaf_nonce sample_auth_data_parsed g)
      (simp add: sample_x509_def sample_cert_def sample_verifier_def leaf_key_check_def expected_aaguid_def checkCoseKey_def
        sample_cose_def as_map_def requireCborMap_def extensionValues_def category_allowed_def checkBundleVersion_def sample_key_def)
  with attestation_accepted [OF this] show ?thesis by blast
qed

end
