(* ===== verification/One_Shot.thy ===== *)
theory One_Shot
  imports Main
begin

text \<open>
  The contract of a store of one-time challenges, shared by the App Attest gate and the enrollment
  service: a request that succeeds names a pending challenge and leaves it consumed, and no request
  adds a challenge.  Whatever the order of the requests, no challenge then serves twice.
\<close>

text \<open>The challenges that succeed when the requests are served in order.\<close>

fun served :: "('a \<Rightarrow> 's \<Rightarrow> 's \<times> ('e + 'r)) \<Rightarrow> ('a \<Rightarrow> 'i) \<Rightarrow> 'a list \<Rightarrow> 's \<Rightarrow> 'i list" where
  "served consume named [] s = []"
| "served consume named (a # as) s =
     (case consume a s of (s', Inr r) \<Rightarrow> named a # served consume named as s'
      | (s', Inl e) \<Rightarrow> served consume named as s')"

locale one_shot =
  fixes pending :: "'s \<Rightarrow> 'i set"
    and consume :: "'a \<Rightarrow> 's \<Rightarrow> 's \<times> ('e + 'r)"
    and named :: "'a \<Rightarrow> 'i"
  assumes consume_pending: "snd (consume a s) = Inr r \<Longrightarrow> named a \<in> pending s"
    and consume_gone: "snd (consume a s) = Inr r \<Longrightarrow> named a \<notin> pending (fst (consume a s))"
    and consume_shrinks: "pending (fst (consume a s)) \<subseteq> pending s"
begin

lemma served_pending: "set (served consume named as s) \<subseteq> pending s"
proof (induction as arbitrary: s)
  case (Cons a as)
  obtain s' r where c: "consume a s = (s', r)" by (cases "consume a s")
  with Cons.IH [of s'] consume_shrinks [of a s] consume_pending [of a s]
  show ?case by (cases r) (auto simp: c)
qed simp

lemma served_once: "distinct (served consume named as s)"
proof (induction as arbitrary: s)
  case (Cons a as)
  obtain s' r where c: "consume a s = (s', r)" by (cases "consume a s")
  with Cons.IH [of s'] served_pending [of as s'] consume_gone [of a s]
  show ?case by (cases r) (auto simp: c)
qed simp

lemma second_use_fails:
  assumes "snd (consume a s) = Inr r" and "named b = named a"
  shows "\<exists>e. snd (consume b (fst (consume a s))) = Inl e"
  using consume_gone [OF assms(1)] consume_pending [of b "fst (consume a s)"] assms(2)
  by (cases "snd (consume b (fst (consume a s)))") auto

end

end
