(* ===== verification/Attest_Gate.thy ===== *)
theory Attest_Gate
  imports App_Attest One_Shot
begin

text \<open>
  The App Attest gate of \<^verbatim>\<open>app-attest-gate.ts\<close>: a database of pending challenges and of accepted
  keys.  The two tables are lists of rows; a primary key makes an insert of a present value fail.
  A transaction that fails leaves the tables as they were when it began.  The clock and the random
  source are arguments; where the source reads the clock several times in one operation, each reading
  is an argument of its own.  Every operation returns the new database and a result.
\<close>

section \<open>State\<close>

datatype purpose = ForAttestation | ForAssertion

record ChallengeRow =
  cr_id :: string
  cr_purpose :: purpose
  cr_key_id :: "string option"
  cr_trial_id :: "string option"
  cr_bytes :: bytes
  cr_expires_at :: int

record KeyRow =
  kr_key_id :: string
  kr_public_key_pem :: string
  kr_app_id :: string
  kr_environment :: string
  kr_counter :: int
  kr_validation_category :: "int option"
  kr_bundle_version :: "string option"

record gate_db =
  gd_challenges :: "ChallengeRow list"
  gd_keys :: "KeyRow list"

record AppAttestGate =
  ag_verifier :: AppAttestVerifier
  ag_maxPending :: int

text \<open>A failure is a verification error or a constraint error of the database.\<close>

datatype gate_error = GAttest attest_error | GConstraint

record IssuedAppAttestChallenge =
  ic_id :: string
  ic_bytes :: bytes
  ic_expiresAt :: int

definition gate_fail :: "attest_code \<Rightarrow> gate_error + 'a" where
  "gate_fail code = Inl (GAttest (code, None))"

fun lift_attest :: "attest_error + 'a \<Rightarrow> gate_error + 'a" where
  "lift_attest (Inl e) = Inl (GAttest e)"
| "lift_attest (Inr x) = Inr x"

definition empty_gate_db :: gate_db where
  "empty_gate_db = \<lparr>gd_challenges = [], gd_keys = []\<rparr>"

definition openGate :: "x509 \<Rightarrow> bool \<Rightarrow> AppAttestPolicy \<Rightarrow> jsnum option \<Rightarrow> string \<Rightarrow> gate_error + AppAttestGate" where
  "openGate lib production policy maxPendingChallenges path =
     (let maxPending = (case maxPendingChallenges of None \<Rightarrow> JInt 1024 | Some n \<Rightarrow> n)
      in if \<not> int_in maxPending 1 100000 then gate_fail Invalid_input
         else if path = [] then gate_fail Invalid_input
         else ebind (lift_attest (appAttestVerifier lib production policy)) (\<lambda>v.
           Inr \<lparr>ag_verifier = v, ag_maxPending = jint maxPending\<rparr>))"

section \<open>Challenges\<close>

definition purgeExpiredChallenges :: "int \<Rightarrow> gate_db \<Rightarrow> gate_db" where
  "purgeExpiredChallenges now db = db\<lparr>gd_challenges := filter (\<lambda>r. \<not> cr_expires_at r \<le> now) (gd_challenges db)\<rparr>"

definition discardChallenge :: "string \<Rightarrow> gate_db \<Rightarrow> gate_db" where
  "discardChallenge ident db = db\<lparr>gd_challenges := filter (\<lambda>r. cr_id r \<noteq> ident) (gd_challenges db)\<rparr>"

definition reserve :: "AppAttestGate \<Rightarrow> int \<Rightarrow> int \<Rightarrow> gate_db \<Rightarrow> gate_error + gate_db" where
  "reserve gate now count db =
     (let db' = purgeExpiredChallenges now db
      in if int (length (gd_challenges db')) + count > ag_maxPending gate then gate_fail Challenge_limit
         else Inr db')"

definition insert_challenge :: "ChallengeRow \<Rightarrow> gate_db \<Rightarrow> gate_error + gate_db" where
  "insert_challenge row db =
     (if cr_id row \<in> cr_id ` set (gd_challenges db) then Inl GConstraint
      else Inr (db\<lparr>gd_challenges := gd_challenges db @ [row]\<rparr>))"

definition getKey :: "string \<Rightarrow> gate_db \<Rightarrow> gate_error + VerifiedAppAttestKey option" where
  "getKey keyID db =
     (case find (\<lambda>r. kr_key_id r = keyID) (gd_keys db) of None \<Rightarrow> Inr None
      | Some r \<Rightarrow>
          let key = (\<lambda>env. \<lparr>ak_keyID = kr_key_id r, ak_publicKeyPem = kr_public_key_pem r, ak_appID = kr_app_id r,
                ak_environment = env, ak_counter = kr_counter r, ak_validationCategory = kr_validation_category r,
                ak_bundleVersion = kr_bundle_version r\<rparr>)
          in if kr_environment r = ''development'' then Inr (Some (key Development))
             else if kr_environment r = ''production'' then Inr (Some (key Production))
             else gate_fail Invalid_key)"

text \<open>\<open>t1\<close>, \<open>t2\<close>, \<open>t3\<close> are the clock readings of the purge, of the expiry and of the reservation.\<close>

definition issueChallenge ::
  "AppAttestGate \<Rightarrow> purpose \<Rightarrow> string option \<Rightarrow> string \<Rightarrow> bytes \<Rightarrow> int \<Rightarrow> int \<Rightarrow> int \<Rightarrow> gate_db \<Rightarrow>
     gate_db \<times> (gate_error + IssuedAppAttestChallenge)" where
  "issueChallenge gate purpose keyID uuid random t1 t2 t3 db =
     (if (purpose = ForAssertion \<and> (keyID = None \<or> keyID = Some [])) \<or> (purpose = ForAttestation \<and> keyID \<noteq> None)
      then (db, gate_fail Invalid_input)
      else case (if purpose = ForAssertion then ebind (getKey (the keyID) db) (\<lambda>k.
            if k = None then gate_fail Invalid_key else Inr ()) else Inr ()) of
        Inl e \<Rightarrow> (db, Inl e)
      | Inr _ \<Rightarrow>
          let db = purgeExpiredChallenges t1 db;
              issued = \<lparr>ic_id = uuid, ic_bytes = random, ic_expiresAt = t2 + 300000\<rparr>
          in case ebind (reserve gate t3 1 db) (insert_challenge \<lparr>cr_id = uuid, cr_purpose = purpose, cr_key_id = keyID,
                cr_trial_id = None, cr_bytes = random, cr_expires_at = t2 + 300000\<rparr>) of
               Inl e \<Rightarrow> (db, Inl e)
             | Inr db' \<Rightarrow> (db', Inr issued))"

record IssuedAppAttestTrial =
  it_session :: string
  it_attestation :: IssuedAppAttestChallenge
  it_firstAssertion :: IssuedAppAttestChallenge
  it_secondAssertion :: IssuedAppAttestChallenge

definition trial_row :: "purpose \<Rightarrow> string \<Rightarrow> IssuedAppAttestChallenge \<Rightarrow> ChallengeRow" where
  "trial_row purpose session c = \<lparr>cr_id = ic_id c, cr_purpose = purpose, cr_key_id = None,
     cr_trial_id = Some session, cr_bytes = ic_bytes c, cr_expires_at = ic_expiresAt c\<rparr>"

text \<open>The three challenges are given with the identifier, bytes and expiry the source draws for them.\<close>

definition issueTrial ::
  "AppAttestGate \<Rightarrow> string \<Rightarrow> IssuedAppAttestChallenge \<Rightarrow> IssuedAppAttestChallenge \<Rightarrow> IssuedAppAttestChallenge \<Rightarrow>
     int \<Rightarrow> int \<Rightarrow> gate_db \<Rightarrow> gate_db \<times> (gate_error + IssuedAppAttestTrial)" where
  "issueTrial gate session attestation firstAssertion secondAssertion t1 t2 db =
     (let db = purgeExpiredChallenges t1 db
      in case ebind (reserve gate t2 3 db) (\<lambda>d.
           ebind (insert_challenge (trial_row ForAttestation session attestation) d) (\<lambda>d.
           ebind (insert_challenge (trial_row ForAssertion session firstAssertion) d)
             (insert_challenge (trial_row ForAssertion session secondAssertion)))) of
         Inl e \<Rightarrow> (db, Inl e)
       | Inr d \<Rightarrow> (d, Inr \<lparr>it_session = session, it_attestation = attestation,
           it_firstAssertion = firstAssertion, it_secondAssertion = secondAssertion\<rparr>))"

text \<open>Consumption purges at \<open>t1\<close>, deletes and commits, and only then checks the row, at \<open>t2\<close>.\<close>

definition consumeChallenge ::
  "string \<Rightarrow> purpose \<Rightarrow> string option \<Rightarrow> int \<Rightarrow> int \<Rightarrow> gate_db \<Rightarrow> gate_db \<times> (gate_error + ChallengeRow)" where
  "consumeChallenge ident purpose keyID t1 t2 db =
     (if ident = [] then (db, gate_fail Invalid_input)
      else let db = purgeExpiredChallenges t1 db;
               row = find (\<lambda>r. cr_id r = ident) (gd_challenges db);
               db = discardChallenge ident db
           in case row of None \<Rightarrow> (db, gate_fail Invalid_input)
              | Some r \<Rightarrow> if cr_purpose r \<noteq> purpose \<or> cr_key_id r \<noteq> keyID \<or> cr_expires_at r \<le> t2
                  then (db, gate_fail Invalid_input) else (db, Inr r))"

section \<open>Accepting\<close>

fun environment_text :: "AppAttestEnvironment \<Rightarrow> string" where
  "environment_text Development = ''development''"
| "environment_text Production = ''production''"

definition key_row :: "VerifiedAppAttestKey \<Rightarrow> KeyRow" where
  "key_row k = \<lparr>kr_key_id = ak_keyID k, kr_public_key_pem = ak_publicKeyPem k, kr_app_id = ak_appID k,
     kr_environment = environment_text (ak_environment k), kr_counter = ak_counter k,
     kr_validation_category = ak_validationCategory k, kr_bundle_version = ak_bundleVersion k\<rparr>"

text \<open>\<^verbatim>\<open>UPDATE ... WHERE trial_id = ?\<close> matches no row when the parameter is NULL.\<close>

definition bind_trial :: "string \<Rightarrow> string option \<Rightarrow> ChallengeRow \<Rightarrow> ChallengeRow" where
  "bind_trial keyID trial r =
     (if trial \<noteq> None \<and> cr_trial_id r = trial \<and> cr_purpose r = ForAssertion then r\<lparr>cr_key_id := Some keyID\<rparr> else r)"

definition acceptAttestation ::
  "x509 \<Rightarrow> AppAttestGate \<Rightarrow> string \<Rightarrow> string \<Rightarrow> bytes \<Rightarrow> int \<Rightarrow> int \<Rightarrow> int \<Rightarrow> gate_db \<Rightarrow>
     gate_db \<times> (gate_error + VerifiedAppAttestKey)" where
  "acceptAttestation lib gate challengeID keyID object t1 t2 t3 db =
     (case consumeChallenge challengeID ForAttestation None t1 t2 db of
        (db, Inl e) \<Rightarrow> (db, Inl e)
      | (db, Inr challenge) \<Rightarrow>
          (case verifyAttestation lib (ag_verifier gate) t3 keyID object (cr_bytes challenge) of
             Inl e \<Rightarrow> (db, Inl (GAttest e))
           | Inr verified \<Rightarrow>
               if ak_keyID verified \<in> kr_key_id ` set (gd_keys db) then (db, gate_fail Invalid_key)
               else (db\<lparr>gd_keys := gd_keys db @ [key_row verified],
                   gd_challenges := map (bind_trial (ak_keyID verified) (cr_trial_id challenge)) (gd_challenges db)\<rparr>,
                 Inr verified)))"

definition counter_hit :: "string \<Rightarrow> int \<Rightarrow> KeyRow \<Rightarrow> bool" where
  "counter_hit keyID counter r = (kr_key_id r = keyID \<and> kr_counter r = counter)"

definition update_counter :: "string \<Rightarrow> int \<Rightarrow> VerifiedAppAttestKey \<Rightarrow> gate_db \<Rightarrow> gate_db" where
  "update_counter keyID counter verified db =
     db\<lparr>gd_keys := map (\<lambda>r. if counter_hit keyID counter r
        then r\<lparr>kr_counter := ak_counter verified, kr_bundle_version := ak_bundleVersion verified\<rparr> else r) (gd_keys db)\<rparr>"

definition acceptAssertion ::
  "x509 \<Rightarrow> AppAttestGate \<Rightarrow> string \<Rightarrow> string \<Rightarrow> bytes \<Rightarrow> int \<Rightarrow> int \<Rightarrow> gate_db \<Rightarrow>
     gate_db \<times> (gate_error + VerifiedAppAttestKey)" where
  "acceptAssertion lib gate challengeID keyID object t1 t2 db =
     (case consumeChallenge challengeID ForAssertion (Some keyID) t1 t2 db of
        (db, Inl e) \<Rightarrow> (db, Inl e)
      | (db, Inr challenge) \<Rightarrow>
          (case getKey keyID db of
             Inl e \<Rightarrow> (db, Inl e)
           | Inr None \<Rightarrow> (db, gate_fail Invalid_key)
           | Inr (Some key) \<Rightarrow>
               (case verifyAssertion lib (ag_verifier gate) key object (cr_bytes challenge) False of
                  Inl e \<Rightarrow> (db, Inl (GAttest e))
                | Inr verified \<Rightarrow>
                    (update_counter keyID (ak_counter key) verified db,
                     if length (filter (counter_hit keyID (ak_counter key)) (gd_keys db)) \<noteq> 1
                     then gate_fail Invalid_counter else Inr verified))))"

section \<open>Requests and runs\<close>

datatype gate_request =
    AttestationRequest string string bytes int int int
  | AssertionRequest string string bytes int int

fun gate_accept :: "x509 \<Rightarrow> AppAttestGate \<Rightarrow> gate_request \<Rightarrow> gate_db \<Rightarrow> gate_db \<times> (gate_error + VerifiedAppAttestKey)" where
  "gate_accept lib gate (AttestationRequest c k ob t1 t2 t3) db = acceptAttestation lib gate c k ob t1 t2 t3 db"
| "gate_accept lib gate (AssertionRequest c k ob t1 t2) db = acceptAssertion lib gate c k ob t1 t2 db"

fun request_challenge :: "gate_request \<Rightarrow> string" where
  "request_challenge (AttestationRequest c k ob t1 t2 t3) = c"
| "request_challenge (AssertionRequest c k ob t1 t2) = c"

text \<open>Everything the gate can do to its database, in any order and at any times.\<close>

inductive gate_step :: "x509 \<Rightarrow> AppAttestGate \<Rightarrow> gate_db \<Rightarrow> gate_db \<Rightarrow> bool" for lib gate where
  purge: "gate_step lib gate db (purgeExpiredChallenges t db)"
| discard: "gate_step lib gate db (discardChallenge ident db)"
| issue: "gate_step lib gate db (fst (issueChallenge gate p k u b t1 t2 t3 db))"
| trial: "gate_step lib gate db (fst (issueTrial gate session a1 a2 a3 t1 t2 db))"
| attest: "gate_step lib gate db (fst (acceptAttestation lib gate c k ob t1 t2 t3 db))"
| assert: "gate_step lib gate db (fst (acceptAssertion lib gate c k ob t1 t2 db))"

inductive gate_run :: "x509 \<Rightarrow> AppAttestGate \<Rightarrow> gate_db \<Rightarrow> gate_db \<Rightarrow> bool" for lib gate where
  refl: "gate_run lib gate db db"
| step: "gate_run lib gate db db' \<Longrightarrow> gate_step lib gate db' db'' \<Longrightarrow> gate_run lib gate db db''"

section \<open>Consumption\<close>

definition pending_ids :: "gate_db \<Rightarrow> string set" where
  "pending_ids db = cr_id ` set (gd_challenges db)"

lemma pending_purge: "pending_ids (purgeExpiredChallenges t db) \<subseteq> pending_ids db"
  by (auto simp: pending_ids_def purgeExpiredChallenges_def)

lemma pending_discard: "pending_ids (discardChallenge i db) = pending_ids db - {i}"
  by (auto simp: pending_ids_def discardChallenge_def)

lemma consume_db:
  "fst (consumeChallenge i p k t1 t2 db) = (if i = [] then db else discardChallenge i (purgeExpiredChallenges t1 db))"
  by (auto simp: consumeChallenge_def Let_def split: option.splits)

lemma consume_success:
  assumes "snd (consumeChallenge i p k t1 t2 db) = Inr r"
  shows "r \<in> set (gd_challenges db) \<and> cr_id r = i \<and> cr_purpose r = p \<and> cr_key_id r = k \<and> t1 < cr_expires_at r \<and>
    t2 < cr_expires_at r \<and> i \<noteq> []"
proof -
  from assms have i: "i \<noteq> []" and f: "find (\<lambda>r. cr_id r = i) (gd_challenges (purgeExpiredChallenges t1 db)) = Some r"
    and g: "cr_purpose r = p" "cr_key_id r = k" "\<not> cr_expires_at r \<le> t2"
    by (auto simp: consumeChallenge_def Let_def gate_fail_def split: if_splits option.splits)
  from find_SomeD [OF f] have "r \<in> set (gd_challenges (purgeExpiredChallenges t1 db))" "cr_id r = i" by auto
  with i g show ?thesis by (auto simp: purgeExpiredChallenges_def)
qed

lemma consume_pending_ids:
  "pending_ids (fst (consumeChallenge i p k t1 t2 db)) \<subseteq> pending_ids db"
  "snd (consumeChallenge i p k t1 t2 db) = Inr r \<Longrightarrow>
     i \<in> pending_ids db \<and> i \<notin> pending_ids (fst (consumeChallenge i p k t1 t2 db))"
proof -
  show "pending_ids (fst (consumeChallenge i p k t1 t2 db)) \<subseteq> pending_ids db"
    using pending_purge [of t1 db] by (auto simp: consume_db pending_discard)
  assume "snd (consumeChallenge i p k t1 t2 db) = Inr r"
  from consume_success [OF this] show "i \<in> pending_ids db \<and> i \<notin> pending_ids (fst (consumeChallenge i p k t1 t2 db))"
    by (auto simp: consume_db pending_discard) (auto simp: pending_ids_def)
qed

text \<open>Accepting changes the challenge table only by consuming, up to the key a trial is bound to.\<close>

lemma pending_bind: "cr_id (bind_trial k t r) = cr_id r"
  by (simp add: bind_trial_def)

lemma attest_pending:
  "pending_ids (fst (acceptAttestation lib gate c k ob t1 t2 t3 db)) =
     pending_ids (fst (consumeChallenge c ForAttestation None t1 t2 db))"
  by (auto simp: acceptAttestation_def pending_ids_def pending_bind image_image
      split: prod.splits sum.splits if_splits)

lemma assert_challenges:
  "gd_challenges (fst (acceptAssertion lib gate c k ob t1 t2 db)) =
     gd_challenges (fst (consumeChallenge c ForAssertion (Some k) t1 t2 db))"
  by (auto simp: acceptAssertion_def update_counter_def split: prod.splits sum.splits option.splits)

lemma attest_success:
  assumes "snd (acceptAttestation lib gate c k ob t1 t2 t3 db) = Inr key"
  obtains r where "snd (consumeChallenge c ForAttestation None t1 t2 db) = Inr r"
    "verifyAttestation lib (ag_verifier gate) t3 k ob (cr_bytes r) = Inr key"
  using assms by (auto simp: acceptAttestation_def gate_fail_def split: prod.splits sum.splits if_splits)

lemma assert_success:
  assumes "snd (acceptAssertion lib gate c k ob t1 t2 db) = Inr key"
  obtains r old where "snd (consumeChallenge c ForAssertion (Some k) t1 t2 db) = Inr r"
    "getKey k (fst (consumeChallenge c ForAssertion (Some k) t1 t2 db)) = Inr (Some old)"
    "verifyAssertion lib (ag_verifier gate) old ob (cr_bytes r) False = Inr key"
  using assms by (auto simp: acceptAssertion_def gate_fail_def split: prod.splits sum.splits if_splits option.splits)

lemma assert_pending:
  "pending_ids (fst (acceptAssertion lib gate c k ob t1 t2 db)) =
     pending_ids (fst (consumeChallenge c ForAssertion (Some k) t1 t2 db))"
  by (simp add: pending_ids_def assert_challenges)

text \<open>Each request consumes its challenge the way its purpose demands.\<close>

lemma gate_accept_consumes:
  obtains p k t1 t2 where
    "pending_ids (fst (gate_accept lib g a s)) = pending_ids (fst (consumeChallenge (request_challenge a) p k t1 t2 s))"
    "(\<exists>key. snd (gate_accept lib g a s) = Inr key) \<longrightarrow>
       (\<exists>r. snd (consumeChallenge (request_challenge a) p k t1 t2 s) = Inr r)"
proof (cases a)
  case (AttestationRequest c k ob t1 t2 t3)
  then show thesis
    using that [of ForAttestation None t1 t2] by (auto simp: attest_pending elim!: attest_success)
next
  case (AssertionRequest c k ob t1 t2)
  then show thesis
    using that [of ForAssertion "Some k" t1 t2] by (auto simp: assert_pending elim!: assert_success)
qed

interpretation gate: one_shot pending_ids "gate_accept lib g" request_challenge for lib g
proof
  fix a s r
  assume ok: "snd (gate_accept lib g a s) = Inr r"
  obtain p k t1 t2 where
    eq: "pending_ids (fst (gate_accept lib g a s)) = pending_ids (fst (consumeChallenge (request_challenge a) p k t1 t2 s))"
    and "(\<exists>key. snd (gate_accept lib g a s) = Inr key) \<longrightarrow>
      (\<exists>r. snd (consumeChallenge (request_challenge a) p k t1 t2 s) = Inr r)"
    by (rule gate_accept_consumes)
  with ok have "request_challenge a \<in> pending_ids s \<and>
      request_challenge a \<notin> pending_ids (fst (consumeChallenge (request_challenge a) p k t1 t2 s))"
    using consume_pending_ids(2) by blast
  then show "request_challenge a \<in> pending_ids s" "request_challenge a \<notin> pending_ids (fst (gate_accept lib g a s))"
    unfolding eq by simp_all
next
  fix a s
  show "pending_ids (fst (gate_accept lib g a s)) \<subseteq> pending_ids s"
    by (rule gate_accept_consumes [of lib g a s]) (use consume_pending_ids(1) in blast)
qed

section \<open>Invariant\<close>

definition key_row_ok :: "AppAttestGate \<Rightarrow> KeyRow \<Rightarrow> bool" where
  "key_row_ok gate r = (0 \<le> kr_counter r \<and> kr_counter r < 2 ^ 32 \<and>
     kr_app_id r = ap_appID (av_policy (ag_verifier gate)) \<and>
     kr_environment r = environment_text (ap_environment (av_policy (ag_verifier gate))))"

definition gate_inv :: "AppAttestGate \<Rightarrow> gate_db \<Rightarrow> bool" where
  "gate_inv gate db = (distinct (map cr_id (gd_challenges db)) \<and>
     int (length (gd_challenges db)) \<le> ag_maxPending gate \<and>
     distinct (map kr_key_id (gd_keys db)) \<and> list_all (key_row_ok gate) (gd_keys db))"

lemma inv_purge: "gate_inv gate db \<Longrightarrow> gate_inv gate (purgeExpiredChallenges t db)"
  by (auto simp: gate_inv_def purgeExpiredChallenges_def intro: distinct_map_filter length_filter_bound)

lemma inv_discard: "gate_inv gate db \<Longrightarrow> gate_inv gate (discardChallenge i db)"
  by (auto simp: gate_inv_def discardChallenge_def intro: distinct_map_filter length_filter_bound)

lemma inv_consume: "gate_inv gate db \<Longrightarrow> gate_inv gate (fst (consumeChallenge i p k t1 t2 db))"
  by (simp add: consume_db inv_purge inv_discard)

text \<open>Room for \<open>n\<close> more challenges, which a reservation secures and an insertion uses up.\<close>

definition gate_room :: "AppAttestGate \<Rightarrow> int \<Rightarrow> gate_db \<Rightarrow> bool" where
  "gate_room gate n db = (gate_inv gate db \<and> int (length (gd_challenges db)) + n \<le> ag_maxPending gate)"

lemma reserve_room: "gate_inv gate db \<Longrightarrow> reserve gate t n db = Inr db' \<Longrightarrow> gate_room gate n db'"
  by (auto simp: reserve_def gate_room_def gate_fail_def Let_def inv_purge split: if_splits)

lemma insert_room: "gate_room gate (n + 1) db \<Longrightarrow> 0 \<le> n \<Longrightarrow> insert_challenge row db = Inr db' \<Longrightarrow> gate_room gate n db'"
  by (auto simp: insert_challenge_def gate_room_def gate_inv_def image_iff split: if_splits)

lemma room_inv: "gate_room gate n db \<Longrightarrow> gate_inv gate db"
  by (simp add: gate_room_def)

lemma inv_issue:
  assumes "gate_inv gate db"
  shows "gate_inv gate (fst (issueChallenge gate p k u b t1 t2 t3 db))"
proof -
  note inv = inv_purge [OF assms, of t1]
  have "gate_inv gate d" if "ebind (reserve gate t3 1 (purgeExpiredChallenges t1 db)) (insert_challenge row) = Inr d" for row d
    using that reserve_room [OF inv, of t3 1] insert_room [of gate 0] room_inv by (fastforce simp: ebind_eq_Inr)
  with inv assms show ?thesis by (auto simp: issueChallenge_def Let_def split: sum.splits)
qed

lemma inv_trial:
  assumes "gate_inv gate db"
  shows "gate_inv gate (fst (issueTrial gate session a1 a2 a3 t1 t2 db))"
proof -
  note inv = inv_purge [OF assms, of t1]
  have "gate_inv gate d" if "ebind (reserve gate t2 3 (purgeExpiredChallenges t1 db)) (\<lambda>d.
      ebind (insert_challenge r1 d) (\<lambda>d. ebind (insert_challenge r2 d) (insert_challenge r3))) = Inr d" for r1 r2 r3 d
  proof -
    from that obtain d0 d1 d2 where d: "reserve gate t2 3 (purgeExpiredChallenges t1 db) = Inr d0"
      "insert_challenge r1 d0 = Inr d1" "insert_challenge r2 d1 = Inr d2" "insert_challenge r3 d2 = Inr d"
      by (auto simp: ebind_eq_Inr)
    from reserve_room [OF inv d(1)] have "gate_room gate 2 d1" using insert_room [of gate 2 d0 r1 d1] d by simp
    then have "gate_room gate 1 d2" using insert_room [of gate 1 d1 r2 d2] d by simp
    then have "gate_room gate 0 d" using insert_room [of gate 0 d2 r3 d] d by simp
    then show ?thesis by (rule room_inv)
  qed
  with inv show ?thesis by (auto simp: issueTrial_def Let_def split: sum.splits)
qed

lemma getKey_Some:
  assumes "getKey k db = Inr (Some old)"
  obtains r where "r \<in> set (gd_keys db)" "kr_key_id r = k" "ak_keyID old = k" "kr_counter r = ak_counter old"
  using assms by (auto simp: getKey_def Let_def gate_fail_def dest!: find_SomeD split: option.splits if_splits)

lemma inv_attest:
  assumes "gate_inv gate db"
  shows "gate_inv gate (fst (acceptAttestation lib gate c k ob t1 t2 t3 db))"
proof (cases "snd (acceptAttestation lib gate c k ob t1 t2 t3 db)")
  case (Inl e)
  then show ?thesis using inv_consume [OF assms, of c ForAttestation None t1 t2]
    by (auto simp: acceptAttestation_def split: prod.splits sum.splits if_splits)
next
  case (Inr key)
  then obtain db' r where c: "consumeChallenge c ForAttestation None t1 t2 db = (db', Inr r)"
    and v: "verifyAttestation lib (ag_verifier gate) t3 k ob (cr_bytes r) = Inr key"
    and new: "ak_keyID key \<notin> kr_key_id ` set (gd_keys db')"
    by (auto simp: acceptAttestation_def gate_fail_def split: prod.splits sum.splits if_splits)
  have "key_row_ok gate (key_row key)"
    by (rule attestation_accepted_parts [OF v]) (simp add: key_row_ok_def key_row_def)
  moreover have "gate_inv gate db'" using inv_consume [OF assms, of c ForAttestation None t1 t2] c by simp
  ultimately show ?thesis
    using new c v by (auto simp: acceptAttestation_def gate_inv_def key_row_def pending_bind comp_def)
qed

lemma inv_update:
  assumes "gate_inv gate db" and "0 \<le> ak_counter v" and "ak_counter v < 2 ^ 32"
  shows "gate_inv gate (update_counter k n v db)"
proof -
  have "map kr_key_id (gd_keys (update_counter k n v db)) = map kr_key_id (gd_keys db)"
    by (simp add: update_counter_def)
  moreover have "list_all (key_row_ok gate) (gd_keys (update_counter k n v db))"
    using assms by (auto simp: update_counter_def gate_inv_def list_all_iff key_row_ok_def)
  ultimately show ?thesis using assms(1) by (simp add: gate_inv_def) (simp add: update_counter_def)
qed

text \<open>An accepted assertion in a state that satisfies the invariant: the stored row and the counter.\<close>

lemma assertion_counter:
  assumes "gate_inv gate db" and "getKey k db = Inr (Some old)"
    and "verifyAssertion lib (ag_verifier gate) old ob ch False = Inr v"
  shows "0 \<le> ak_counter old" "ak_counter old < ak_counter v" "ak_counter v < 2 ^ 32"
proof -
  obtain r where "r \<in> set (gd_keys db)" "kr_counter r = ak_counter old" using assms(2) by (rule getKey_Some)
  with assms(1) show "0 \<le> ak_counter old" by (auto simp: gate_inv_def list_all_iff key_row_ok_def)
  from assms(3) show "ak_counter old < ak_counter v" "ak_counter v < 2 ^ 32"
    by (rule assertion_accepted_parts, use parse_assertion u32_field in fastforce)+
qed

lemma inv_assert:
  assumes "gate_inv gate db"
  shows "gate_inv gate (fst (acceptAssertion lib gate c k ob t1 t2 db))"
proof -
  obtain db' res where c: "consumeChallenge c ForAssertion (Some k) t1 t2 db = (db', res)" by (cases "consumeChallenge c ForAssertion (Some k) t1 t2 db")
  have inv: "gate_inv gate db'" using inv_consume [OF assms, of c ForAssertion "Some k" t1 t2] c by simp
  have "gate_inv gate (update_counter k (ak_counter old) v db')"
    if "getKey k db' = Inr (Some old)" "verifyAssertion lib (ag_verifier gate) old ob ch False = Inr v" for old ch v
    using assertion_counter [OF inv that] inv by (intro inv_update) auto
  with inv show ?thesis by (auto simp: acceptAssertion_def c split: sum.splits option.splits)
qed

lemma inv_step: "gate_step lib gate db db' \<Longrightarrow> gate_inv gate db \<Longrightarrow> gate_inv gate db'"
  by (induction rule: gate_step.induct) (simp_all add: inv_purge inv_discard inv_issue inv_trial inv_attest inv_assert)

lemma inv_run: "gate_run lib gate db db' \<Longrightarrow> gate_inv gate db \<Longrightarrow> gate_inv gate db'"
  by (induction rule: gate_run.induct) (auto dest: inv_step)

section \<open>Keys are kept and their counters only grow\<close>

definition same_key :: "KeyRow \<Rightarrow> KeyRow \<Rightarrow> bool" where
  "same_key r r' = (kr_key_id r' = kr_key_id r \<and> kr_public_key_pem r' = kr_public_key_pem r \<and>
     kr_app_id r' = kr_app_id r \<and> kr_environment r' = kr_environment r \<and>
     kr_validation_category r' = kr_validation_category r)"

definition keys_advance :: "gate_db \<Rightarrow> gate_db \<Rightarrow> bool" where
  "keys_advance db db' = (\<forall>r \<in> set (gd_keys db). \<exists>r' \<in> set (gd_keys db'). same_key r r' \<and> kr_counter r \<le> kr_counter r')"

lemma keys_advance_refl: "gd_keys db' = gd_keys db \<Longrightarrow> keys_advance db db'"
  by (auto simp: keys_advance_def same_key_def)

lemma keys_advance_trans: "keys_advance a b \<Longrightarrow> keys_advance b c \<Longrightarrow> keys_advance a c"
  unfolding keys_advance_def same_key_def by (metis order_trans)

lemma keys_purge: "gd_keys (purgeExpiredChallenges t db) = gd_keys db"
  by (simp add: purgeExpiredChallenges_def)

lemma keys_consume: "gd_keys (fst (consumeChallenge i p k t1 t2 db)) = gd_keys db"
  by (simp add: consume_db discardChallenge_def purgeExpiredChallenges_def)

lemma keys_reserve: "reserve gate t n db = Inr d \<Longrightarrow> gd_keys d = gd_keys db"
  by (auto simp: reserve_def Let_def gate_fail_def keys_purge split: if_splits)

lemma keys_insert: "insert_challenge row db = Inr d \<Longrightarrow> gd_keys d = gd_keys db"
  by (auto simp: insert_challenge_def split: if_splits)

lemma keys_issue: "gd_keys (fst (issueChallenge gate p k u b t1 t2 t3 db)) = gd_keys db"
  by (auto simp: issueChallenge_def Let_def ebind_eq_Inr keys_purge dest!: keys_reserve keys_insert split: sum.splits)

lemma keys_trial: "gd_keys (fst (issueTrial gate session a1 a2 a3 t1 t2 db)) = gd_keys db"
  by (auto simp: issueTrial_def Let_def ebind_eq_Inr keys_purge dest!: keys_reserve keys_insert split: sum.splits)

lemma advance_attest: "keys_advance db (fst (acceptAttestation lib gate c k ob t1 t2 t3 db))"
proof -
  have "set (gd_keys db) \<subseteq> set (gd_keys (fst (acceptAttestation lib gate c k ob t1 t2 t3 db)))"
    using keys_consume [of c ForAttestation None t1 t2 db]
    by (auto simp: acceptAttestation_def split: prod.splits sum.splits)
  then show ?thesis by (auto simp: keys_advance_def same_key_def)
qed

lemma advance_update:
  assumes "n \<le> ak_counter v"
  shows "keys_advance db (update_counter k n v db)"
  unfolding keys_advance_def
proof
  fix r
  assume r: "r \<in> set (gd_keys db)"
  let ?r = "if counter_hit k n r then r\<lparr>kr_counter := ak_counter v, kr_bundle_version := ak_bundleVersion v\<rparr> else r"
  have "?r \<in> set (gd_keys (update_counter k n v db))" using r by (simp add: update_counter_def)
  moreover have "same_key r ?r \<and> kr_counter r \<le> kr_counter ?r"
    using assms by (auto simp: same_key_def counter_hit_def)
  ultimately show "\<exists>r' \<in> set (gd_keys (update_counter k n v db)). same_key r r' \<and> kr_counter r \<le> kr_counter r'" by blast
qed

lemma advance_assert: "keys_advance db (fst (acceptAssertion lib gate c k ob t1 t2 db))"
proof -
  obtain db' res where c: "consumeChallenge c ForAssertion (Some k) t1 t2 db = (db', res)"
    by (cases "consumeChallenge c ForAssertion (Some k) t1 t2 db")
  have k: "keys_advance db db'" using keys_consume [of c ForAssertion "Some k" t1 t2 db] c by (simp add: keys_advance_refl)
  have "keys_advance db (update_counter k (ak_counter old) v db')"
    if "verifyAssertion lib (ag_verifier gate) old ob ch False = Inr v" for old ch v
    using that by (rule assertion_accepted_parts) (use keys_advance_trans [OF k advance_update] in auto)
  with k show ?thesis by (auto simp: acceptAssertion_def c split: sum.splits option.splits)
qed

lemma advance_step: "gate_step lib gate db db' \<Longrightarrow> keys_advance db db'"
  by (induction rule: gate_step.induct)
    (simp_all add: advance_attest advance_assert keys_advance_refl keys_purge keys_issue keys_trial discardChallenge_def)

lemma advance_run: "gate_run lib gate db db' \<Longrightarrow> keys_advance db db'"
  by (induction rule: gate_run.induct) (auto intro: keys_advance_refl keys_advance_trans advance_step)

section \<open>Properties\<close>

text \<open>C16. Challenges are one-time: whatever attestations and assertions are submitted, in whatever
  order and at whatever times, the challenges that get accepted are pairwise distinct.\<close>

theorem gate_challenges_one_shot:
  "distinct (served (gate_accept lib gate) request_challenge requests db)"
  by (rule gate.served_once)

text \<open>C18. Whatever an opened gate does, its database stays consistent: pending challenges have
  distinct identifiers and never exceed the configured limit, keys have distinct identifiers, belong
  to the configured app and environment, and their counters are 32-bit values.\<close>

theorem gate_reachable_inv:
  assumes "openGate lib production policy limit path = Inr gate" and "gate_run lib gate empty_gate_db db"
  shows "gate_inv gate db"
proof -
  have "0 \<le> ag_maxPending gate"
    using assms(1) by (auto simp: openGate_def Let_def gate_fail_def ebind_eq_Inr split: if_splits option.splits)
  then have "gate_inv gate empty_gate_db" by (simp add: gate_inv_def empty_gate_db_def)
  with assms(2) show ?thesis by (rule inv_run)
qed

text \<open>C17. A key, once accepted, is never lost or altered: in every later state it is present with the
  same public key, app, environment and category, and a counter at least as large; an accepted
  assertion leaves a strictly larger counter, the one it returns.\<close>

theorem gate_keys_advance:
  assumes "gate_run lib gate db db1" and "acceptAssertion lib gate c k ob t1 t2 db1 = (db2, Inr v)"
  shows "keys_advance db db1 \<and> keys_advance db1 db2 \<and>
    (\<exists>r \<in> set (gd_keys db1). \<exists>r' \<in> set (gd_keys db2). same_key r r' \<and> kr_key_id r = k \<and>
      kr_counter r < kr_counter r' \<and> kr_counter r' = ak_counter v)"
proof -
  obtain row old where s: "snd (consumeChallenge c ForAssertion (Some k) t1 t2 db1) = Inr row"
      "getKey k (fst (consumeChallenge c ForAssertion (Some k) t1 t2 db1)) = Inr (Some old)"
      "verifyAssertion lib (ag_verifier gate) old ob (cr_bytes row) False = Inr v"
    using assms(2) by (auto intro: assert_success [of lib gate c k ob t1 t2 db1 v])
  let ?d = "fst (consumeChallenge c ForAssertion (Some k) t1 t2 db1)"
  have d2: "db2 = update_counter k (ak_counter old) v ?d"
    using assms(2) s by (auto simp: acceptAssertion_def split: prod.splits sum.splits)
  obtain r where r: "r \<in> set (gd_keys ?d)" "kr_key_id r = k" "kr_counter r = ak_counter old"
    using s(2) by (rule getKey_Some)
  let ?r = "r\<lparr>kr_counter := ak_counter v, kr_bundle_version := ak_bundleVersion v\<rparr>"
  have "?r \<in> set (gd_keys db2)" unfolding d2 update_counter_def using r by (auto simp: counter_hit_def image_iff)
  moreover have "ak_counter old < ak_counter v" using s(3) by (rule assertion_accepted_parts) simp
  ultimately have "\<exists>r \<in> set (gd_keys db1). \<exists>r' \<in> set (gd_keys db2). same_key r r' \<and> kr_key_id r = k \<and>
      kr_counter r < kr_counter r' \<and> kr_counter r' = ak_counter v"
    using r by (intro bexI [of _ r] bexI [of _ ?r]) (auto simp: same_key_def keys_consume)
  with advance_run [OF assms(1)] advance_assert [of db1 lib gate c k ob t1 t2] assms(2) show ?thesis by simp
qed

definition sample_policy :: AppAttestPolicy where
  "sample_policy = \<lparr>ap_appID = ''ABCDEFGHIJ.app'', ap_environment = Production,
     ap_allowedValidationCategories = [2], ap_allowedBundleVersions = []\<rparr>"

theorem gate_reachable_inv_witness:
  "\<exists>gate db. openGate sample_x509 True sample_policy None ''x'' = Inr gate \<and> gate_inv gate db \<and>
     pending_ids db = {''c''}"
proof -
  define gate where "gate = \<lparr>ag_verifier = \<lparr>av_policy = sample_policy, av_rpID = zeros 32\<rparr>, ag_maxPending = 1024\<rparr>"
  define db where "db = fst (issueChallenge gate ForAttestation None ''c'' (zeros 32) 0 0 0 empty_gate_db)"
  have g: "openGate sample_x509 True sample_policy None ''x'' = Inr gate"
    by (simp add: openGate_def appAttestVerifier_def sample_policy_def app_id_pattern_def sample_x509_def gate_def
        list_all_iff)
  have "gate_run sample_x509 gate empty_gate_db db"
    unfolding db_def by (rule gate_run.step [OF gate_run.refl gate_step.issue])
  from gate_reachable_inv [OF g this] g show ?thesis
    by (auto simp: db_def issueChallenge_def Let_def reserve_def purgeExpiredChallenges_def empty_gate_db_def
        insert_challenge_def gate_def pending_ids_def)
qed

definition sample_gate :: AppAttestGate where
  "sample_gate = \<lparr>ag_verifier = sample_verifier, ag_maxPending = 8\<rparr>"

definition sample_gate_db :: gate_db where
  "sample_gate_db = \<lparr>gd_challenges = [\<lparr>cr_id = ''c'', cr_purpose = ForAssertion, cr_key_id = Some (b64_enc (zeros 32)),
     cr_trial_id = None, cr_bytes = zeros 32, cr_expires_at = 100\<rparr>], gd_keys = [key_row (sample_key 3)]\<rparr>"

theorem gate_keys_advance_witness:
  "\<exists>db2 v. acceptAssertion sample_x509 sample_gate ''c'' (b64_enc (zeros 32)) sample_assertion 1 2 sample_gate_db = (db2, Inr v) \<and>
     keys_advance sample_gate_db db2 \<and> ak_counter v = 5"
proof -
  have v: "verifyAssertion sample_x509 sample_verifier (sample_key 3) sample_assertion (zeros 32) False = Inr (sample_key 5)"
    by (rule sample_assertion_verified)
  have c: "consumeChallenge ''c'' ForAssertion (Some (b64_enc (zeros 32))) 1 2 sample_gate_db =
      (\<lparr>gd_challenges = [], gd_keys = [key_row (sample_key 3)]\<rparr>, Inr (hd (gd_challenges sample_gate_db)))"
    by (simp add: consumeChallenge_def sample_gate_db_def purgeExpiredChallenges_def discardChallenge_def)
  have k: "getKey (b64_enc (zeros 32)) \<lparr>gd_challenges = [], gd_keys = [key_row (sample_key 3)]\<rparr> = Inr (Some (sample_key 3))"
    by (simp add: getKey_def key_row_def sample_key_def)
  have b: "cr_bytes (hd (gd_challenges sample_gate_db)) = zeros 32" by (simp add: sample_gate_db_def)
  have h: "counter_hit (b64_enc (zeros 32)) (ak_counter (sample_key 3)) (key_row (sample_key 3))"
    by (simp add: counter_hit_def key_row_def sample_key_def)
  obtain db2 where a: "acceptAssertion sample_x509 sample_gate ''c'' (b64_enc (zeros 32)) sample_assertion 1 2 sample_gate_db =
      (db2, Inr (sample_key 5))"
    by (simp add: acceptAssertion_def c k v b h sample_gate_def)
  from gate_keys_advance [OF gate_run.refl a] a show ?thesis by (auto simp: sample_key_def)
qed

end
