(* ===== verification/Enrollment.thy ===== *)
theory Enrollment
  imports Circuits Attest_Gate Merkle
begin

text \<open>
  The observer enrollment service of \<^verbatim>\<open>observer-enrollment.ts\<close>: one-time challenges, enrollments, the
  Poseidon Merkle tree of depth 20 kept node by node in a table, the root history and the event log.
  The service holds a gate only through its interface, so the gate is the record of operations
  \<open>gate_ops\<close> over a gate state of any type; \<open>app_attest_ops\<close> fills it with the gate of \<open>Attest_Gate\<close>.
  Poseidon (circomlibjs) is a parameter.  Tables are lists of rows, the node table a map; the clock
  readings are arguments.
\<close>

section \<open>State\<close>

definition DEPTH :: nat where "DEPTH = 20"

definition CLASS :: int where "CLASS = 1"

datatype enroll_code =
    E_invalid_input
  | E_unknown_observer
  | E_already_enrolled
  | E_invalid_challenge
  | E_invalid_attestation
  | E_tree_full
  | E_challenge_limit

text \<open>An enrollment error with its reason, an error of the gate passed on, a violated constraint of the
  database, or an internal consistency failure.\<close>

datatype enroll_error = EErr enroll_code "string option" | EGate gate_error | EConstraint | EInternal

definition efail :: "enroll_code \<Rightarrow> enroll_error + 'a" where
  "efail code = Inl (EErr code None)"

datatype operation = OpEnroll | OpTree

record EnrollChallengeRow =
  ecr_id :: string
  ecr_operation :: operation
  ecr_commitment :: string
  ecr_key_id :: string
  ecr_mode :: purpose
  ecr_expires_at :: int

record EnrollmentRow =
  er_key_id :: string
  er_commitment :: string
  er_observer_class :: int
  er_leaf_index :: nat
  er_leaf :: string

record RootRow =
  rr_revision :: int
  rr_root :: string
  rr_leaf_count :: int
  rr_created_at :: int

datatype enroll_action = Enrolled | Reenrolled

record EventRow =
  ev_key_id :: string
  ev_commitment :: string
  ev_action :: enroll_action
  ev_root_revision :: int
  ev_created_at :: int

record enroll_db =
  en_enrollments :: "EnrollmentRow list"
  en_challenges :: "EnrollChallengeRow list"
  en_nodes :: "nat \<times> nat \<rightharpoonup> string"
  en_roots :: "RootRow list"
  en_events :: "EventRow list"

record 'g gate_ops =
  go_issueChallenge :: "purpose \<Rightarrow> string option \<Rightarrow> 'g \<Rightarrow> 'g \<times> (gate_error + IssuedAppAttestChallenge)"
  go_acceptAttestation :: "string \<Rightarrow> string \<Rightarrow> bytes \<Rightarrow> 'g \<Rightarrow> 'g \<times> (gate_error + VerifiedAppAttestKey)"
  go_acceptAssertion :: "string \<Rightarrow> string \<Rightarrow> bytes \<Rightarrow> 'g \<Rightarrow> 'g \<times> (gate_error + VerifiedAppAttestKey)"
  go_getKey :: "string \<Rightarrow> 'g \<Rightarrow> gate_error + VerifiedAppAttestKey option"
  go_purgeExpiredChallenges :: "('g \<Rightarrow> 'g) option"
  go_discardChallenge :: "(string \<Rightarrow> 'g \<Rightarrow> 'g) option"

record service =
  sv_hash :: "int list \<Rightarrow> int"
  sv_empty :: "string list"
  sv_maxPending :: int

record MerklePath =
  mp_commitment :: string
  mp_observerClass :: int
  mp_leaf :: string
  mp_leafIndex :: nat
  mp_siblings :: "string list"
  mp_directions :: "nat list"
  mp_root :: string
  mp_rootRevision :: int

section \<open>Scalars\<close>

definition field_hex :: "int \<Rightarrow> string" where
  "field_hex v = ''0x'' @ hex64 v"

text \<open>The pattern \<^verbatim>\<open>0x[0-9a-f]{64}\<close> and the range check.\<close>

definition enroll_field :: "string \<Rightarrow> enroll_error + int" where
  "enroll_field s =
     (if \<not> (take 2 s = ''0x'' \<and> is_hex 64 (drop 2 s)) then efail E_invalid_input
      else if hex_int (drop 2 s) \<ge> BN254_MODULUS then efail E_invalid_input
      else Inr (hex_int (drop 2 s)))"

definition field_value :: "jsval \<Rightarrow> enroll_error + int" where
  "field_value v = (case v of JStr s \<Rightarrow> enroll_field s | _ \<Rightarrow> efail E_invalid_input)"

definition enroll_keyID :: "jsval \<Rightarrow> enroll_error + string" where
  "enroll_keyID v =
     (case v of JStr s \<Rightarrow>
        if \<not> key_id_pattern s then efail E_invalid_input
        else if b64_enc (b64_dec s) \<noteq> s then efail E_invalid_input else Inr s
      | _ \<Rightarrow> efail E_invalid_input)"

section \<open>Opening\<close>

fun empty_levels :: "(int list \<Rightarrow> int) \<Rightarrow> nat \<Rightarrow> string list \<Rightarrow> enroll_error + string list" where
  "empty_levels hash 0 acc = Inr acc"
| "empty_levels hash (Suc n) acc =
     ebind (enroll_field (last acc)) (\<lambda>previous.
     empty_levels hash n (acc @ [field_hex (hash [previous, previous])]))"

definition fresh_enroll_db :: enroll_db where
  "fresh_enroll_db = \<lparr>en_enrollments = [], en_challenges = [], en_nodes = Map.empty, en_roots = [], en_events = []\<rparr>"

text \<open>The tables of an existing database are kept; revision 0 is inserted when it is missing.\<close>

definition openEnrollment ::
  "(int list \<Rightarrow> int) \<Rightarrow> jsnum option \<Rightarrow> string \<Rightarrow> int \<Rightarrow> enroll_db \<Rightarrow> enroll_error + (service \<times> enroll_db)" where
  "openEnrollment hash maxPendingChallenges path now db =
     (let limit = (case maxPendingChallenges of None \<Rightarrow> JInt 1024 | Some n \<Rightarrow> n)
      in if \<not> int_in limit 1 100000 then efail E_invalid_input
         else if path = [] then efail E_invalid_input
         else ebind (empty_levels hash DEPTH [field_hex 0]) (\<lambda>empty.
           Inr (\<lparr>sv_hash = hash, sv_empty = empty, sv_maxPending = jint limit\<rparr>,
             if 0 \<in> rr_revision ` set (en_roots db) then db
             else db\<lparr>en_roots := en_roots db @ [\<lparr>rr_revision = 0, rr_root = empty ! DEPTH,
               rr_leaf_count = 0, rr_created_at = now\<rparr>]\<rparr>)))"

section \<open>The tree\<close>

definition enrollment_of :: "string \<Rightarrow> enroll_db \<Rightarrow> EnrollmentRow option" where
  "enrollment_of ident db = find (\<lambda>r. er_key_id r = ident) (en_enrollments db)"

definition tree_node :: "service \<Rightarrow> (nat \<times> nat \<rightharpoonup> string) \<Rightarrow> nat \<Rightarrow> nat \<Rightarrow> string" where
  "tree_node svc nodes level index = (case nodes (level, index) of Some v \<Rightarrow> v | None \<Rightarrow> sv_empty svc ! level)"

text \<open>\<^verbatim>\<open>ORDER BY revision DESC LIMIT 1\<close>.\<close>

fun latest_root :: "RootRow list \<Rightarrow> RootRow option" where
  "latest_root [] = None"
| "latest_root (r # rs) =
     (case latest_root rs of None \<Rightarrow> Some r | Some m \<Rightarrow> Some (if rr_revision m > rr_revision r then m else r))"

definition rootState :: "enroll_db \<Rightarrow> enroll_error + RootRow" where
  "rootState db = of_opt EInternal (latest_root (en_roots db))"

fun update_levels ::
  "service \<Rightarrow> nat list \<Rightarrow> nat \<Rightarrow> string \<Rightarrow> (nat \<times> nat \<rightharpoonup> string) \<Rightarrow> enroll_error + ((nat \<times> nat \<rightharpoonup> string) \<times> string)" where
  "update_levels svc [] index current nodes = Inr (nodes, current)"
| "update_levels svc (level # levels) index current nodes =
     (let nodes = nodes((level, index) \<mapsto> current);
          sib = tree_node svc nodes level (index XOR 1);
          left = (if index mod 2 = 0 then current else sib);
          right = (if index mod 2 = 0 then sib else current)
      in ebind (enroll_field left) (\<lambda>l.
         ebind (enroll_field right) (\<lambda>r.
         update_levels svc levels (index div 2) (field_hex (sv_hash svc [l, r])) nodes)))"

definition updateTree :: "service \<Rightarrow> nat \<Rightarrow> string \<Rightarrow> int \<Rightarrow> enroll_db \<Rightarrow> enroll_error + enroll_db" where
  "updateTree svc leafIndex leaf now db =
     ebind (update_levels svc [0..<DEPTH] leafIndex leaf (en_nodes db)) (\<lambda>(nodes, current).
     ebind (rootState db) (\<lambda>st.
     let revision = rr_revision st + 1
     in if revision \<in> rr_revision ` set (en_roots db) then Inl EConstraint
        else Inr (db\<lparr>en_nodes := nodes((DEPTH, 0) \<mapsto> current),
          en_roots := en_roots db @ [\<lparr>rr_revision = revision, rr_root = current,
            rr_leaf_count = int leafIndex + 1, rr_created_at = now\<rparr>]\<rparr>)))"

fun path_levels :: "service \<Rightarrow> (nat \<times> nat \<rightharpoonup> string) \<Rightarrow> nat list \<Rightarrow> nat \<Rightarrow> string list \<times> nat list" where
  "path_levels svc nodes [] index = ([], [])"
| "path_levels svc nodes (level # levels) index =
     (let (ss, ds) = path_levels svc nodes levels (index div 2)
      in (tree_node svc nodes level (index XOR 1) # ss, (index AND 1) # ds))"

definition merklePath :: "service \<Rightarrow> EnrollmentRow \<Rightarrow> enroll_db \<Rightarrow> enroll_error + MerklePath" where
  "merklePath svc record db =
     (let (siblings, directions) = path_levels svc (en_nodes db) [0..<DEPTH] (er_leaf_index record)
      in ebind (rootState db) (\<lambda>st.
         Inr \<lparr>mp_commitment = er_commitment record, mp_observerClass = er_observer_class record,
           mp_leaf = er_leaf record, mp_leafIndex = er_leaf_index record, mp_siblings = siblings,
           mp_directions = directions, mp_root = rr_root st, mp_rootRevision = rr_revision st\<rparr>))"

section \<open>Challenges\<close>

definition gate_purge :: "'g gate_ops \<Rightarrow> 'g \<Rightarrow> 'g" where
  "gate_purge ops g = (case go_purgeExpiredChallenges ops of None \<Rightarrow> g | Some f \<Rightarrow> f g)"

definition gate_discard :: "'g gate_ops \<Rightarrow> string \<Rightarrow> 'g \<Rightarrow> 'g" where
  "gate_discard ops ident g = (case go_discardChallenge ops of None \<Rightarrow> g | Some f \<Rightarrow> f ident g)"

definition delete_expired :: "int \<Rightarrow> enroll_db \<Rightarrow> enroll_db" where
  "delete_expired now db = db\<lparr>en_challenges := filter (\<lambda>r. \<not> ecr_expires_at r \<le> now) (en_challenges db)\<rparr>"

definition has_capacity :: "service \<Rightarrow> enroll_db \<Rightarrow> bool" where
  "has_capacity svc db = (\<not> int (length (en_challenges db)) \<ge> sv_maxPending svc)"

record EnrollmentChallenge =
  ecl_id :: string
  ecl_bytes :: bytes
  ecl_mode :: purpose
  ecl_expiresAt :: int

text \<open>The service's database together with the state of the gate it talks to.\<close>

type_synonym 'g enroll_state = "enroll_db \<times> 'g"

definition issue ::
  "service \<Rightarrow> 'g gate_ops \<Rightarrow> operation \<Rightarrow> string \<Rightarrow> string \<Rightarrow> purpose \<Rightarrow> int \<Rightarrow> 'g enroll_state \<Rightarrow>
     'g enroll_state \<times> (enroll_error + EnrollmentChallenge)" where
  "issue svc ops operation commitment ident mode now st =
     (let g = gate_purge ops (snd st); db = delete_expired now (fst st)
      in if \<not> has_capacity svc db then ((db, g), efail E_challenge_limit)
         else case go_issueChallenge ops mode (if mode = ForAssertion then Some ident else None) g of
           (g, Inl e) \<Rightarrow> ((db, g), (case e of GAttest (Challenge_limit, d) \<Rightarrow> efail E_challenge_limit | _ \<Rightarrow> Inl (EGate e)))
         | (g, Inr issued) \<Rightarrow>
             if \<not> has_capacity svc db then ((db, gate_discard ops (ic_id issued) g), efail E_challenge_limit)
             else if ic_id issued \<in> ecr_id ` set (en_challenges db)
               then ((db, gate_discard ops (ic_id issued) g), Inl EConstraint)
             else ((db\<lparr>en_challenges := en_challenges db @ [\<lparr>ecr_id = ic_id issued, ecr_operation = operation,
                 ecr_commitment = commitment, ecr_key_id = ident, ecr_mode = mode, ecr_expires_at = ic_expiresAt issued\<rparr>]\<rparr>, g),
               Inr \<lparr>ecl_id = ic_id issued, ecl_bytes = ic_bytes issued, ecl_mode = mode, ecl_expiresAt = ic_expiresAt issued\<rparr>))"

definition challenge_matches :: "EnrollChallengeRow \<Rightarrow> operation \<Rightarrow> string \<Rightarrow> string \<Rightarrow> int \<Rightarrow> bool" where
  "challenge_matches row operation commitment ident now =
     (\<not> (ecr_operation row \<noteq> operation \<or> ecr_commitment row \<noteq> commitment \<or> ecr_key_id row \<noteq> ident \<or>
         ecr_expires_at row \<le> now))"

definition consume_enroll ::
  "'g gate_ops \<Rightarrow> jsval \<Rightarrow> operation \<Rightarrow> string \<Rightarrow> string \<Rightarrow> int \<Rightarrow> int \<Rightarrow> 'g enroll_state \<Rightarrow>
     'g enroll_state \<times> (enroll_error + EnrollChallengeRow)" where
  "consume_enroll ops challengeID operation commitment ident t1 t2 st =
     (case challengeID of JStr cid \<Rightarrow>
        if cid = [] then (st, efail E_invalid_challenge)
        else let g = gate_purge ops (snd st); db = delete_expired t1 (fst st);
                 row = find (\<lambda>r. ecr_id r = cid) (en_challenges db);
                 db = db\<lparr>en_challenges := filter (\<lambda>r. ecr_id r \<noteq> cid) (en_challenges db)\<rparr>
             in (case row of None \<Rightarrow> ((db, g), efail E_invalid_challenge)
                 | Some r \<Rightarrow> if \<not> challenge_matches r operation commitment ident t2
                     then ((db, gate_discard ops (ecr_id r) g), efail E_invalid_challenge)
                     else ((db, g), Inr r))
      | _ \<Rightarrow> (st, efail E_invalid_challenge))"

section \<open>Operations\<close>

fun code_text :: "attest_code \<Rightarrow> string" where
  "code_text Invalid_input = ''invalid_input''"
| "code_text Challenge_limit = ''challenge_limit''"
| "code_text Invalid_attestation = ''invalid_attestation''"
| "code_text Invalid_chain = ''invalid_chain''"
| "code_text Invalid_nonce = ''invalid_nonce''"
| "code_text Invalid_key = ''invalid_key''"
| "code_text Invalid_app = ''invalid_app''"
| "code_text Invalid_environment = ''invalid_environment''"
| "code_text Invalid_counter = ''invalid_counter''"
| "code_text Invalid_assertion = ''invalid_assertion''"

text \<open>\<^verbatim>\<open>[error.code, error.detail].filter(Boolean).join(".")\<close> for a verification error, nothing otherwise.\<close>

fun attest_reason :: "gate_error \<Rightarrow> string option" where
  "attest_reason (GAttest (code, detail)) =
     Some (code_text code @ (case detail of None \<Rightarrow> [] | Some d \<Rightarrow> if d = [] then [] else ''.'' @ d))"
| "attest_reason GConstraint = None"

definition with_inputs ::
  "jsval \<Rightarrow> jsval \<Rightarrow> 's \<Rightarrow> (string \<Rightarrow> string \<Rightarrow> 's \<times> (enroll_error + 'r)) \<Rightarrow> 's \<times> (enroll_error + 'r)" where
  "with_inputs commitmentValue keyValue st body =
     (case field_value commitmentValue of Inl e \<Rightarrow> (st, Inl e)
      | Inr c \<Rightarrow> (case enroll_keyID keyValue of Inl e \<Rightarrow> (st, Inl e) | Inr ident \<Rightarrow> body (field_hex c) ident))"

definition issueEnrollmentChallenge ::
  "service \<Rightarrow> 'g gate_ops \<Rightarrow> jsval \<Rightarrow> jsval \<Rightarrow> int \<Rightarrow> 'g enroll_state \<Rightarrow> 'g enroll_state \<times> (enroll_error + EnrollmentChallenge)" where
  "issueEnrollmentChallenge svc ops commitmentValue keyValue now st =
     with_inputs commitmentValue keyValue st (\<lambda>commitment ident.
       if (case enrollment_of ident (fst st) of None \<Rightarrow> False | Some r \<Rightarrow> er_commitment r \<noteq> commitment)
       then (st, efail E_already_enrolled)
       else if (case find (\<lambda>r. er_commitment r = commitment) (en_enrollments (fst st)) of None \<Rightarrow> False
           | Some r \<Rightarrow> er_key_id r \<noteq> ident) then (st, efail E_already_enrolled)
       else case go_getKey ops ident (snd st) of Inl e \<Rightarrow> (st, Inl (EGate e))
         | Inr k \<Rightarrow> issue svc ops OpEnroll commitment ident (if k = None then ForAttestation else ForAssertion) now st)"

text \<open>The transaction of \<^verbatim>\<open>enroll\<close>: its result, or the error on which it rolls back.\<close>

definition next_leaf_index :: "enroll_db \<Rightarrow> nat" where
  "next_leaf_index db =
     (if en_enrollments db = [] then 0 else Max (set (map er_leaf_index (en_enrollments db))) + 1)"

definition enroll_record ::
  "service \<Rightarrow> string \<Rightarrow> string \<Rightarrow> int \<Rightarrow> enroll_db \<Rightarrow> enroll_error + (enroll_db \<times> EnrollmentRow \<times> enroll_action)" where
  "enroll_record svc commitment ident t db =
     (case enrollment_of ident db of
        None \<Rightarrow>
          if commitment \<in> er_commitment ` set (en_enrollments db) then efail E_already_enrolled
          else let leafIndex = next_leaf_index db
          in if leafIndex \<ge> 2 ^ DEPTH then efail E_tree_full
             else ebind (enroll_field commitment) (\<lambda>c.
               let leaf = field_hex (sv_hash svc [c, CLASS]);
                   row = \<lparr>er_key_id = ident, er_commitment = commitment, er_observer_class = CLASS,
                     er_leaf_index = leafIndex, er_leaf = leaf\<rparr>
               in ebind (updateTree svc leafIndex leaf t (db\<lparr>en_enrollments := en_enrollments db @ [row]\<rparr>)) (\<lambda>db.
                  Inr (db, row, Enrolled)))
      | Some record \<Rightarrow>
          if er_commitment record \<noteq> commitment then efail E_already_enrolled else Inr (db, record, Reenrolled))"

definition enroll_transaction ::
  "service \<Rightarrow> string \<Rightarrow> string \<Rightarrow> int \<Rightarrow> int \<Rightarrow> enroll_db \<Rightarrow> enroll_error + (enroll_db \<times> MerklePath)" where
  "enroll_transaction svc commitment ident t1 t2 db =
     ebind (enroll_record svc commitment ident t1 db) (\<lambda>(db, record, action).
     ebind (rootState db) (\<lambda>root.
     let db = db\<lparr>en_events := en_events db @ [\<lparr>ev_key_id = ident, ev_commitment = commitment, ev_action = action,
           ev_root_revision = rr_revision root, ev_created_at = t2\<rparr>]\<rparr>
     in ebind (merklePath svc record db) (\<lambda>path. Inr (db, path))))"

definition gate_accepts ::
  "'g gate_ops \<Rightarrow> purpose \<Rightarrow> string \<Rightarrow> string \<Rightarrow> bytes \<Rightarrow> 'g \<Rightarrow> 'g \<times> (enroll_error + VerifiedAppAttestKey)" where
  "gate_accepts ops mode cid ident object g =
     (case (if mode = ForAttestation then go_acceptAttestation ops cid ident object g
            else go_acceptAssertion ops cid ident object g) of
        (g, Inl e) \<Rightarrow> (g, Inl (EErr E_invalid_attestation (attest_reason e)))
      | (g, Inr k) \<Rightarrow> (g, Inr k))"

definition enroll ::
  "service \<Rightarrow> 'g gate_ops \<Rightarrow> jsval \<Rightarrow> jsval \<Rightarrow> jsval \<Rightarrow> bytes \<Rightarrow> int \<Rightarrow> int \<Rightarrow> int \<Rightarrow> int \<Rightarrow> 'g enroll_state \<Rightarrow>
     'g enroll_state \<times> (enroll_error + MerklePath)" where
  "enroll svc ops challengeID commitmentValue keyValue object t1 t2 t3 t4 st =
     with_inputs commitmentValue keyValue st (\<lambda>commitment ident.
       case consume_enroll ops challengeID OpEnroll commitment ident t1 t2 st of
         (st, Inl e) \<Rightarrow> (st, Inl e)
       | ((db, g), Inr challenge) \<Rightarrow>
           (case gate_accepts ops (ecr_mode challenge) (ecr_id challenge) ident object g of
              (g, Inl e) \<Rightarrow> ((db, g), Inl e)
            | (g, Inr _) \<Rightarrow>
                (case enroll_transaction svc commitment ident t3 t4 db of
                   Inl e \<Rightarrow> ((db, g), Inl e)
                 | Inr (db', path) \<Rightarrow> ((db', g), Inr path))))"

definition issueTreeChallenge ::
  "service \<Rightarrow> 'g gate_ops \<Rightarrow> jsval \<Rightarrow> jsval \<Rightarrow> int \<Rightarrow> 'g enroll_state \<Rightarrow> 'g enroll_state \<times> (enroll_error + EnrollmentChallenge)" where
  "issueTreeChallenge svc ops commitmentValue keyValue now st =
     with_inputs commitmentValue keyValue st (\<lambda>commitment ident.
       if map_option er_commitment (enrollment_of ident (fst st)) \<noteq> Some commitment then (st, efail E_unknown_observer)
       else issue svc ops OpTree commitment ident ForAssertion now st)"

definition treePath ::
  "service \<Rightarrow> 'g gate_ops \<Rightarrow> jsval \<Rightarrow> jsval \<Rightarrow> jsval \<Rightarrow> bytes \<Rightarrow> int \<Rightarrow> int \<Rightarrow> 'g enroll_state \<Rightarrow>
     'g enroll_state \<times> (enroll_error + MerklePath)" where
  "treePath svc ops challengeID commitmentValue keyValue object t1 t2 st =
     with_inputs commitmentValue keyValue st (\<lambda>commitment ident.
       case consume_enroll ops challengeID OpTree commitment ident t1 t2 st of
         (st, Inl e) \<Rightarrow> (st, Inl e)
       | ((db, g), Inr challenge) \<Rightarrow>
           (case gate_accepts ops ForAssertion (ecr_id challenge) ident object g of
              (g, Inl e) \<Rightarrow> ((db, g), Inl e)
            | (g, Inr _) \<Rightarrow>
                (case enrollment_of ident db of
                   None \<Rightarrow> ((db, g), efail E_unknown_observer)
                 | Some record \<Rightarrow>
                     if er_commitment record \<noteq> commitment then ((db, g), efail E_unknown_observer)
                     else ((db, g), merklePath svc record db))))"

record ObserverRootSnapshot =
  sn_root :: string
  sn_revision :: int
  sn_leafCount :: int
  sn_createdAt :: int

text \<open>\<^verbatim>\<open>publicationBatch\<close>: nothing to publish, a batch, or the consistency error.\<close>

definition publicationBatch :: "int \<Rightarrow> enroll_db \<Rightarrow> enroll_error + (ObserverRootSnapshot \<times> int) option" where
  "publicationBatch afterRevision db =
     ebind (rootState db) (\<lambda>row.
     if rr_revision row \<le> afterRevision \<or> rr_leaf_count row = 0 then Inr None
     else if int (length (en_enrollments db)) \<noteq> rr_leaf_count row then Inl EInternal
     else Inr (Some (\<lparr>sn_root = rr_root row, sn_revision = rr_revision row, sn_leafCount = rr_leaf_count row,
         sn_createdAt = rr_created_at row\<rparr>,
       Min (rr_created_at ` set (filter (\<lambda>r. rr_revision r > afterRevision) (en_roots db))))))"

section \<open>Field values as text\<close>

definition in_field :: "int \<Rightarrow> bool" where
  "in_field v = (0 \<le> v \<and> v < BN254_MODULUS)"

lemma efail_Inr [simp]: "efail c \<noteq> Inr x"
  by (simp add: efail_def)

lemma in_field_bytes: "in_field v \<Longrightarrow> be_val (be_num 32 v) = v"
  using modulus_bounds(2) by (intro be_val_be_num) (auto simp: in_field_def)

lemma enroll_field_hex [simp]: "in_field v \<Longrightarrow> enroll_field (field_hex v) = Inr v"
  using is_hex_of_bytes [of "be_num 32 v"] in_field_bytes [of v]
  by (simp add: enroll_field_def field_hex_def hex64_def hex_int_def in_field_def)

lemma enroll_field_Inr: "enroll_field s = Inr v \<Longrightarrow> s = field_hex v \<and> in_field v"
proof -
  assume a: "enroll_field s = Inr v"
  then have s: "take 2 s = ''0x''" "is_hex 64 (drop 2 s)" and v: "v = be_val (bytes_of_hex (drop 2 s))" "v < BN254_MODULUS"
    by (auto simp: enroll_field_def hex_int_def split: if_splits)
  from s(2) have "hex_of_bytes (bytes_of_hex (drop 2 s)) = drop 2 s" "length (bytes_of_hex (drop 2 s)) = 32"
    using hex_of_bytes_of_hex [of 32 "drop 2 s"] by simp_all
  then have "hex64 v = drop 2 s" using v(1) be_num_be_val' [of "bytes_of_hex (drop 2 s)" 32] by (simp add: hex64_def)
  then have "field_hex v = take 2 s @ drop 2 s" unfolding field_hex_def s(1) by simp
  then show ?thesis using v by (simp add: in_field_def)
qed

lemma field_value_Inr: "field_value v = Inr c \<Longrightarrow> in_field c"
  by (auto simp: field_value_def dest!: enroll_field_Inr split: jsval.splits)

section \<open>The node table represents the tree\<close>

abbreviation tree_hash :: "service \<Rightarrow> int \<Rightarrow> int \<Rightarrow> int" where
  "tree_hash svc \<equiv> \<lambda>a b. sv_hash svc [a, b]"

definition svc_ok :: "service \<Rightarrow> bool" where
  "svc_ok svc = ((\<forall>xs. in_field (sv_hash svc xs)) \<and>
     sv_empty svc = map (\<lambda>l. field_hex (zero_at (tree_hash svc) 0 l)) [0..<21])"

definition tree_level_ok :: "service \<Rightarrow> (nat \<times> nat \<rightharpoonup> string) \<Rightarrow> int list \<Rightarrow> nat \<Rightarrow> bool" where
  "tree_level_ok svc nodes leaves l =
     (\<forall>i. tree_node svc nodes l i = field_hex (subtree (tree_hash svc) 0 leaves l i))"

definition tree_ok :: "service \<Rightarrow> (nat \<times> nat \<rightharpoonup> string) \<Rightarrow> int list \<Rightarrow> bool" where
  "tree_ok svc nodes leaves = (\<forall>l \<le> 20. tree_level_ok svc nodes leaves l)"

lemma tree_ok_empty: "svc_ok svc \<Longrightarrow> tree_ok svc Map.empty []"
  by (auto simp: tree_ok_def tree_level_ok_def tree_node_def svc_ok_def subtree_beyond nth_append)

lemma subtree_in_field:
  "svc_ok svc \<Longrightarrow> list_all in_field leaves \<Longrightarrow> in_field (subtree (tree_hash svc) 0 leaves l i)"
  by (cases l) (auto simp: svc_ok_def leaf_at_def list_all_length in_field_def BN254_MODULUS_def)

lemma xor_sibling: "i XOR Suc 0 = sibling i"
  by (cases "even i") (auto simp: sibling_def xor_Suc_0_eq)

lemma tree_level_set:
  assumes "tree_level_ok svc nodes leaves l"
  shows "tree_level_ok svc (nodes((l, length leaves div 2 ^ l) \<mapsto>
      field_hex (subtree (tree_hash svc) 0 (leaves @ [x]) l (length leaves div 2 ^ l)))) (leaves @ [x]) l"
  using assms by (auto simp: tree_level_ok_def tree_node_def subtree_append)

lemma tree_level_other: "l' \<noteq> l \<Longrightarrow> tree_level_ok svc (nodes((l, i) \<mapsto> v)) leaves l' = tree_level_ok svc nodes leaves l'"
  by (simp add: tree_level_ok_def tree_node_def)

text \<open>One level of the update loop computes the parent in the extended tree.\<close>

lemma update_level_join:
  assumes svc: "svc_ok svc" "list_all in_field leaves"
    and sib: "tree_node svc nodes l (sibling i) = field_hex (subtree (tree_hash svc) 0 leaves l (sibling i))"
  shows "update_levels svc (l # ls) i (field_hex (subtree (tree_hash svc) 0 leaves l i)) nodes =
    update_levels svc ls (i div 2) (field_hex (subtree (tree_hash svc) 0 leaves (Suc l) (i div 2)))
      (nodes((l, i) \<mapsto> field_hex (subtree (tree_hash svc) 0 leaves l i)))"
proof -
  let ?T = "subtree (tree_hash svc) 0 leaves l"
  have sib': "tree_node svc (nodes((l, i) \<mapsto> v)) l (i XOR Suc 0) = field_hex (?T (sibling i))" for v
    using sib unfolding xor_sibling by (simp add: tree_node_def)
  have f: "enroll_field (field_hex (?T j)) = Inr (?T j)" for j using subtree_in_field [OF svc] by simp
  show ?thesis unfolding subtree_Suc_join
    by (cases "even i") (simp_all add: Let_def sib' f join_at_def even_iff_mod_2_eq_zero odd_iff_mod_2_eq_one del: subtree.simps)
qed

lemma update_levels_correct:
  assumes svc: "svc_ok svc" "list_all in_field (leaves @ [x])"
  shows "level + n = 20 \<Longrightarrow> \<forall>l. level \<le> l \<and> l < 20 \<longrightarrow> tree_level_ok svc nodes leaves l \<Longrightarrow>
    \<forall>l < level. tree_level_ok svc nodes (leaves @ [x]) l \<Longrightarrow>
    \<exists>nodes'. update_levels svc [level..<20] (length leaves div 2 ^ level)
        (field_hex (subtree (tree_hash svc) 0 (leaves @ [x]) level (length leaves div 2 ^ level))) nodes =
      Inr (nodes', field_hex (subtree (tree_hash svc) 0 (leaves @ [x]) 20 (length leaves div 2 ^ 20))) \<and>
      (\<forall>l < 20. tree_level_ok svc nodes' (leaves @ [x]) l) \<and> (\<forall>l i. 20 \<le> l \<longrightarrow> nodes' (l, i) = nodes (l, i))"
proof (induction n arbitrary: level nodes)
  case 0
  then show ?case by simp
next
  case (Suc n)
  let ?i = "length leaves div 2 ^ level"
  let ?v = "field_hex (subtree (tree_hash svc) 0 (leaves @ [x]) level ?i)"
  let ?nodes = "nodes((level, ?i) \<mapsto> ?v)"
  have lv: "tree_level_ok svc nodes leaves level" "level < 20" using Suc.prems by auto
  have upt: "[level..<20] = level # [Suc level..<20]" using lv(2) by (rule upt_conv_Cons)
  have sib: "tree_node svc nodes level (sibling ?i) = field_hex (subtree (tree_hash svc) 0 (leaves @ [x]) level (sibling ?i))"
    using lv(1) subtree_append [of "sibling ?i" leaves level "tree_hash svc" 0 x] by (simp add: tree_level_ok_def)
  have step: "update_levels svc [level..<20] ?i ?v nodes =
      update_levels svc [Suc level..<20] (length leaves div 2 ^ Suc level)
        (field_hex (subtree (tree_hash svc) 0 (leaves @ [x]) (Suc level) (length leaves div 2 ^ Suc level))) ?nodes"
    unfolding upt div_pow_half by (rule update_level_join [OF svc sib])
  have A: "\<forall>l. Suc level \<le> l \<and> l < 20 \<longrightarrow> tree_level_ok svc ?nodes leaves l"
    using Suc.prems by (auto simp: tree_level_other)
  have B: "\<forall>l < Suc level. tree_level_ok svc ?nodes (leaves @ [x]) l"
    using Suc.prems(3) tree_level_set [OF lv(1)] by (auto simp: less_Suc_eq tree_level_other)
  have C: "Suc level + n = 20" using Suc.prems(1) by simp
  obtain nodes' where "update_levels svc [level..<20] ?i ?v nodes =
      Inr (nodes', field_hex (subtree (tree_hash svc) 0 (leaves @ [x]) 20 (length leaves div 2 ^ 20)))"
      "\<forall>l < 20. tree_level_ok svc nodes' (leaves @ [x]) l" "\<forall>l i. 20 \<le> l \<longrightarrow> nodes' (l, i) = ?nodes (l, i)"
    using Suc.IH [OF C A B] unfolding step by blast
  moreover have "?nodes (l, i) = nodes (l, i)" if "20 \<le> l" for l i using that lv(2) by simp
  ultimately show ?case by (intro exI [of _ nodes']) simp
qed

section \<open>Invariant\<close>

lemma latest_root_None: "latest_root rs = None \<longleftrightarrow> rs = []"
  by (cases rs) (auto split: option.splits)

lemma latest_root_max: "latest_root rs = Some m \<Longrightarrow> m \<in> set rs \<and> (\<forall>r \<in> set rs. rr_revision r \<le> rr_revision m)"
proof (induction rs arbitrary: m)
  case (Cons r rs)
  show ?case
  proof (cases "latest_root rs")
    case None
    with Cons.prems show ?thesis by (simp add: latest_root_None)
  next
    case (Some a)
    with Cons.prems Cons.IH [OF Some] show ?thesis by (auto split: if_splits)
  qed
qed simp

lemma latest_root_snoc:
  "latest_root rs = Some m \<Longrightarrow> rr_revision m < rr_revision r \<Longrightarrow> latest_root (rs @ [r]) = Some r"
proof (induction rs arbitrary: m)
  case (Cons a rs)
  then show ?case by (cases "latest_root rs") (auto simp: latest_root_None split: if_splits)
qed simp

definition leaf_ints :: "service \<Rightarrow> enroll_db \<Rightarrow> int list" where
  "leaf_ints svc db = map (\<lambda>r. sv_hash svc [hex_int (drop 2 (er_commitment r)), CLASS]) (en_enrollments db)"

definition row_ok :: "service \<Rightarrow> EnrollmentRow \<Rightarrow> bool" where
  "row_ok svc r = (er_observer_class r = CLASS \<and> (\<exists>c. in_field c \<and> er_commitment r = field_hex c \<and>
     er_leaf r = field_hex (sv_hash svc [c, CLASS])))"

definition rows_ok :: "service \<Rightarrow> EnrollmentRow list \<Rightarrow> bool" where
  "rows_ok svc rows = (distinct (map er_key_id rows) \<and> distinct (map er_commitment rows) \<and>
     map er_leaf_index rows = [0..<length rows] \<and> length rows \<le> 2 ^ 20 \<and> list_all (row_ok svc) rows)"

definition root_ok :: "service \<Rightarrow> enroll_db \<Rightarrow> RootRow \<Rightarrow> bool" where
  "root_ok svc db r = (rr_revision r = int (length (en_enrollments db)) \<and>
     rr_leaf_count r = int (length (en_enrollments db)) \<and>
     rr_root r = field_hex (merkle_root (tree_hash svc) 0 20 (leaf_ints svc db)))"

definition enroll_inv :: "service \<Rightarrow> enroll_db \<Rightarrow> bool" where
  "enroll_inv svc db = (rows_ok svc (en_enrollments db) \<and> tree_ok svc (en_nodes db) (leaf_ints svc db) \<and>
     (\<exists>r. latest_root (en_roots db) = Some r \<and> root_ok svc db r))"

lemma hex_int_field: "in_field c \<Longrightarrow> hex_int (drop 2 (field_hex c)) = c"
  by (simp add: field_hex_def hex64_def hex_int_def in_field_bytes)

lemma leaf_ints_in_field: "svc_ok svc \<Longrightarrow> list_all in_field (leaf_ints svc db)"
  by (simp add: leaf_ints_def list_all_iff svc_ok_def)

lemma length_leaf_ints [simp]: "length (leaf_ints svc db) = length (en_enrollments db)"
  by (simp add: leaf_ints_def)

lemma enroll_inv_cong:
  "en_enrollments db' = en_enrollments db \<Longrightarrow> en_nodes db' = en_nodes db \<Longrightarrow> en_roots db' = en_roots db \<Longrightarrow>
     enroll_inv svc db' = enroll_inv svc db"
  by (simp add: enroll_inv_def root_ok_def leaf_ints_def)

lemma next_leaf_index_rows: "map er_leaf_index (en_enrollments db) = [0..<length (en_enrollments db)] \<Longrightarrow>
    next_leaf_index db = length (en_enrollments db)"
proof -
  assume m: "map er_leaf_index (en_enrollments db) = [0..<length (en_enrollments db)]"
  have "Max {0..<length (en_enrollments db)} + 1 = length (en_enrollments db)" if "en_enrollments db \<noteq> []"
  proof -
    from that have "Max {0..<length (en_enrollments db)} = length (en_enrollments db) - 1" by (intro Max_eqI) (auto simp: Suc_le_eq)
    with that show ?thesis by simp
  qed
  then show ?thesis unfolding next_leaf_index_def m by simp
qed

text \<open>Adding an enrollment: the tree, the root history and the table move together.\<close>

lemma updateTree_correct:
  assumes svc: "svc_ok svc" and inv: "enroll_inv svc db" and n: "length (en_enrollments db) < 2 ^ 20"
    and row: "er_commitment row = field_hex c" "in_field c"
  defines "db1 \<equiv> db\<lparr>en_enrollments := en_enrollments db @ [row]\<rparr>"
  obtains nodes r where
    "updateTree svc (length (en_enrollments db)) (field_hex (sv_hash svc [c, CLASS])) t db1 =
       Inr (db1\<lparr>en_nodes := nodes, en_roots := en_roots db @ [r]\<rparr>)"
    "tree_ok svc nodes (leaf_ints svc db1)" "latest_root (en_roots db @ [r]) = Some r" "root_ok svc db1 r"
proof -
  let ?n = "length (en_enrollments db)"
  let ?L = "leaf_ints svc db"
  let ?x = "sv_hash svc [c, CLASS]"
  have L1: "leaf_ints svc db1 = ?L @ [?x]" using row by (simp add: leaf_ints_def db1_def hex_int_field)
  have fld: "list_all in_field (?L @ [?x])" using leaf_ints_in_field [OF svc] svc by (simp add: svc_ok_def)
  from inv obtain m where m: "latest_root (en_roots db) = Some m" "rr_revision m = int ?n" by (auto simp: enroll_inv_def root_ok_def)
  have tree: "tree_ok svc (en_nodes db) ?L" using inv by (simp add: enroll_inv_def)
  have leaf: "subtree (tree_hash svc) 0 (?L @ [?x]) 0 ?n = ?x" by (simp add: leaf_at_def nth_append)
  obtain nodes' where u: "update_levels svc [0..<20] ?n (field_hex ?x) (en_nodes db) =
      Inr (nodes', field_hex (merkle_root (tree_hash svc) 0 20 (?L @ [?x])))"
    and lv: "\<forall>l < 20. tree_level_ok svc nodes' (?L @ [?x]) l" and hi: "\<forall>l i. 20 \<le> l \<longrightarrow> nodes' (l, i) = en_nodes db (l, i)"
    using update_levels_correct [OF svc fld, of 0 20 "en_nodes db"] tree n leaf
    by (auto simp: tree_ok_def merkle_root_def)
  define r where "r = \<lparr>rr_revision = int ?n + 1, rr_root = field_hex (merkle_root (tree_hash svc) 0 20 (?L @ [?x])),
    rr_leaf_count = int ?n + 1, rr_created_at = t\<rparr>"
  let ?nodes = "nodes'((20, 0) \<mapsto> field_hex (merkle_root (tree_hash svc) 0 20 (?L @ [?x])))"
  have "int ?n + 1 \<notin> rr_revision ` set (en_roots db)" using latest_root_max [OF m(1)] m(2) by fastforce
  then have "updateTree svc ?n (field_hex ?x) t db1 = Inr (db1\<lparr>en_nodes := ?nodes, en_roots := en_roots db @ [r]\<rparr>)"
    using u m by (simp add: updateTree_def DEPTH_def db1_def rootState_def r_def Let_def)
  moreover have "tree_ok svc ?nodes (?L @ [?x])"
  proof -
    have "tree_level_ok svc nodes' ?L 20" using tree hi by (simp add: tree_ok_def tree_level_ok_def tree_node_def)
    from tree_level_set [OF this, of ?x] n have "tree_level_ok svc ?nodes (?L @ [?x]) 20" by (simp add: merkle_root_def)
    with lv show ?thesis by (auto simp: tree_ok_def le_less tree_level_other)
  qed
  moreover have "latest_root (en_roots db @ [r]) = Some r" using latest_root_snoc [OF m(1), of r] m(2) by (simp add: r_def)
  moreover have "root_ok svc db1 r" by (simp add: root_ok_def L1 r_def) (simp add: db1_def)
  ultimately show thesis using that L1 by metis
qed

lemma enrollment_of_Some: "enrollment_of k db = Some r \<Longrightarrow> r \<in> set (en_enrollments db) \<and> er_key_id r = k"
  by (auto simp: enrollment_of_def dest: find_SomeD)

lemma enrollment_of_None: "enrollment_of k db = None \<Longrightarrow> k \<notin> er_key_id ` set (en_enrollments db)"
  by (auto simp: enrollment_of_def dest: find_NoneD)

lemma enroll_record_inv:
  assumes svc: "svc_ok svc" and inv: "enroll_inv svc db" and c: "in_field c"
    and ok: "enroll_record svc (field_hex c) ident t db = Inr (db', row, action)"
  shows "enroll_inv svc db' \<and> row \<in> set (en_enrollments db') \<and> en_challenges db' = en_challenges db \<and>
    er_commitment row = field_hex c \<and> er_key_id row = ident"
proof (cases "enrollment_of ident db")
  case (Some r)
  with ok inv enrollment_of_Some [OF Some] show ?thesis by (auto simp: enroll_record_def split: if_splits)
next
  case None
  let ?n = "length (en_enrollments db)"
  have rows: "rows_ok svc (en_enrollments db)" using inv by (simp add: enroll_inv_def)
  then have idx: "next_leaf_index db = ?n" by (simp add: rows_ok_def next_leaf_index_rows)
  define new where "new = \<lparr>er_key_id = ident, er_commitment = field_hex c, er_observer_class = CLASS, er_leaf_index = ?n,
    er_leaf = field_hex (sv_hash svc [c, CLASS])\<rparr>"
  let ?db1 = "db\<lparr>en_enrollments := en_enrollments db @ [new]\<rparr>"
  from ok None have g: "field_hex c \<notin> er_commitment ` set (en_enrollments db)" "?n < 2 ^ 20"
    and u: "updateTree svc ?n (field_hex (sv_hash svc [c, CLASS])) t ?db1 = Inr db'" and r: "row = new"
    using c by (auto simp: enroll_record_def idx DEPTH_def Let_def new_def ebind_eq_Inr split: if_splits)
  obtain nodes rr where "db' = ?db1\<lparr>en_nodes := nodes, en_roots := en_roots db @ [rr]\<rparr>"
      "tree_ok svc nodes (leaf_ints svc ?db1)" "latest_root (en_roots db @ [rr]) = Some rr" "root_ok svc ?db1 rr"
  proof (rule updateTree_correct [OF svc inv g(2), of new c t])
    show "er_commitment new = field_hex c" "in_field c" using c by (simp_all add: new_def)
  qed (use u in auto)
  moreover have "rows_ok svc (en_enrollments db @ [new])"
    using rows g enrollment_of_None [OF None] c by (auto simp: rows_ok_def row_ok_def new_def)
  ultimately show ?thesis using r by (auto simp: enroll_inv_def root_ok_def leaf_ints_def new_def)
qed

lemma path_levels_eq:
  "path_levels svc nodes [level..<level + n] i = (siblings_of (tree_node svc nodes) level n i, directions_of n i)"
proof (induction n arbitrary: level i)
  case (Suc n)
  have "[level..<level + Suc n] = level # [Suc level..<Suc level + n]" by (simp add: upt_conv_Cons)
  with Suc.IH [of "Suc level" "i div 2"] show ?case by (simp add: xor_sibling and_one_eq del: upt_Suc)
qed simp

lemma siblings_of_map: "siblings_of (\<lambda>l i. f (g l i)) level n i = map f (siblings_of g level n i)"
  by (induction n arbitrary: level i) simp_all

lemma siblings_of_cong:
  "(\<And>l i. level \<le> l \<Longrightarrow> l < level + n \<Longrightarrow> f l i = g l i) \<Longrightarrow> siblings_of f level n i = siblings_of g level n i"
proof (induction n arbitrary: level i)
  case (Suc n)
  from Suc.IH [of "Suc level"] Suc.prems show ?case by simp
qed simp

lemma length_path: "length (siblings_of f level n i) = n" "length (directions_of n i) = n"
  by (induction n arbitrary: level i) simp_all

text \<open>What a holder checks: the path folds the leaf into the root.\<close>

definition path_valid :: "service \<Rightarrow> MerklePath \<Rightarrow> bool" where
  "path_valid svc p = (\<exists>leaf ss. mp_leaf p = field_hex leaf \<and> in_field leaf \<and> mp_siblings p = map field_hex ss \<and>
     list_all in_field ss \<and> length ss = 20 \<and> length (mp_directions p) = 20 \<and>
     mp_root p = field_hex (path_root (tree_hash svc) leaf ss (mp_directions p)))"

lemma merklePath_correct:
  assumes svc: "svc_ok svc" and inv: "enroll_inv svc db" and row: "row \<in> set (en_enrollments db)"
  shows "\<exists>p. merklePath svc row db = Inr p \<and> path_valid svc p \<and> mp_commitment p = er_commitment row \<and>
    mp_leafIndex p = er_leaf_index row \<and> mp_root p = field_hex (merkle_root (tree_hash svc) 0 20 (leaf_ints svc db)) \<and>
    mp_rootRevision p = int (length (en_enrollments db))"
proof -
  let ?T = "subtree (tree_hash svc) 0 (leaf_ints svc db)"
  let ?i = "er_leaf_index row"
  have rows: "rows_ok svc (en_enrollments db)" using inv by (simp add: enroll_inv_def)
  from row obtain k where k: "k < length (en_enrollments db)" "row = en_enrollments db ! k" by (auto simp: in_set_conv_nth)
  from rows have "map er_leaf_index (en_enrollments db) ! k = [0..<length (en_enrollments db)] ! k" by (simp add: rows_ok_def)
  with k have ik: "?i = k" by simp
  then have lt: "?i < 2 ^ 20" using k rows by (simp add: rows_ok_def)
  obtain c where c: "in_field c" "er_commitment row = field_hex c" "er_leaf row = field_hex (sv_hash svc [c, CLASS])"
    using rows row by (auto simp: rows_ok_def row_ok_def list_all_iff)
  have leaf: "er_leaf row = field_hex (?T 0 ?i)" using k c ik by (simp add: leaf_at_def leaf_ints_def hex_int_field)
  have T: "siblings_of (tree_node svc (en_nodes db)) 0 20 ?i = map field_hex (siblings_of ?T 0 20 ?i)"
    unfolding siblings_of_map [symmetric] using inv by (intro siblings_of_cong) (simp add: enroll_inv_def tree_ok_def tree_level_ok_def)
  have fields: "list_all in_field (siblings_of ?T l n j)" for l n j
    by (induction n arbitrary: l j) (simp_all add: subtree_in_field [OF svc leaf_ints_in_field [OF svc]])
  have root: "path_root (tree_hash svc) (?T 0 ?i) (siblings_of ?T 0 20 ?i) (directions_of 20 ?i) =
      merkle_root (tree_hash svc) 0 20 (leaf_ints svc db)"
    using path_root_subtree [of 0 20 ?T "tree_hash svc" 0 "leaf_ints svc db" ?i] lt by (simp add: merkle_root_def)
  from inv obtain r where r: "latest_root (en_roots db) = Some r" "root_ok svc db r" by (auto simp: enroll_inv_def)
  have p: "path_levels svc (en_nodes db) [0..<20] ?i = (map field_hex (siblings_of ?T 0 20 ?i), directions_of 20 ?i)"
    using path_levels_eq [of svc "en_nodes db" 0 20 ?i] T by simp
  have "path_valid svc \<lparr>mp_commitment = er_commitment row, mp_observerClass = er_observer_class row, mp_leaf = er_leaf row,
      mp_leafIndex = ?i, mp_siblings = map field_hex (siblings_of ?T 0 20 ?i), mp_directions = directions_of 20 ?i,
      mp_root = rr_root r, mp_rootRevision = rr_revision r\<rparr>"
    unfolding path_valid_def using r leaf root fields length_path subtree_in_field [OF svc leaf_ints_in_field [OF svc], of db 0 ?i]
    by (intro exI [of _ "?T 0 ?i"] exI [of _ "siblings_of ?T 0 20 ?i"]) (simp add: root_ok_def)
  with p r show ?thesis by (simp add: merklePath_def DEPTH_def rootState_def root_ok_def)
qed

section \<open>Steps\<close>

lemma enroll_transaction_correct:
  assumes svc: "svc_ok svc" and inv: "enroll_inv svc db" and c: "in_field c"
    and ok: "enroll_transaction svc (field_hex c) ident t1 t2 db = Inr (db', p)"
  shows "enroll_inv svc db' \<and> en_challenges db' = en_challenges db \<and> path_valid svc p \<and> mp_commitment p = field_hex c \<and>
    mp_root p = field_hex (merkle_root (tree_hash svc) 0 20 (leaf_ints svc db'))"
proof -
  from ok obtain db1 row action root where r: "enroll_record svc (field_hex c) ident t1 db = Inr (db1, row, action)"
      "rootState db1 = Inr root"
    and p: "db' = db1\<lparr>en_events := en_events db1 @ [\<lparr>ev_key_id = ident, ev_commitment = field_hex c, ev_action = action,
           ev_root_revision = rr_revision root, ev_created_at = t2\<rparr>]\<rparr>" "merklePath svc row db' = Inr p"
    by (auto simp: enroll_transaction_def ebind_eq_Inr Let_def split: prod.splits)
  note rec = enroll_record_inv [OF svc inv c r(1)]
  have inv': "enroll_inv svc db'" using rec enroll_inv_cong [of db' db1 svc] p(1) by simp
  moreover have "row \<in> set (en_enrollments db')" using rec p(1) by simp
  ultimately show ?thesis using merklePath_correct [OF svc inv', of row] p(2) rec p(1) by auto
qed

lemma consume_tables:
  "en_enrollments (fst (fst (consume_enroll ops cid op c k t1 t2 st))) = en_enrollments (fst st)"
  "en_nodes (fst (fst (consume_enroll ops cid op c k t1 t2 st))) = en_nodes (fst st)"
  "en_roots (fst (fst (consume_enroll ops cid op c k t1 t2 st))) = en_roots (fst st)"
  by (auto simp: consume_enroll_def delete_expired_def Let_def split: jsval.splits option.splits)

lemma inv_consume_enroll: "enroll_inv svc (fst st) \<Longrightarrow> enroll_inv svc (fst (fst (consume_enroll ops cid op c k t1 t2 st)))"
  by (simp add: enroll_inv_cong [OF consume_tables])

lemma inv_issue_enroll: "enroll_inv svc (fst st) \<Longrightarrow> enroll_inv svc (fst (fst (issue svc ops op c k m now st)))"
proof -
  assume "enroll_inv svc (fst st)"
  then have "enroll_inv svc (delete_expired now (fst st))"
    using enroll_inv_cong [of "delete_expired now (fst st)" "fst st" svc] by (simp add: delete_expired_def)
  then show ?thesis
    using enroll_inv_cong [of "delete_expired now (fst st)\<lparr>en_challenges := x\<rparr>" "delete_expired now (fst st)" svc for x]
    by (auto simp: issue_def Let_def split: prod.splits sum.splits)
qed

lemma with_inputs_cases:
  assumes "\<And>c ident. in_field c \<Longrightarrow> P (body (field_hex c) ident)" and "\<And>e. P (st, Inl e)"
  shows "P (with_inputs cv kv st body)"
  using assms by (auto simp: with_inputs_def dest: field_value_Inr split: sum.splits)

lemma inv_enroll:
  assumes "svc_ok svc" and "enroll_inv svc (fst st)"
  shows "enroll_inv svc (fst (fst (enroll svc ops cid cv kv ob t1 t2 t3 t4 st)))"
  unfolding enroll_def
proof (rule with_inputs_cases)
  fix c ident
  assume c: "in_field c"
  obtain db g res where e: "consume_enroll ops cid OpEnroll (field_hex c) ident t1 t2 st = ((db, g), res)"
    by (metis surj_pair)
  have "enroll_inv svc db" using inv_consume_enroll [OF assms(2), of ops cid OpEnroll "field_hex c" ident t1 t2] e by simp
  with enroll_transaction_correct [OF assms(1) this c]
  show "enroll_inv svc (fst (fst (case consume_enroll ops cid OpEnroll (field_hex c) ident t1 t2 st of
         (st, Inl e) \<Rightarrow> (st, Inl e)
       | ((db, g), Inr challenge) \<Rightarrow>
           (case gate_accepts ops (ecr_mode challenge) (ecr_id challenge) ident ob g of
              (g, Inl e) \<Rightarrow> ((db, g), Inl e)
            | (g, Inr _) \<Rightarrow>
                (case enroll_transaction svc (field_hex c) ident t3 t4 db of
                   Inl e \<Rightarrow> ((db, g), Inl e)
                 | Inr (db', path) \<Rightarrow> ((db', g), Inr path))))))"
    unfolding e by (auto split: sum.splits prod.splits)
qed (use assms(2) in simp)

lemma inv_treePath:
  assumes "enroll_inv svc (fst st)"
  shows "enroll_inv svc (fst (fst (treePath svc ops cid cv kv ob t1 t2 st)))"
  unfolding treePath_def
proof (rule with_inputs_cases)
  fix c ident
  obtain db g res where e: "consume_enroll ops cid OpTree (field_hex c) ident t1 t2 st = ((db, g), res)"
    by (metis surj_pair)
  have "enroll_inv svc db" using inv_consume_enroll [OF assms, of ops cid OpTree "field_hex c" ident t1 t2] e by simp
  then show "enroll_inv svc (fst (fst (case consume_enroll ops cid OpTree (field_hex c) ident t1 t2 st of
         (st, Inl e) \<Rightarrow> (st, Inl e)
       | ((db, g), Inr challenge) \<Rightarrow>
           (case gate_accepts ops ForAssertion (ecr_id challenge) ident ob g of
              (g, Inl e) \<Rightarrow> ((db, g), Inl e)
            | (g, Inr _) \<Rightarrow>
                (case enrollment_of ident db of
                   None \<Rightarrow> ((db, g), efail E_unknown_observer)
                 | Some record \<Rightarrow>
                     if er_commitment record \<noteq> field_hex c then ((db, g), efail E_unknown_observer)
                     else ((db, g), merklePath svc record db))))))"
    unfolding e by (auto split: sum.splits prod.splits option.splits)
qed (use assms in simp)

lemma inv_issues:
  assumes "enroll_inv svc (fst st)"
  shows "enroll_inv svc (fst (fst (issueEnrollmentChallenge svc ops cv kv now st)))"
    and "enroll_inv svc (fst (fst (issueTreeChallenge svc ops cv kv now st)))"
  unfolding issueEnrollmentChallenge_def issueTreeChallenge_def
  by (rule with_inputs_cases, auto simp: assms inv_issue_enroll split: option.splits sum.splits)+

text \<open>Everything the service can do, with the gate changing its own state in between as it likes.\<close>

inductive enroll_step :: "service \<Rightarrow> 'g gate_ops \<Rightarrow> 'g enroll_state \<Rightarrow> 'g enroll_state \<Rightarrow> bool" for svc ops where
  gate_moves: "enroll_step svc ops (db, g) (db, g')"
| issue_enroll: "enroll_step svc ops st (fst (issueEnrollmentChallenge svc ops cv kv now st))"
| do_enroll: "enroll_step svc ops st (fst (enroll svc ops cid cv kv ob t1 t2 t3 t4 st))"
| issue_tree: "enroll_step svc ops st (fst (issueTreeChallenge svc ops cv kv now st))"
| do_tree: "enroll_step svc ops st (fst (treePath svc ops cid cv kv ob t1 t2 st))"

inductive enroll_run :: "service \<Rightarrow> 'g gate_ops \<Rightarrow> 'g enroll_state \<Rightarrow> 'g enroll_state \<Rightarrow> bool" for svc ops where
  refl: "enroll_run svc ops st st"
| step: "enroll_run svc ops st st' \<Longrightarrow> enroll_step svc ops st' st'' \<Longrightarrow> enroll_run svc ops st st''"

lemma inv_enroll_step: "enroll_step svc ops st st' \<Longrightarrow> svc_ok svc \<Longrightarrow> enroll_inv svc (fst st) \<Longrightarrow> enroll_inv svc (fst st')"
  by (induction rule: enroll_step.induct) (auto simp: inv_enroll inv_treePath inv_issues)

lemma inv_enroll_run: "enroll_run svc ops st st' \<Longrightarrow> svc_ok svc \<Longrightarrow> enroll_inv svc (fst st) \<Longrightarrow> enroll_inv svc (fst st')"
  by (induction rule: enroll_run.induct) (auto dest: inv_enroll_step)

section \<open>Opening a fresh database\<close>

lemma empty_levels_correct:
  assumes "\<And>xs. in_field (hash xs)"
  shows "empty_levels hash n (map (\<lambda>l. field_hex (zero_at (\<lambda>a b. hash [a, b]) 0 l)) [0..<Suc k]) =
    Inr (map (\<lambda>l. field_hex (zero_at (\<lambda>a b. hash [a, b]) 0 l)) [0..<Suc k + n])"
proof (induction n arbitrary: k)
  case (Suc n)
  have "in_field (zero_at (\<lambda>a b. hash [a, b]) 0 k)"
    using assms by (cases k) (simp_all add: in_field_def BN254_MODULUS_def)
  then show ?case using Suc.IH [of "Suc k"] by simp
qed simp

lemma openEnrollment_fresh:
  assumes hash: "\<And>xs. in_field (hash xs)" and ok: "openEnrollment hash limit path now fresh_enroll_db = Inr (svc, db)"
  shows "svc_ok svc \<and> enroll_inv svc db \<and> en_challenges db = []"
proof -
  have e: "empty_levels hash DEPTH [field_hex 0] = Inr (map (\<lambda>l. field_hex (zero_at (\<lambda>a b. hash [a, b]) 0 l)) [0..<21])"
    using empty_levels_correct [OF hash, where n = DEPTH and k = 0] by (simp add: DEPTH_def)
  from ok have s: "sv_hash svc = hash" "sv_empty svc = map (\<lambda>l. field_hex (zero_at (\<lambda>a b. hash [a, b]) 0 l)) [0..<21]"
    and d: "db = fresh_enroll_db\<lparr>en_roots := [\<lparr>rr_revision = 0, rr_root = field_hex (zero_at (\<lambda>a b. hash [a, b]) 0 20),
      rr_leaf_count = 0, rr_created_at = now\<rparr>]\<rparr>"
    by (auto simp: openEnrollment_def e [unfolded DEPTH_def] Let_def DEPTH_def fresh_enroll_db_def nth_append split: if_splits)
  have svc: "svc_ok svc" using hash s by (simp add: svc_ok_def)
  moreover have "enroll_inv svc db"
    using tree_ok_empty [OF svc] s
    by (simp add: d enroll_inv_def rows_ok_def fresh_enroll_db_def leaf_ints_def root_ok_def merkle_root_def subtree_beyond)
  ultimately show ?thesis by (simp add: d fresh_enroll_db_def)
qed

text \<open>An enrollment goes through whenever the key and the commitment are new and the tree has room.\<close>

lemma enroll_transaction_new:
  assumes svc: "svc_ok svc" and inv: "enroll_inv svc db" and c: "in_field c"
    and new: "enrollment_of ident db = None" "field_hex c \<notin> er_commitment ` set (en_enrollments db)"
    and n: "length (en_enrollments db) < 2 ^ 20"
  shows "\<exists>db' p row. enroll_transaction svc (field_hex c) ident t1 t2 db = Inr (db', p) \<and>
    en_enrollments db' = en_enrollments db @ [row] \<and> er_key_id row = ident"
proof -
  have idx: "next_leaf_index db = length (en_enrollments db)"
    using inv by (simp add: enroll_inv_def rows_ok_def next_leaf_index_rows)
  let ?row = "\<lparr>er_key_id = ident, er_commitment = field_hex c, er_observer_class = CLASS,
    er_leaf_index = length (en_enrollments db), er_leaf = field_hex (sv_hash svc [c, CLASS])\<rparr>"
  let ?db1 = "db\<lparr>en_enrollments := en_enrollments db @ [?row]\<rparr>"
  obtain nodes r where u: "updateTree svc (length (en_enrollments db)) (field_hex (sv_hash svc [c, CLASS])) t1 ?db1 =
      Inr (?db1\<lparr>en_nodes := nodes, en_roots := en_roots db @ [r]\<rparr>)"
    by (rule updateTree_correct [OF svc inv n, of ?row c t1]) (use c in auto)
  have rec: "enroll_record svc (field_hex c) ident t1 db =
      Inr (?db1\<lparr>en_nodes := nodes, en_roots := en_roots db @ [r]\<rparr>, ?row, Enrolled)"
    using new n c u by (simp add: enroll_record_def idx DEPTH_def Let_def)
  let ?db2 = "?db1\<lparr>en_nodes := nodes, en_roots := en_roots db @ [r]\<rparr>"
  note post = enroll_record_inv [OF svc inv c rec]
  from post obtain m where m: "rootState ?db2 = Inr m" by (auto simp: enroll_inv_def rootState_def)
  let ?db3 = "?db2\<lparr>en_events := en_events ?db2 @ [\<lparr>ev_key_id = ident, ev_commitment = field_hex c, ev_action = Enrolled,
           ev_root_revision = rr_revision m, ev_created_at = t2\<rparr>]\<rparr>"
  have "enroll_inv svc ?db3" using post enroll_inv_cong [of ?db3 ?db2 svc] by simp
  from merklePath_correct [OF svc this, of ?row] obtain p where "merklePath svc ?row ?db3 = Inr p" by auto
  with rec m have "enroll_transaction svc (field_hex c) ident t1 t2 db = Inr (?db3, p)"
    by (simp add: enroll_transaction_def Let_def)
  then show ?thesis by (intro exI [of _ ?db3] exI [of _ p] exI [of _ ?row]) simp
qed

section \<open>Challenges serve once\<close>

datatype enroll_request =
    EnrollRequest jsval jsval jsval bytes int int int int
  | TreeRequest jsval jsval jsval bytes int int

fun enroll_accept ::
  "service \<Rightarrow> 'g gate_ops \<Rightarrow> enroll_request \<Rightarrow> 'g enroll_state \<Rightarrow> 'g enroll_state \<times> (enroll_error + MerklePath)" where
  "enroll_accept svc ops (EnrollRequest cid cv kv ob t1 t2 t3 t4) st = enroll svc ops cid cv kv ob t1 t2 t3 t4 st"
| "enroll_accept svc ops (TreeRequest cid cv kv ob t1 t2) st = treePath svc ops cid cv kv ob t1 t2 st"

fun challenge_name :: "jsval \<Rightarrow> string" where
  "challenge_name (JStr s) = s"
| "challenge_name _ = []"

fun enroll_challenge :: "enroll_request \<Rightarrow> string" where
  "enroll_challenge (EnrollRequest cid cv kv ob t1 t2 t3 t4) = challenge_name cid"
| "enroll_challenge (TreeRequest cid cv kv ob t1 t2) = challenge_name cid"

definition enroll_pending :: "'g enroll_state \<Rightarrow> string set" where
  "enroll_pending st = ecr_id ` set (en_challenges (fst st))"

lemma consume_enroll_pending:
  "enroll_pending (fst (consume_enroll ops cid op c k t1 t2 st)) \<subseteq> enroll_pending st"
  "snd (consume_enroll ops cid op c k t1 t2 st) = Inr r \<Longrightarrow> challenge_name cid \<in> enroll_pending st \<and>
     challenge_name cid \<notin> enroll_pending (fst (consume_enroll ops cid op c k t1 t2 st))"
  by (auto simp: consume_enroll_def enroll_pending_def delete_expired_def Let_def
      dest!: find_SomeD split: jsval.splits option.splits if_splits)

lemma record_challenges: "enroll_record svc c ident t db = Inr (db', row, action) \<Longrightarrow> en_challenges db' = en_challenges db"
  by (auto simp: enroll_record_def updateTree_def ebind_eq_Inr Let_def split: option.splits if_splits prod.splits)

lemma transaction_challenges: "enroll_transaction svc c ident t1 t2 db = Inr (db', p) \<Longrightarrow> en_challenges db' = en_challenges db"
  by (auto simp: enroll_transaction_def ebind_eq_Inr Let_def dest!: record_challenges split: prod.splits)

text \<open>A request leaves the challenges the way its consumption does, and succeeds only if that does.\<close>

lemma enroll_accept_consumes:
  "enroll_pending (fst (enroll_accept svc ops a st)) \<subseteq> enroll_pending st \<and>
   (\<forall>p. snd (enroll_accept svc ops a st) = Inr p \<longrightarrow> enroll_challenge a \<in> enroll_pending st \<and>
      enroll_challenge a \<notin> enroll_pending (fst (enroll_accept svc ops a st)))"
proof (cases a)
  case (EnrollRequest cid cv kv ob t1 t2 t3 t4)
  show ?thesis unfolding EnrollRequest enroll_accept.simps enroll_challenge.simps enroll_def
  proof (rule with_inputs_cases, goal_cases)
    case (1 c ident)
    obtain db g res where e: "consume_enroll ops cid OpEnroll (field_hex c) ident t1 t2 st = ((db, g), res)" by (metis surj_pair)
    from consume_enroll_pending [of ops cid OpEnroll "field_hex c" ident t1 t2 st] show ?case
      by (auto simp: e enroll_pending_def dest!: transaction_challenges split: sum.splits prod.splits)
  qed simp
next
  case (TreeRequest cid cv kv ob t1 t2)
  show ?thesis unfolding TreeRequest enroll_accept.simps enroll_challenge.simps treePath_def
  proof (rule with_inputs_cases, goal_cases)
    case (1 c ident)
    obtain db g res where e: "consume_enroll ops cid OpTree (field_hex c) ident t1 t2 st = ((db, g), res)" by (metis surj_pair)
    from consume_enroll_pending [of ops cid OpTree "field_hex c" ident t1 t2 st] show ?case
      by (auto simp: e enroll_pending_def split: sum.splits prod.splits option.splits)
  qed simp
qed

interpretation enrollment: one_shot enroll_pending "enroll_accept svc ops" enroll_challenge for svc and ops :: "'g gate_ops"
  by unfold_locales (use enroll_accept_consumes in blast)+

section \<open>Properties\<close>

text \<open>C5. In every state the service can reach from a fresh database, whatever the gate does, the path
  handed out for an enrolled observer exists and is valid: twenty canonical siblings fold the
  observer's leaf into the published root, which is the root of the reference tree over all enrolled
  leaves in order.  The hypothesis on Poseidon is that it returns canonical field elements.\<close>

theorem enrolled_paths_valid:
  assumes "\<And>xs. in_field (hash xs)" and "openEnrollment hash limit path now fresh_enroll_db = Inr (svc, db0)"
    and "enroll_run svc ops (db0, g0) (db, g)" and "row \<in> set (en_enrollments db)"
  shows "\<exists>p. merklePath svc row db = Inr p \<and> path_valid svc p \<and> mp_commitment p = er_commitment row \<and>
    mp_leafIndex p = er_leaf_index row \<and> mp_root p = field_hex (merkle_root (tree_hash svc) 0 20 (leaf_ints svc db)) \<and>
    mp_rootRevision p = int (length (en_enrollments db))"
proof -
  note o = openEnrollment_fresh [OF assms(1,2)]
  have "enroll_inv svc db" using inv_enroll_run [OF assms(3)] o by simp
  with o assms(4) show ?thesis by (intro merklePath_correct) auto
qed

text \<open>In every reachable state the enrollment table and the root history agree: leaf indices are
  0, 1, 2, ... in order, keys and commitments are distinct, and a publication batch is never the
  consistency error; there is one exactly when the current revision is newer than the published one
  and somebody is enrolled, and it carries the current root and count.\<close>

theorem publication_batch_consistent:
  assumes "\<And>xs. in_field (hash xs)" and "openEnrollment hash limit path now fresh_enroll_db = Inr (svc, db0)"
    and "enroll_run svc ops (db0, g0) (db, g)"
  shows "rows_ok svc (en_enrollments db) \<and>
    (if int (length (en_enrollments db)) \<le> after \<or> en_enrollments db = [] then publicationBatch after db = Inr None
     else \<exists>s t. publicationBatch after db = Inr (Some (s, t)) \<and> sn_leafCount s = int (length (en_enrollments db)) \<and>
       sn_revision s = int (length (en_enrollments db)) \<and>
       sn_root s = field_hex (merkle_root (tree_hash svc) 0 20 (leaf_ints svc db)))"
proof -
  have "enroll_inv svc db" using inv_enroll_run [OF assms(3)] openEnrollment_fresh [OF assms(1,2)] by simp
  then obtain r where "rows_ok svc (en_enrollments db)" "latest_root (en_roots db) = Some r" "root_ok svc db r"
    by (auto simp: enroll_inv_def)
  then show ?thesis by (auto simp: publicationBatch_def rootState_def root_ok_def)
qed

text \<open>Enrollment challenges are one-time: in any sequence of enroll and tree requests, no challenge
  is accepted twice.\<close>

theorem enrollment_challenges_one_shot:
  "distinct (served (enroll_accept svc ops) enroll_challenge requests st)"
  by (rule enrollment.served_once)

text \<open>The gate of \<open>Attest_Gate\<close> as the service sees it, with its clock and random source fixed.\<close>

definition app_attest_ops ::
  "x509 \<Rightarrow> AppAttestGate \<Rightarrow> int \<Rightarrow> string \<Rightarrow> bytes \<Rightarrow> gate_db gate_ops" where
  "app_attest_ops lib gate now uuid random = \<lparr>
     go_issueChallenge = (\<lambda>p k. issueChallenge gate p k uuid random now now now),
     go_acceptAttestation = (\<lambda>c k ob. acceptAttestation lib gate c k ob now now now),
     go_acceptAssertion = (\<lambda>c k ob. acceptAssertion lib gate c k ob now now),
     go_getKey = getKey, go_purgeExpiredChallenges = Some (purgeExpiredChallenges now),
     go_discardChallenge = Some discardChallenge\<rparr>"

text \<open>A gate that accepts everything, for a concrete run.\<close>

definition open_gate_ops :: "unit gate_ops" where
  "open_gate_ops = \<lparr>
     go_issueChallenge = (\<lambda>p k g. (g, Inr \<lparr>ic_id = ''c'', ic_bytes = zeros 32, ic_expiresAt = 100\<rparr>)),
     go_acceptAttestation = (\<lambda>c k ob g. (g, Inr (sample_key 0))), go_acceptAssertion = (\<lambda>c k ob g. (g, Inr (sample_key 0))),
     go_getKey = (\<lambda>k g. Inr None), go_purgeExpiredChallenges = None, go_discardChallenge = None\<rparr>"

lemma concrete_run:
  obtains svc db0 db where "openEnrollment (\<lambda>_. 0) None ''x'' 0 fresh_enroll_db = Inr (svc, db0)"
    "enroll_run svc open_gate_ops (db0, ()) (db, ())" "length (en_enrollments db) = 1"
proof -
  have hash: "in_field ((\<lambda>_ :: int list. 0) xs)" for xs by (simp add: in_field_def BN254_MODULUS_def)
  let ?E = "map (\<lambda>l. field_hex (zero_at (\<lambda>a b. 0) 0 l)) [0..<21]"
  define svc where "svc = \<lparr>sv_hash = (\<lambda>_. 0), sv_empty = ?E, sv_maxPending = 1024\<rparr>"
  define db0 where "db0 = fresh_enroll_db\<lparr>en_roots := [\<lparr>rr_revision = 0, rr_root = ?E ! 20, rr_leaf_count = 0, rr_created_at = 0\<rparr>]\<rparr>"
  have "empty_levels (\<lambda>_. 0) 20 [field_hex 0] = Inr ?E"
    using empty_levels_correct [OF hash, where n = 20 and k = 0] by simp
  then have o: "openEnrollment (\<lambda>_. 0) None ''x'' 0 fresh_enroll_db = Inr (svc, db0)"
    by (simp add: openEnrollment_def DEPTH_def fresh_enroll_db_def svc_def db0_def)
  have svc: "svc_ok svc" "enroll_inv svc db0" using openEnrollment_fresh [OF hash o] by auto
  let ?k = "b64_enc (zeros 32)"
  have in0: "in_field 0" by (simp add: in_field_def BN254_MODULUS_def)
  have inputs: "with_inputs (JStr (field_hex 0)) (JStr ?k) st body = body (field_hex 0) ?k"
    for st :: "unit enroll_state" and body :: "string \<Rightarrow> string \<Rightarrow> unit enroll_state \<times> (enroll_error + 'r)"
    using in0 by (simp add: with_inputs_def field_value_def enroll_keyID_def key_id_pattern_enc)
  define row where "row = \<lparr>ecr_id = ''c'', ecr_operation = OpEnroll, ecr_commitment = field_hex 0, ecr_key_id = ?k,
    ecr_mode = ForAttestation, ecr_expires_at = 100\<rparr>"
  have s1: "fst (issueEnrollmentChallenge svc open_gate_ops (JStr (field_hex 0)) (JStr ?k) 0 (db0, ())) =
      (db0\<lparr>en_challenges := [row]\<rparr>, ())"
    unfolding issueEnrollmentChallenge_def inputs
    by (simp add: enrollment_of_def db0_def fresh_enroll_db_def open_gate_ops_def issue_def gate_purge_def delete_expired_def
        has_capacity_def svc_def row_def)
  have c: "consume_enroll open_gate_ops (JStr ''c'') OpEnroll (field_hex 0) ?k 0 0 (db0\<lparr>en_challenges := [row]\<rparr>, ()) = ((db0, ()), Inr row)"
    by (simp add: consume_enroll_def gate_purge_def delete_expired_def row_def challenge_matches_def db0_def fresh_enroll_db_def Let_def)
  obtain db' p where t: "enroll_transaction svc (field_hex 0) ?k 0 0 db0 = Inr (db', p)" "length (en_enrollments db') = 1"
    using enroll_transaction_new [OF svc in0, of ?k 0 0] by (auto simp: enrollment_of_def db0_def fresh_enroll_db_def)
  have s2: "fst (enroll svc open_gate_ops (JStr ''c'') (JStr (field_hex 0)) (JStr ?k) [] 0 0 0 0 (db0\<lparr>en_challenges := [row]\<rparr>, ())) = (db', ())"
    unfolding enroll_def inputs c using t by (simp add: gate_accepts_def open_gate_ops_def row_def)
  have "enroll_run svc open_gate_ops (db0, ()) (db', ())"
  proof (rule enroll_run.step [OF enroll_run.step [OF enroll_run.refl]])
    show "enroll_step svc open_gate_ops (db0, ()) (db0\<lparr>en_challenges := [row]\<rparr>, ())"
      unfolding s1 [symmetric] by (rule enroll_step.issue_enroll)
    show "enroll_step svc open_gate_ops (db0\<lparr>en_challenges := [row]\<rparr>, ()) (db', ())"
      unfolding s2 [symmetric] by (rule enroll_step.do_enroll)
  qed
  with that [OF o] t(2) show thesis by blast
qed

theorem enrolled_paths_valid_witness:
  "\<exists>svc db0 db row p. openEnrollment (\<lambda>_. 0) None ''x'' 0 fresh_enroll_db = Inr (svc, db0) \<and>
     enroll_run svc open_gate_ops (db0, ()) (db, ()) \<and> merklePath svc row db = Inr p \<and> path_valid svc p \<and> mp_rootRevision p = 1"
proof -
  have hash: "in_field ((\<lambda>_ :: int list. 0) xs)" for xs by (simp add: in_field_def BN254_MODULUS_def)
  obtain svc db0 db where r: "openEnrollment (\<lambda>_. 0) None ''x'' 0 fresh_enroll_db = Inr (svc, db0)"
    "enroll_run svc open_gate_ops (db0, ()) (db, ())" "length (en_enrollments db) = 1" by (rule concrete_run)
  then obtain row where row: "row \<in> set (en_enrollments db)" by (cases "en_enrollments db") auto
  from enrolled_paths_valid [OF hash r(1,2) row] r show ?thesis by auto
qed

theorem publication_batch_consistent_witness:
  "\<exists>svc db0 db s t. openEnrollment (\<lambda>_. 0) None ''x'' 0 fresh_enroll_db = Inr (svc, db0) \<and>
     enroll_run svc open_gate_ops (db0, ()) (db, ()) \<and> publicationBatch 0 db = Inr (Some (s, t)) \<and> sn_leafCount s = 1"
proof -
  have hash: "in_field ((\<lambda>_ :: int list. 0) xs)" for xs by (simp add: in_field_def BN254_MODULUS_def)
  obtain svc db0 db where r: "openEnrollment (\<lambda>_. 0) None ''x'' 0 fresh_enroll_db = Inr (svc, db0)"
    "enroll_run svc open_gate_ops (db0, ()) (db, ())" "length (en_enrollments db) = 1" by (rule concrete_run)
  from publication_batch_consistent [OF hash r(1,2), of 0] r(3) have
    "\<exists>s t. publicationBatch 0 db = Inr (Some (s, t)) \<and> sn_leafCount s = 1" by (auto split: if_splits)
  with r(1,2) show ?thesis by blast
qed

end
