(* ===== verification/Root_Publication.thy ===== *)
theory Root_Publication
  imports Enrollment Authorization
begin

text \<open>
  The root publisher of \<^verbatim>\<open>root-publication.ts\<close> and its Solana transport of
  \<^verbatim>\<open>solana-root-publication.ts\<close>.  The publisher keeps a table of publications and a cached health
  check.  One run of \<^verbatim>\<open>#publish\<close> is one function: what the transport answers to each awaited call
  and what the clock reads at each use are arguments.  Runs never overlap, because \<^verbatim>\<open>tick\<close> returns
  the run in progress; between runs the source may change at will.  The transaction that is submitted
  is returned together with the table as it was at that moment, so that a crash during the submission
  is a state of the model.
\<close>

section \<open>State\<close>

datatype publication_code =
  PInvalid_config | PInvalid_target | PInvalid_authority | PAccount_mismatch | PRpc_error | PStorage_error

text \<open>A thrown value: a publication error with its code, or any other error.\<close>

type_synonym publication_fault = "publication_code option"

definition fault_code :: "publication_code \<Rightarrow> publication_fault \<Rightarrow> publication_code" where
  "fault_code other f = (case f of Some c \<Rightarrow> c | None \<Rightarrow> other)"

record PreparedRootTransaction =
  pt_wire :: string
  pt_lastValidBlockHeight :: int

datatype publication_status = PubPending | PubSubmitted | PubConfirmed

record PublicationRow =
  pr_revision :: int
  pr_root :: string
  pr_leaf_count :: int
  pr_created_at :: int
  pr_status :: publication_status
  pr_wire :: "string option"
  pr_last_valid_height :: "int option"
  pr_signature :: "string option"
  pr_checked_slot :: "int option"
  pr_attempts :: nat
  pr_retry_at :: int
  pr_last_error :: "publication_code option"

record root_check =
  ck_revision :: int
  ck_active :: "bool option"
  ck_at :: int
  ck_slot :: "int option"
  ck_error :: "publication_code option"

record publisher =
  pb_rows :: "PublicationRow list"
  pb_target :: "string option"
  pb_checked :: "root_check option"
  pb_backgroundError :: "publication_code option"

record publisher_config =
  pg_batchSize :: int
  pg_maxDelayMs :: int

definition openPublisher ::
  "jsnum option \<Rightarrow> jsnum option \<Rightarrow> string \<Rightarrow> publisher \<Rightarrow> publication_code + publisher_config \<times> publisher" where
  "openPublisher batchSize maxDelayMs target st =
     (let batchSize = (case batchSize of None \<Rightarrow> JInt 16 | Some n \<Rightarrow> n);
          maxDelayMs = (case maxDelayMs of None \<Rightarrow> JInt 30000 | Some n \<Rightarrow> n)
      in if \<not> int_in batchSize 1 (2 ^ 20) \<or> \<not> int_in maxDelayMs 1 3600000 then Inl PInvalid_config
         else let stored = (case pb_target st of None \<Rightarrow> target | Some t \<Rightarrow> t)
              in if stored \<noteq> target then Inl PInvalid_target
                 else Inr (\<lparr>pg_batchSize = jint batchSize, pg_maxDelayMs = jint maxDelayMs\<rparr>,
                   st\<lparr>pb_target := Some stored, pb_checked := None, pb_backgroundError := None\<rparr>))"

definition fresh_publisher :: publisher where
  "fresh_publisher = \<lparr>pb_rows = [], pb_target = None, pb_checked = None, pb_backgroundError = None\<rparr>"

section \<open>Queries and updates\<close>

text \<open>\<^verbatim>\<open>ORDER BY revision DESC LIMIT 1\<close> and \<^verbatim>\<open>ORDER BY revision LIMIT 1\<close>.\<close>

definition highest_revision :: "PublicationRow list \<Rightarrow> PublicationRow option" where
  "highest_revision rows = find (\<lambda>r. list_all (\<lambda>q. pr_revision q \<le> pr_revision r) rows) rows"

definition lowest_revision :: "PublicationRow list \<Rightarrow> PublicationRow option" where
  "lowest_revision rows = find (\<lambda>r. list_all (\<lambda>q. pr_revision r \<le> pr_revision q) rows) rows"

definition latest :: "PublicationRow list \<Rightarrow> PublicationRow option" where
  "latest rows = highest_revision (filter (\<lambda>r. pr_status r = PubConfirmed) rows)"

definition pending_row :: "PublicationRow list \<Rightarrow> PublicationRow option" where
  "pending_row rows = lowest_revision (filter (\<lambda>r. pr_status r \<noteq> PubConfirmed) rows)"

definition set_row :: "int \<Rightarrow> (PublicationRow \<Rightarrow> PublicationRow) \<Rightarrow> PublicationRow list \<Rightarrow> PublicationRow list" where
  "set_row revision f rows = map (\<lambda>r. if pr_revision r = revision then f r else r) rows"

definition row_snapshot :: "PublicationRow \<Rightarrow> ObserverRootSnapshot" where
  "row_snapshot r = \<lparr>sn_root = pr_root r, sn_revision = pr_revision r, sn_leafCount = pr_leaf_count r,
     sn_createdAt = pr_created_at r\<rparr>"

definition insert_publication :: "ObserverRootSnapshot \<Rightarrow> PublicationRow list \<Rightarrow> PublicationRow list option" where
  "insert_publication s rows =
     (if sn_revision s \<in> pr_revision ` set rows then None
      else Some (rows @ [\<lparr>pr_revision = sn_revision s, pr_root = sn_root s, pr_leaf_count = sn_leafCount s,
        pr_created_at = sn_createdAt s, pr_status = PubPending, pr_wire = None, pr_last_valid_height = None,
        pr_signature = None, pr_checked_slot = None, pr_attempts = 0, pr_retry_at = 0, pr_last_error = None\<rparr>]))"

section \<open>One run of the publisher\<close>

text \<open>What the transport answers in one run: \<open>tr_check\<close> to the health check, \<open>tr_inspect1\<close> and
  \<open>tr_inspect2\<close> to the inspections before and after the submission.\<close>

record root_transport =
  tr_check :: "ObserverRootSnapshot \<Rightarrow> publication_fault + (int \<times> bool) option"
  tr_inspect1 :: "ObserverRootSnapshot \<Rightarrow> publication_fault + (int \<times> bool) option"
  tr_expired :: "PreparedRootTransaction \<Rightarrow> publication_fault + bool"
  tr_prepare :: "ObserverRootSnapshot \<Rightarrow> publication_fault + PreparedRootTransaction"
  tr_send :: "PreparedRootTransaction \<Rightarrow> publication_fault + string"
  tr_inspect2 :: "ObserverRootSnapshot \<Rightarrow> publication_fault + (int \<times> bool) option"

record tick_clock =
  tc_check :: int
  tc_checked :: int
  tc_batch :: int
  tc_retry :: int
  tc_end :: int

definition health_check :: "root_transport \<Rightarrow> tick_clock \<Rightarrow> publisher \<Rightarrow> publisher" where
  "health_check tr clk st =
     (case latest (pb_rows st) of None \<Rightarrow> st
      | Some confirmed \<Rightarrow>
          if \<not> (case pb_checked st of None \<Rightarrow> True | Some c \<Rightarrow> tc_check clk - ck_at c \<ge> 30000) then st
          else st\<lparr>pb_checked := Some (case tr_check tr (row_snapshot confirmed) of
            Inr record \<Rightarrow> \<lparr>ck_revision = pr_revision confirmed,
              ck_active = Some (case record of None \<Rightarrow> False | Some (_, active) \<Rightarrow> active), ck_at = tc_checked clk,
              ck_slot = map_option fst record, ck_error = None\<rparr>
          | Inl f \<Rightarrow> \<lparr>ck_revision = pr_revision confirmed, ck_active = None, ck_at = tc_checked clk, ck_slot = None,
              ck_error = Some (fault_code PRpc_error f)\<rparr>)\<rparr>)"

text \<open>The pending row, or a row inserted for a batch that is large or old enough: \<open>Inr None\<close> is the
  early return.\<close>

definition select_row ::
  "publisher_config \<Rightarrow> (int \<Rightarrow> 's \<Rightarrow> 'e + (ObserverRootSnapshot \<times> int) option) \<Rightarrow> bool \<Rightarrow> 's \<Rightarrow> tick_clock \<Rightarrow>
     PublicationRow list \<Rightarrow> publication_fault + (PublicationRow \<times> PublicationRow list) option" where
  "select_row cfg batch force src clk rows =
     (case pending_row rows of Some row \<Rightarrow> Inr (Some (row, rows))
      | None \<Rightarrow>
          let latest = latest rows
          in case batch (case latest of None \<Rightarrow> 0 | Some l \<Rightarrow> pr_revision l) src of
            Inl _ \<Rightarrow> Inl None
          | Inr None \<Rightarrow> Inr None
          | Inr (Some (snapshot, oldestPendingAt)) \<Rightarrow>
              if \<not> force \<and> sn_leafCount snapshot - (case latest of None \<Rightarrow> 0 | Some l \<Rightarrow> pr_leaf_count l) < pg_batchSize cfg \<and>
                 tc_batch clk - oldestPendingAt < pg_maxDelayMs cfg then Inr None
              else case insert_publication snapshot rows of None \<Rightarrow> Inl None
                | Some rows' \<Rightarrow> Inr (map_option (\<lambda>row. (row, rows')) (pending_row rows')))"

definition stored_transaction :: "PublicationRow \<Rightarrow> PreparedRootTransaction option" where
  "stored_transaction row =
     (case (pr_wire row, pr_last_valid_height row) of
        (Some w, Some h) \<Rightarrow> Some \<lparr>pt_wire = w, pt_lastValidBlockHeight = h\<rparr> | _ \<Rightarrow> None)"

definition persist_transaction :: "PreparedRootTransaction \<Rightarrow> PublicationRow \<Rightarrow> PublicationRow" where
  "persist_transaction p r = r\<lparr>pr_wire := Some (pt_wire p), pr_last_valid_height := Some (pt_lastValidBlockHeight p),
     pr_status := PubSubmitted, pr_signature := None\<rparr>"

text \<open>The transaction to submit and the table it is persisted in.\<close>

definition choose_transaction ::
  "root_transport \<Rightarrow> PublicationRow \<Rightarrow> PublicationRow list \<Rightarrow>
     publication_fault + PreparedRootTransaction \<times> PublicationRow list" where
  "choose_transaction tr row rows =
     ebind (case stored_transaction row of None \<Rightarrow> Inr None
       | Some p \<Rightarrow> ebind (tr_expired tr p) (\<lambda>x. Inr (if x then None else Some p))) (\<lambda>prepared.
     case prepared of Some p \<Rightarrow> Inr (p, rows)
     | None \<Rightarrow> ebind (tr_prepare tr (row_snapshot row)) (\<lambda>p.
         Inr (p, set_row (pr_revision row) (persist_transaction p) rows)))"

text \<open>The body of the \<^verbatim>\<open>try\<close>: the submission with the table it saw, the table it leaves, and the
  inspection or the fault it ends with.\<close>

definition attempt ::
  "root_transport \<Rightarrow> PublicationRow \<Rightarrow> PublicationRow list \<Rightarrow>
     (PreparedRootTransaction \<times> PublicationRow list) option \<times> PublicationRow list \<times>
     (publication_fault + (int \<times> bool) option)" where
  "attempt tr row rows =
     (case tr_inspect1 tr (row_snapshot row) of
        Inl f \<Rightarrow> (None, rows, Inl f)
      | Inr (Some i) \<Rightarrow> (None, rows, Inr (Some i))
      | Inr None \<Rightarrow>
          (case choose_transaction tr row rows of
             Inl f \<Rightarrow> (None, rows, Inl f)
           | Inr (p, rows') \<Rightarrow>
               (case tr_send tr p of
                  Inl f \<Rightarrow> (Some (p, rows'), rows', Inl f)
                | Inr signature \<Rightarrow>
                    (Some (p, rows'), set_row (pr_revision row) (\<lambda>r. r\<lparr>pr_signature := Some signature\<rparr>) rows',
                     tr_inspect2 tr (row_snapshot row)))))"

definition confirm_row :: "int \<Rightarrow> PublicationRow \<Rightarrow> PublicationRow" where
  "confirm_row slot r = r\<lparr>pr_status := PubConfirmed, pr_checked_slot := Some slot, pr_wire := None,
     pr_last_valid_height := None, pr_last_error := None, pr_retry_at := 0\<rparr>"

definition retry_delay :: "nat \<Rightarrow> int" where
  "retry_delay attempts = min 30000 (1000 * 2 ^ min attempts 5)"

definition conclude :: "tick_clock \<Rightarrow> PublicationRow \<Rightarrow> (publication_fault + (int \<times> bool) option) \<Rightarrow> publisher \<Rightarrow> publisher" where
  "conclude clk row outcome st =
     (let update = (\<lambda>f. st\<lparr>pb_rows := set_row (pr_revision row) f (pb_rows st)\<rparr>)
      in case outcome of
        Inr (Some (slot, active)) \<Rightarrow>
          (update (confirm_row slot))\<lparr>pb_checked := Some \<lparr>ck_revision = pr_revision row, ck_active = Some active,
            ck_at = tc_end clk, ck_slot = Some slot, ck_error = None\<rparr>\<rparr>
      | Inr None \<Rightarrow> update (\<lambda>r. r\<lparr>pr_retry_at := tc_end clk + 2000\<rparr>)
      | Inl f \<Rightarrow> update (\<lambda>r. r\<lparr>pr_attempts := pr_attempts r + 1,
          pr_retry_at := tc_end clk + retry_delay (pr_attempts row), pr_last_error := Some (fault_code PRpc_error f)\<rparr>))"

definition publish ::
  "publisher_config \<Rightarrow> (int \<Rightarrow> 's \<Rightarrow> 'e + (ObserverRootSnapshot \<times> int) option) \<Rightarrow> bool \<Rightarrow> 's \<Rightarrow> root_transport \<Rightarrow>
     tick_clock \<Rightarrow> publisher \<Rightarrow>
     (PreparedRootTransaction \<times> PublicationRow list) option \<times> publisher \<times> (publication_fault + unit)" where
  "publish cfg batch force src tr clk st =
     (let st = health_check tr clk st
      in case select_row cfg batch force src clk (pb_rows st) of
        Inl f \<Rightarrow> (None, st, Inl f)
      | Inr None \<Rightarrow> (None, st, Inr ())
      | Inr (Some (row, rows)) \<Rightarrow>
          let st = st\<lparr>pb_rows := rows\<rparr>
          in if tc_retry clk < pr_retry_at row then (None, st, Inr ())
             else case attempt tr row rows of (sent, rows', outcome) \<Rightarrow>
               (sent, conclude clk row outcome (st\<lparr>pb_rows := rows'\<rparr>), Inr ()))"

definition tick ::
  "publisher_config \<Rightarrow> (int \<Rightarrow> 's \<Rightarrow> 'e + (ObserverRootSnapshot \<times> int) option) \<Rightarrow> bool \<Rightarrow> 's \<Rightarrow> root_transport \<Rightarrow>
     tick_clock \<Rightarrow> publisher \<Rightarrow> (PreparedRootTransaction \<times> PublicationRow list) option \<times> publisher" where
  "tick cfg batch force src tr clk st =
     (case publish cfg batch force src tr clk (st\<lparr>pb_backgroundError := None\<rparr>) of
        (sent, st', Inr _) \<Rightarrow> (sent, st')
      | (sent, st', Inl f) \<Rightarrow> (sent, st'\<lparr>pb_backgroundError := Some (fault_code PStorage_error f)\<rparr>))"

section \<open>Status\<close>

datatype publisher_state = StRetrying | StPending | StConfirmed | StInactive | StChecking | StEmpty

record ConfirmedStatus =
  cs_root :: string
  cs_revision :: int
  cs_leafCount :: int
  cs_checkedAtSlot :: "int option"
  cs_signature :: "string option"
  cs_active :: "bool option"
  cs_lastCheckedAt :: "int option"
  cs_address :: string
  cs_explorer :: "string option"

record PublisherStatus =
  pst_state :: publisher_state
  pst_pendingRevision :: "int option"
  pst_lastError :: "publication_code option"
  pst_confirmed :: "ConfirmedStatus option"

definition or_else :: "'a option \<Rightarrow> 'a option \<Rightarrow> 'a option" where
  "or_else a b = (case a of None \<Rightarrow> b | Some _ \<Rightarrow> a)"

text \<open>A source that throws makes the status throw.\<close>

definition publisher_status ::
  "(int \<Rightarrow> 's \<Rightarrow> 'e + (ObserverRootSnapshot \<times> int) option) \<Rightarrow> (string \<Rightarrow> string) \<Rightarrow> bool \<Rightarrow> 's \<Rightarrow> publisher \<Rightarrow> 'e + PublisherStatus" where
  "publisher_status batch address devnet src st =
     (let latest = latest (pb_rows st); pending = pending_row (pb_rows st); checked = pb_checked st
      in ebind (batch (case latest of None \<Rightarrow> 0 | Some l \<Rightarrow> pr_revision l) src) (\<lambda>batch.
         Inr \<lparr>pst_state =
           (if Option.bind pending pr_last_error \<noteq> None then StRetrying
            else if pending \<noteq> None \<or> batch \<noteq> None then StPending
            else if latest \<noteq> None then
              (if Option.bind checked ck_active = Some True then StConfirmed
               else if Option.bind checked ck_active = Some False then StInactive else StChecking)
            else StEmpty),
          pst_pendingRevision = or_else (map_option (sn_revision \<circ> fst) batch) (map_option pr_revision pending),
          pst_lastError = or_else (Option.bind pending pr_last_error) (or_else (Option.bind checked ck_error) (pb_backgroundError st)),
          pst_confirmed = map_option (\<lambda>l.
            let current = (case checked of Some c \<Rightarrow> if ck_revision c = pr_revision l then Some c else None | None \<Rightarrow> None)
            in \<lparr>cs_root = pr_root l, cs_revision = pr_revision l, cs_leafCount = pr_leaf_count l,
                cs_checkedAtSlot = Option.bind current ck_slot, cs_signature = pr_signature l,
                cs_active = Option.bind current ck_active, cs_lastCheckedAt = map_option ck_at current,
                cs_address = address (pr_root l),
                cs_explorer = (if devnet then Some (''https://explorer.solana.com/address/'' @ address (pr_root l) @ ''?cluster=devnet'')
                  else None)\<rparr>) latest\<rparr>))"

section \<open>The Solana transport\<close>

record AccountInfo =
  ac_owner :: pubkey
  ac_executable :: bool
  ac_data :: bytes

definition rootBytes :: "string \<Rightarrow> publication_fault + bytes" where
  "rootBytes root =
     (if \<not> (take 2 root = ''0x'' \<and> is_hex 64 (drop 2 root)) \<or> hex_int (drop 2 root) \<ge> BN254_MODULUS
      then Inl (Some PAccount_mismatch) else Inr (bytes_of_hex (drop 2 root)))"

text \<open>An error of the registry client is an ordinary error.\<close>

definition root_address :: "chain \<Rightarrow> pubkey \<Rightarrow> string \<Rightarrow> publication_fault + pubkey" where
  "root_address ch program root =
     ebind (of_opt None (registryAddresses ch program (zeros 32))) (\<lambda>a.
     ebind (rootBytes root) (\<lambda>r. of_opt None (ra_root a r)))"

definition checkEnrollment :: "chain \<Rightarrow> pubkey \<Rightarrow> pubkey \<Rightarrow> AccountInfo option \<Rightarrow> publication_fault + EnrollmentAuthority" where
  "checkEnrollment ch program signer account =
     (case account of None \<Rightarrow> Inl (Some PInvalid_target)
      | Some a \<Rightarrow>
          if ac_owner a \<noteq> program then Inl (Some PInvalid_target)
          else ebind (of_opt (Some PAccount_mismatch) (decodeEnrollment ch (ac_data a))) (\<lambda>e.
            if ea_authority e \<noteq> signer then Inl (Some PInvalid_authority) else Inr e))"

definition check_root_record ::
  "chain \<Rightarrow> pubkey \<Rightarrow> ObserverRootSnapshot \<Rightarrow> int \<Rightarrow> EnrollmentAuthority \<Rightarrow> bytes \<Rightarrow> (int \<times> bool) option" where
  "check_root_record ch signer snapshot slot enrollment data = do {
     record \<leftarrow> decodeRoot ch data;
     if rootBytes (sn_root snapshot) \<noteq> Inr (or_root record) \<or> or_leafCount record \<noteq> sn_leafCount snapshot \<or>
        or_authority record \<noteq> signer \<or> or_publishedAt record \<le> 0 then None
     else Some (slot, or_root record \<in> set (activeRoots enrollment)) }"

definition inspect_account ::
  "chain \<Rightarrow> pubkey \<Rightarrow> pubkey \<Rightarrow> ObserverRootSnapshot \<Rightarrow> int \<Rightarrow> AccountInfo option \<Rightarrow> EnrollmentAuthority \<Rightarrow>
     publication_fault + (int \<times> bool) option" where
  "inspect_account ch program signer snapshot slot account enrollment =
     (case account of None \<Rightarrow> Inr None
      | Some a \<Rightarrow>
          if ac_owner a \<noteq> program then Inl (Some PAccount_mismatch)
          else of_opt (Some PAccount_mismatch) (map_option Some
            (check_root_record ch signer snapshot slot enrollment (ac_data a))))"

text \<open>\<open>fetch\<close> is the RPC call: the slot and the two accounts, or its failure.\<close>

definition inspect_root ::
  "chain \<Rightarrow> pubkey \<Rightarrow> pubkey \<Rightarrow> (pubkey \<Rightarrow> pubkey \<Rightarrow> publication_fault + int \<times> AccountInfo option \<times> AccountInfo option) \<Rightarrow>
     ObserverRootSnapshot \<Rightarrow> publication_fault + (int \<times> bool) option" where
  "inspect_root ch program signer fetch snapshot =
     ebind (root_address ch program (sn_root snapshot)) (\<lambda>address.
     ebind (of_opt None (registryAddresses ch program (zeros 32))) (\<lambda>a.
     ebind (fetch address (ra_enrollment a)) (\<lambda>(slot, account, enrollmentAccount).
     if enrollmentAccount = None then Inl (Some PRpc_error)
     else ebind (checkEnrollment ch program signer enrollmentAccount)
       (inspect_account ch program signer snapshot slot account))))"

text \<open>\<open>serialize\<close> builds, signs and serializes the transaction from the compute limit, the compute
  price, the blockhash and the instruction.\<close>

definition prepare_root ::
  "chain \<Rightarrow> pubkey \<Rightarrow> pubkey \<Rightarrow> (int \<Rightarrow> int \<Rightarrow> 'b \<Rightarrow> TransactionInstruction \<Rightarrow> publication_fault + bytes) \<Rightarrow>
     (publication_fault + 'b \<times> int) \<Rightarrow> ObserverRootSnapshot \<Rightarrow> publication_fault + PreparedRootTransaction" where
  "prepare_root ch program signer serialize latestBlockhash snapshot =
     ebind latestBlockhash (\<lambda>(blockhash, lastValidBlockHeight).
     ebind (rootBytes (sn_root snapshot)) (\<lambda>r.
     ebind (of_opt None (publishRoot ch program signer r (JInt (sn_leafCount snapshot)))) (\<lambda>ix.
     ebind (serialize 100000 1000 blockhash ix) (\<lambda>wire.
     if length wire > 1232 then Inl (Some PInvalid_config)
     else Inr \<lparr>pt_wire = b64_enc wire, pt_lastValidBlockHeight = lastValidBlockHeight\<rparr>))))"

definition root_expired :: "publication_fault + int \<Rightarrow> PreparedRootTransaction \<Rightarrow> publication_fault + bool" where
  "root_expired blockHeight p = ebind blockHeight (\<lambda>h. Inr (h > pt_lastValidBlockHeight p))"

text \<open>\<^verbatim>\<open>open\<close>: the parsed URL (host name and protocol), the program text and the key file give the
  configuration, the RPC answers the rest.  The result is the program, the signer, whether the cluster
  is local, and the target string.\<close>

definition DEVNET_GENESIS :: string where
  "DEVNET_GENESIS = ''EtWTRABZaYq6iMfeYKouRu166VU2xqa1wcaWoxPkrZBG''"

record rpc_world =
  rw_genesis :: "publication_fault + string"
  rw_program :: "publication_fault + AccountInfo option"
  rw_enrollment :: "pubkey \<Rightarrow> publication_fault + AccountInfo option"

definition open_config ::
  "chain \<Rightarrow> (bytes \<Rightarrow> pubkey option) \<Rightarrow> (string \<times> string) option \<Rightarrow> string \<Rightarrow> jsval option \<Rightarrow>
     ((string \<times> string) \<times> pubkey \<times> pubkey) option" where
  "open_config ch fromSecretKey url programID keyFile = do {
     rpc \<leftarrow> url;
     program \<leftarrow> ch_ofBase58 ch programID;
     key \<leftarrow> keyFile;
     xs \<leftarrow> js_array key 64;
     bs \<leftarrow> those (map js_byte xs);
     signer \<leftarrow> fromSecretKey bs;
     Some (rpc, program, signer) }"

definition openRootTransport ::
  "chain \<Rightarrow> (bytes \<Rightarrow> pubkey option) \<Rightarrow> (string \<times> string) option \<Rightarrow> string \<Rightarrow> jsval option \<Rightarrow> rpc_world \<Rightarrow>
     publication_code + (pubkey \<times> pubkey \<times> bool \<times> string)" where
  "openRootTransport ch fromSecretKey url programID keyFile rpc =
     (case open_config ch fromSecretKey url programID keyFile of None \<Rightarrow> Inl PInvalid_config
      | Some ((hostname, protocol), program, signer) \<Rightarrow>
          let local = hostname \<in> {''localhost'', ''127.0.0.1'', ''[::1]''}
          in if (\<not> local \<and> protocol \<noteq> ''https:'') \<or> (local \<and> protocol \<notin> {''http:'', ''https:''}) then Inl PInvalid_target
             else case ebind (rw_genesis rpc) (\<lambda>genesis.
                if \<not> local \<and> genesis \<noteq> DEVNET_GENESIS then Inl (Some PInvalid_target)
                else ebind (rw_program rpc) (\<lambda>account.
                if (case account of None \<Rightarrow> True | Some a \<Rightarrow> \<not> ac_executable a \<or> ac_owner a \<noteq> ch_loader ch)
                then Inl (Some PInvalid_target)
                else ebind (of_opt None (registryAddresses ch program (zeros 32))) (\<lambda>a.
                ebind (rw_enrollment rpc (ra_enrollment a)) (\<lambda>e.
                ebind (checkEnrollment ch program signer e) (\<lambda>_.
                Inr (program, signer, local,
                  genesis @ ''/'' @ ch_toBase58 ch program @ ''/'' @ ch_toBase58 ch signer)))))) of
               Inl f \<Rightarrow> Inl (fault_code PRpc_error f) | Inr t \<Rightarrow> Inr t)"

section \<open>The publisher's invariant\<close>

text \<open>A pending row has no transaction, a submitted one has one, a confirmed one has dropped it.\<close>

definition row_ok :: "PublicationRow \<Rightarrow> bool" where
  "row_ok r = (case pr_status r of
     PubPending \<Rightarrow> pr_wire r = None \<and> pr_last_valid_height r = None
   | PubSubmitted \<Rightarrow> pr_wire r \<noteq> None \<and> pr_last_valid_height r \<noteq> None
   | PubConfirmed \<Rightarrow> pr_wire r = None \<and> pr_last_valid_height r = None \<and> pr_checked_slot r \<noteq> None \<and>
       pr_last_error r = None \<and> pr_retry_at r = 0)"

text \<open>Revisions grow, and only the newest publication may be unconfirmed.\<close>

definition rows_inv :: "PublicationRow list \<Rightarrow> bool" where
  "rows_inv rows = (sorted_wrt (<) (map pr_revision rows) \<and> (\<forall>r\<in>set rows. row_ok r \<and> pr_revision r > 0) \<and>
     (\<forall>r\<in>set (butlast rows). pr_status r = PubConfirmed))"

lemma rows_inv_Nil [simp]: "rows_inv []"
  by (simp add: rows_inv_def)

lemma rows_inv_snoc:
  "rows_inv (xs @ [r]) \<longleftrightarrow> sorted_wrt (<) (map pr_revision xs) \<and> (\<forall>q\<in>set xs. pr_revision q < pr_revision r) \<and>
     (\<forall>q\<in>set xs. row_ok q \<and> pr_revision q > 0) \<and> row_ok r \<and> pr_revision r > 0 \<and> (\<forall>q\<in>set xs. pr_status q = PubConfirmed)"
  by (auto simp: rows_inv_def sorted_wrt_append)

lemma rows_inv_replace:
  "rows_inv (xs @ [r]) \<Longrightarrow> row_ok r' \<Longrightarrow> pr_revision r' = pr_revision r \<Longrightarrow> rows_inv (xs @ [r'])"
  by (simp add: rows_inv_snoc)

lemma set_row_last [simp]:
  "rows_inv (xs @ [r]) \<Longrightarrow> set_row (pr_revision r) f (xs @ [r]) = xs @ [f r]"
  by (auto simp: set_row_def rows_inv_snoc intro!: map_idI)

lemma pending_row_Some:
  assumes "rows_inv rows" and "pending_row rows = Some r"
  shows "\<exists>xs. rows = xs @ [r] \<and> pr_status r \<noteq> PubConfirmed"
proof (cases rows rule: rev_cases)
  case (snoc xs q)
  with assms have "filter (\<lambda>r. pr_status r \<noteq> PubConfirmed) xs = []" by (auto simp: rows_inv_snoc filter_empty_conv)
  with assms snoc show ?thesis by (auto simp: pending_row_def lowest_revision_def split: if_splits)
qed (use assms in \<open>simp add: pending_row_def lowest_revision_def\<close>)

lemma pending_row_snoc:
  "rows_inv (xs @ [r]) \<Longrightarrow> pr_status r \<noteq> PubConfirmed \<Longrightarrow> pending_row (xs @ [r]) = Some r"
  by (subgoal_tac "filter (\<lambda>r. pr_status r \<noteq> PubConfirmed) xs = []")
    (auto simp: pending_row_def lowest_revision_def rows_inv_snoc filter_empty_conv)

lemma pending_row_None:
  assumes "rows_inv rows" and "pending_row rows = None" and "r \<in> set rows"
  shows "pr_status r = PubConfirmed"
proof (cases rows rule: rev_cases)
  case (snoc xs q)
  with assms pending_row_snoc [of xs q] show ?thesis by (auto simp: rows_inv_snoc)
qed (use assms in simp)

lemma find_append_case: "find P (xs @ ys) = (case find P xs of None \<Rightarrow> find P ys | Some x \<Rightarrow> Some x)"
  by (induction xs) auto

lemma latest_snoc:
  assumes "rows_inv (xs @ [r])" and "pr_status r = PubConfirmed"
  shows "latest (xs @ [r]) = Some r"
proof -
  have x: "filter (\<lambda>r. pr_status r = PubConfirmed) xs = xs" using assms by (auto simp: rows_inv_snoc)
  have "find (\<lambda>q. list_all (\<lambda>p. pr_revision p \<le> pr_revision q) (xs @ [r])) xs = None"
    using assms by (force simp: find_None_iff rows_inv_snoc)
  then show ?thesis using assms
    by (auto simp: latest_def highest_revision_def x rows_inv_snoc list_all_iff find_append_case less_imp_le split: option.splits)
qed

section \<open>What one run guarantees\<close>

text \<open>The contract of the source: a batch is newer than the revision it was asked for.\<close>

locale publication_source =
  fixes batch :: "int \<Rightarrow> 's \<Rightarrow> 'e + (ObserverRootSnapshot \<times> int) option"
  assumes batch_newer: "batch after src = Inr (Some (s, t)) \<Longrightarrow> after < sn_revision s"
begin

lemma select_row_inv:
  assumes inv: "rows_inv rows" and sel: "select_row cfg batch force src clk rows = Inr (Some (row, rows'))"
  shows "\<exists>xs. rows' = xs @ [row] \<and> rows_inv rows' \<and> pr_status row \<noteq> PubConfirmed \<and>
    (rows' = rows \<or> rows = xs \<and> pr_status row = PubPending)"
proof (cases "pending_row rows")
  case None
  define after where "after = (case latest rows of None \<Rightarrow> 0 | Some l \<Rightarrow> pr_revision l)"
  from None sel obtain s t where b: "batch after src = Inr (Some (s, t))"
    and i: "insert_publication s rows = Some rows'" and p: "pending_row rows' = Some row"
    by (auto simp: select_row_def after_def Let_def split: sum.splits option.splits if_splits)
  have "\<forall>q\<in>set rows. pr_revision q \<le> after \<and> pr_status q = PubConfirmed"
  proof (cases rows rule: rev_cases)
    case (snoc xs q)
    then have "pr_status q = PubConfirmed" using pending_row_None [OF inv None] by simp
    with snoc inv latest_snoc [of xs q] show ?thesis by (auto simp: after_def rows_inv_snoc)
  qed simp
  moreover have "0 \<le> after"
  proof (cases rows rule: rev_cases)
    case (snoc xs q)
    then have "pr_status q = PubConfirmed" using pending_row_None [OF inv None] by simp
    with snoc inv latest_snoc [of xs q] show ?thesis by (auto simp: after_def rows_inv_snoc)
  qed (simp add: after_def latest_def highest_revision_def)
  moreover note batch_newer [OF b]
  ultimately obtain n where n: "rows' = rows @ [n]" "pr_status n = PubPending" "rows_inv rows'"
    using i inv by (fastforce simp: insert_publication_def rows_inv_snoc row_ok_def rows_inv_def sorted_wrt_append
        split: if_splits dest: in_set_butlastD)
  with p pending_row_snoc [of rows n] show ?thesis by auto
next
  case (Some r)
  with sel have "r = row" "rows' = rows" by (auto simp: select_row_def)
  with pending_row_Some [OF inv Some] inv show ?thesis by auto
qed

end

interpretation enrollment_source: publication_source publicationBatch
  by unfold_locales (auto simp: publicationBatch_def ebind_eq_Inr split: if_splits)

text \<open>A submission finds its transaction persisted: a crash at that point leaves a table from which the
  same transaction is submitted again.\<close>

definition sent_ok :: "PreparedRootTransaction \<times> PublicationRow list \<Rightarrow> bool" where
  "sent_ok s = (rows_inv (snd s) \<and>
     (\<exists>row. pending_row (snd s) = Some row \<and> stored_transaction row = Some (fst s) \<and> pr_status row = PubSubmitted))"

lemma stored_transaction_Some:
  "stored_transaction r = Some p \<longleftrightarrow> pr_wire r = Some (pt_wire p) \<and> pr_last_valid_height r = Some (pt_lastValidBlockHeight p)"
  by (cases p) (auto simp: stored_transaction_def split: option.splits)

lemma row_snapshot_eq [simp]:
  "row_snapshot a = row_snapshot b \<longleftrightarrow> pr_revision a = pr_revision b \<and> pr_root a = pr_root b \<and>
     pr_leaf_count a = pr_leaf_count b \<and> pr_created_at a = pr_created_at b"
  by (auto simp: row_snapshot_def)

lemma choose_transaction_ok:
  assumes inv: "rows_inv (xs @ [row])" and st: "pr_status row \<noteq> PubConfirmed"
    and c: "choose_transaction tr row (xs @ [row]) = Inr (p, rows')"
  shows "\<exists>row'. rows' = xs @ [row'] \<and> rows_inv rows' \<and> pr_status row' = PubSubmitted \<and>
    row_snapshot row' = row_snapshot row \<and> stored_transaction row' = Some p \<and>
    (\<forall>q. stored_transaction row = Some q \<longrightarrow> q = p \<or> tr_expired tr q = Inr True)"
proof -
  have ok: "rows_inv (xs @ [persist_transaction p row])"
    by (rule rows_inv_replace [OF inv]) (simp_all add: persist_transaction_def row_ok_def)
  have new: ?thesis if "rows' = xs @ [persist_transaction p row]"
    "\<forall>q. stored_transaction row = Some q \<longrightarrow> tr_expired tr q = Inr True"
    using ok that by (intro exI [of _ "persist_transaction p row"])
      (auto simp: persist_transaction_def stored_transaction_Some)
  show ?thesis
  proof (cases "stored_transaction row")
    case None
    with c have "rows' = xs @ [persist_transaction p row]"
      using inv by (auto simp: choose_transaction_def ebind_eq_Inr)
    then show ?thesis by (rule new) (simp add: None)
  next
    case (Some q)
    then obtain b where b: "tr_expired tr q = Inr b" using c by (auto simp: choose_transaction_def ebind_eq_Inr)
    show ?thesis
    proof (cases b)
      case True
      with c Some b have "rows' = xs @ [persist_transaction p row]"
        using inv by (auto simp: choose_transaction_def ebind_eq_Inr)
      then show ?thesis using True Some b by (intro new) simp_all
    next
      case False
      then have "q = p" "rows' = xs @ [row]" using c Some b by (auto simp: choose_transaction_def)
      moreover have "pr_status row = PubSubmitted" using inv st Some
        by (auto simp: rows_inv_snoc row_ok_def stored_transaction_Some split: publication_status.splits)
      ultimately show ?thesis using inv Some by simp
    qed
  qed
qed

lemma attempt_ok:
  assumes inv: "rows_inv (xs @ [row])" and st: "pr_status row \<noteq> PubConfirmed"
    and a: "attempt tr row (xs @ [row]) = (sent, rows', outcome)"
  shows "\<exists>row'. rows' = xs @ [row'] \<and> rows_inv rows' \<and> pr_status row' \<noteq> PubConfirmed \<and>
    row_snapshot row' = row_snapshot row \<and>
    (\<forall>s. sent = Some s \<longrightarrow> sent_ok s \<and> (\<forall>q. stored_transaction row = Some q \<longrightarrow> q = fst s \<or> tr_expired tr q = Inr True)) \<and>
    (\<forall>i. outcome = Inr (Some i) \<longrightarrow>
       tr_inspect1 tr (row_snapshot row) = Inr (Some i) \<or> tr_inspect2 tr (row_snapshot row) = Inr (Some i))"
proof (cases "tr_inspect1 tr (row_snapshot row) = Inr None \<and> (\<exists>x. choose_transaction tr row (xs @ [row]) = Inr x)")
  case False
  with a have "rows' = xs @ [row]" "sent = None" "\<forall>i. outcome = Inr (Some i) \<longrightarrow> tr_inspect1 tr (row_snapshot row) = Inr (Some i)"
    by (auto simp: attempt_def split: sum.splits option.splits)
  with inv st show ?thesis by auto
next
  case True
  then obtain p mid where c: "choose_transaction tr row (xs @ [row]) = Inr (p, mid)" by (metis surj_pair)
  from choose_transaction_ok [OF inv st c] obtain row' where r: "mid = xs @ [row']" "rows_inv (xs @ [row'])"
    "pr_status row' = PubSubmitted" "row_snapshot row' = row_snapshot row" "stored_transaction row' = Some p"
    "\<forall>q. stored_transaction row = Some q \<longrightarrow> q = p \<or> tr_expired tr q = Inr True" by auto
  have s: "sent_ok (p, mid)" using r pending_row_snoc [of xs row'] by (simp add: sent_ok_def)
  let ?signed = "\<lambda>sig. row'\<lparr>pr_signature := Some sig\<rparr>"
  have signed: "rows_inv (xs @ [?signed sig])" for sig
    using r(2,3) by (intro rows_inv_replace [OF r(2)]) (auto simp: rows_inv_snoc row_ok_def)
  show ?thesis
  proof (cases "tr_send tr p")
    case (Inl f)
    with a c True have "rows' = mid" "sent = Some (p, mid)" "outcome = Inl f" by (auto simp: attempt_def)
    with r s show ?thesis by auto
  next
    case (Inr sig)
    with a c True r(1) set_row_last [OF r(2), of "\<lambda>r. r\<lparr>pr_signature := Some sig\<rparr>"] r(4)
    have "rows' = xs @ [?signed sig]" "sent = Some (p, mid)" "outcome = tr_inspect2 tr (row_snapshot row)"
      by (auto simp: attempt_def)
    with r s signed show ?thesis by auto
  qed
qed

lemma retry_delay_bounds: "1000 \<le> retry_delay n \<and> retry_delay n \<le> 30000"
  by (simp add: retry_delay_def)

definition confirmed_kept :: "PublicationRow list \<Rightarrow> PublicationRow list \<Rightarrow> bool" where
  "confirmed_kept rows rows' = (\<forall>r\<in>set rows. pr_status r = PubConfirmed \<longrightarrow> r \<in> set rows')"

text \<open>A run changes at most the last row; a row it confirms was inspected, a row it leaves unconfirmed
  waits at most thirty seconds.\<close>

definition row_concluded :: "root_transport \<Rightarrow> tick_clock \<Rightarrow> PublicationRow \<Rightarrow> PublicationRow \<Rightarrow> bool" where
  "row_concluded tr clk row r' = (row_snapshot r' = row_snapshot row \<and> row_ok r' \<and>
     (if pr_status r' = PubConfirmed
      then \<exists>i. tr_inspect1 tr (row_snapshot row) = Inr (Some i) \<or> tr_inspect2 tr (row_snapshot row) = Inr (Some i)
      else tc_end clk < pr_retry_at r' \<and> pr_retry_at r' \<le> tc_end clk + 30000))"

lemma conclude_ok:
  assumes inv: "rows_inv (xs @ [row'])" and st: "pr_status row' \<noteq> PubConfirmed" "row_snapshot row' = row_snapshot row"
    and rows: "pb_rows st = xs @ [row']"
    and o: "\<forall>i. outcome = Inr (Some i) \<longrightarrow>
       tr_inspect1 tr (row_snapshot row) = Inr (Some i) \<or> tr_inspect2 tr (row_snapshot row) = Inr (Some i)"
  shows "\<exists>r'. pb_rows (conclude clk row outcome st) = xs @ [r'] \<and> row_concluded tr clk row r'"
proof -
  have ok: "row_ok row'" using inv by (simp add: rows_inv_snoc)
  have upd: "set_row (pr_revision row) f (xs @ [row']) = xs @ [f row']" for f
    using set_row_last [OF inv, of f] st(2) by simp
  have result: ?thesis if "pb_rows (conclude clk row outcome st) = set_row (pr_revision row) f (xs @ [row'])"
    "row_concluded tr clk row (f row')" for f
    using that upd by auto
  show ?thesis
  proof (cases outcome)
    case (Inl f)
    show ?thesis by (rule result, simp add: conclude_def rows Inl)
      (use ok st retry_delay_bounds [of "pr_attempts row"] in \<open>auto simp: row_concluded_def row_ok_def
        split: publication_status.splits\<close>)
  next
    case (Inr i)
    show ?thesis
    proof (cases i)
      case None
      show ?thesis by (rule result, simp add: conclude_def rows Inr None)
        (use ok st in \<open>auto simp: row_concluded_def row_ok_def split: publication_status.splits\<close>)
    next
      case (Some a)
      obtain slot active where a: "a = (slot, active)" by (cases a)
      show ?thesis by (rule result, simp add: conclude_def rows Inr Some a)
        (use o Inr Some a st in \<open>auto simp: row_concluded_def row_ok_def confirm_row_def\<close>)
    qed
  qed
qed

lemma health_check_rows [simp]: "pb_rows (health_check tr clk st) = pb_rows st"
  by (simp add: health_check_def split: option.splits)

context publication_source
begin

text \<open>A run leaves the table, or appends the row of a new batch, or concludes the newest row.\<close>

lemma publish_cases:
  assumes inv: "rows_inv (pb_rows st)" and p: "publish cfg batch force src tr clk st = (sent, st', res)"
  shows "rows_inv (pb_rows st') \<and> confirmed_kept (pb_rows st) (pb_rows st') \<and>
    (\<forall>s. sent = Some s \<longrightarrow> sent_ok s \<and> (\<forall>old q. pending_row (pb_rows st) = Some old \<and> stored_transaction old = Some q \<longrightarrow>
       q = fst s \<or> tr_expired tr q = Inr True)) \<and>
    (\<forall>r\<in>set (pb_rows st'). r \<in> set (pb_rows st) \<or> pr_status r = PubPending \<and> pr_retry_at r > tc_retry clk \<or>
       (\<exists>row. row_concluded tr clk row r))"
proof (cases "select_row cfg batch force src clk (pb_rows st)")
  case (Inl f)
  with p inv show ?thesis by (auto simp: publish_def confirmed_kept_def)
next
  case (Inr choice)
  show ?thesis
  proof (cases choice)
    case None
    with Inr p inv show ?thesis by (auto simp: publish_def confirmed_kept_def)
  next
    case (Some x)
    then obtain row rows where sel: "select_row cfg batch force src clk (pb_rows st) = Inr (Some (row, rows))"
      using Inr by (cases x) simp
    from select_row_inv [OF inv sel] obtain xs where xs: "rows = xs @ [row]" "rows_inv (xs @ [row])"
      "pr_status row \<noteq> PubConfirmed" "pb_rows st = xs @ [row] \<or> pb_rows st = xs \<and> pr_status row = PubPending" by metis
    have kept: "confirmed_kept (pb_rows st) (xs @ ys)" for ys using xs(3,4) by (auto simp: confirmed_kept_def)
    have old: "pending_row (pb_rows st) = Some q \<Longrightarrow> stored_transaction q = Some t \<Longrightarrow> q = row" for q t
      using xs(2-4) inv pending_row_snoc [OF xs(2,3)] by (auto dest!: pending_row_Some [OF inv] simp: rows_inv_snoc)
    show ?thesis
    proof (cases "tc_retry clk < pr_retry_at row")
      case True
      with p sel have "pb_rows st' = rows" "sent = None" by (auto simp: publish_def)
      with True xs kept [of "[row]"] show ?thesis by auto
    next
      case False
      obtain sent' rows' outcome where at: "attempt tr row rows = (sent', rows', outcome)" by (metis prod_cases3)
      with False p sel have s: "sent' = sent" "st' = conclude clk row outcome (health_check tr clk st\<lparr>pb_rows := rows'\<rparr>)"
        by (auto simp: publish_def Let_def)
      from attempt_ok [OF xs(2,3) at [unfolded xs(1)]] obtain row' where a: "rows' = xs @ [row']" "rows_inv (xs @ [row'])"
        "pr_status row' \<noteq> PubConfirmed" "row_snapshot row' = row_snapshot row"
        "\<forall>s. sent' = Some s \<longrightarrow> sent_ok s \<and> (\<forall>q. stored_transaction row = Some q \<longrightarrow> q = fst s \<or> tr_expired tr q = Inr True)"
        "\<forall>i. outcome = Inr (Some i) \<longrightarrow>
           tr_inspect1 tr (row_snapshot row) = Inr (Some i) \<or> tr_inspect2 tr (row_snapshot row) = Inr (Some i)"
        by blast
      from conclude_ok [OF a(2-4) _ a(6), of "health_check tr clk st\<lparr>pb_rows := rows'\<rparr>" clk] a(1) s(2)
      obtain r' where r: "pb_rows st' = xs @ [r']" "row_concluded tr clk row r'" by auto
      moreover have "rows_inv (xs @ [r'])" using r(2) by (intro rows_inv_replace [OF xs(2)]) (auto simp: row_concluded_def)
      moreover have "set xs \<subseteq> set (pb_rows st)" using xs(4) by auto
      ultimately show ?thesis using kept [of "[r']"] a(5) s(1) old by auto
    qed
  qed
qed

end

section \<open>Runs\<close>

text \<open>A step is a run, a crash while its transaction is being submitted (the table is the one the
  submission saw), or a restart.\<close>

inductive pub_step :: "publisher \<Rightarrow> publisher \<Rightarrow> bool" where
  tick_step: "tick cfg publicationBatch force src tr clk st = (sent, st') \<Longrightarrow> pub_step st st'"
| crash_step: "tick cfg publicationBatch force src tr clk st = (Some (p, rows), st') \<Longrightarrow>
    pub_step st (st\<lparr>pb_rows := rows, pb_checked := None, pb_backgroundError := None\<rparr>)"
| restart_step: "openPublisher b d (the (pb_target st)) st = Inr (cfg, st') \<Longrightarrow> pub_step st st'"

inductive pub_run :: "publisher \<Rightarrow> publisher \<Rightarrow> bool" for st0 where
  pub_start: "pub_run st0 st0"
| pub_next: "pub_run st0 st \<Longrightarrow> pub_step st st' \<Longrightarrow> pub_run st0 st'"

lemma tick_publish:
  assumes "tick cfg batch force src tr clk st = (sent, st')"
  shows "\<exists>st'' res. publish cfg batch force src tr clk (st\<lparr>pb_backgroundError := None\<rparr>) = (sent, st'', res) \<and>
    pb_rows st'' = pb_rows st'"
  using assms by (auto simp: tick_def split: prod.splits sum.splits)

lemma tick_cases:
  assumes inv: "rows_inv (pb_rows st)" and t: "tick cfg publicationBatch force src tr clk st = (sent, st')"
  shows "rows_inv (pb_rows st') \<and> confirmed_kept (pb_rows st) (pb_rows st') \<and>
    (\<forall>s. sent = Some s \<longrightarrow> sent_ok s \<and> (\<forall>old q. pending_row (pb_rows st) = Some old \<and> stored_transaction old = Some q \<longrightarrow>
       q = fst s \<or> tr_expired tr q = Inr True)) \<and>
    (\<forall>r\<in>set (pb_rows st'). r \<in> set (pb_rows st) \<or> pr_status r = PubPending \<and> pr_retry_at r > tc_retry clk \<or>
       (\<exists>row. row_concluded tr clk row r))"
proof -
  from tick_publish [OF t] obtain st'' res where
    p: "publish cfg publicationBatch force src tr clk (st\<lparr>pb_backgroundError := None\<rparr>) = (sent, st'', res)"
    "pb_rows st'' = pb_rows st'" by blast
  have e: "pb_rows (st\<lparr>pb_backgroundError := None\<rparr>) = pb_rows st" by simp
  from enrollment_source.publish_cases [OF inv [folded e] p(1)] show ?thesis unfolding p(2) e .
qed

lemma openPublisher_rows: "openPublisher b d t st = Inr (cfg, st') \<Longrightarrow> pb_rows st' = pb_rows st"
  by (auto simp: openPublisher_def Let_def split: if_splits)

lemma pub_step_inv: "pub_step st st' \<Longrightarrow> rows_inv (pb_rows st) \<Longrightarrow> rows_inv (pb_rows st')"
proof (induction rule: pub_step.induct)
  case (tick_step cfg force src tr clk st sent st')
  then show ?case using tick_cases by blast
next
  case (crash_step cfg force src tr clk st p rows st')
  then have "sent_ok (p, rows)" using tick_cases by blast
  then show ?case by (simp add: sent_ok_def)
qed (simp add: openPublisher_rows)

lemma pub_run_inv: "pub_run st0 st \<Longrightarrow> rows_inv (pb_rows st0) \<Longrightarrow> rows_inv (pb_rows st)"
  by (induction rule: pub_run.induct) (auto dest: pub_step_inv)

section \<open>Properties\<close>

text \<open>What an accepted inspection saw on the chain.\<close>

definition root_on_chain ::
  "chain \<Rightarrow> pubkey \<Rightarrow> pubkey \<Rightarrow> (pubkey \<Rightarrow> pubkey \<Rightarrow> publication_fault + int \<times> AccountInfo option \<times> AccountInfo option) \<Rightarrow>
     ObserverRootSnapshot \<Rightarrow> bool" where
  "root_on_chain ch program signer fetch s = (\<exists>address enrollment slot a e record.
     root_address ch program (sn_root s) = Inr address \<and> fetch address enrollment = Inr (slot, Some a, Some e) \<and>
     ac_owner a = program \<and> ac_owner e = program \<and> decodeRoot ch (ac_data a) = Some record \<and>
     or_root record = bytes_of_hex (drop 2 (sn_root s)) \<and> or_leafCount record = sn_leafCount s \<and>
     or_authority record = signer \<and> or_publishedAt record > 0)"

lemma inspect_root_sound:
  assumes "inspect_root ch program signer fetch s = Inr (Some i)"
  shows "root_on_chain ch program signer fetch s"
proof -
  from assms obtain address a slot got en enr where g: "root_address ch program (sn_root s) = Inr address"
    "fetch address a = Inr (slot, got, en)" "en \<noteq> None" "checkEnrollment ch program signer en = Inr enr"
    "inspect_account ch program signer s slot got enr = Inr (Some i)"
    unfolding inspect_root_def ebind_eq_Inr by (auto simp: ebind_eq_Inr split: if_split_asm)
  then obtain account where f: "root_address ch program (sn_root s) = Inr address"
    "fetch address a = Inr (slot, Some account, en)" "en \<noteq> None" "checkEnrollment ch program signer en = Inr enr"
    "ac_owner account = program" "check_root_record ch signer s slot enr (ac_data account) = Some i"
    by (cases got) (auto simp: inspect_account_def split: if_split_asm)
  moreover from f(6) have "\<exists>record. decodeRoot ch (ac_data account) = Some record \<and>
       rootBytes (sn_root s) = Inr (or_root record) \<and> or_leafCount record = sn_leafCount s \<and>
       or_authority record = signer \<and> or_publishedAt record > 0"
    by (auto simp: check_root_record_def split: Option.bind_splits if_splits)
  moreover from f(3,4) obtain e where "en = Some e" "ac_owner e = program"
    by (auto simp: checkEnrollment_def split: option.splits if_splits)
  moreover have "rootBytes (sn_root s) = Inr x \<Longrightarrow> x = bytes_of_hex (drop 2 (sn_root s))" for x
    by (auto simp: rootBytes_def split: if_splits)
  ultimately show ?thesis unfolding root_on_chain_def by blast
qed

text \<open>C12. In every state the publisher reaches from an empty table, over any source history, transport
  answers, clock, crashes and restarts: a run keeps every confirmed publication, revisions grow and only
  the newest may be unconfirmed; a transaction it submits is at that moment the one persisted for the
  pending publication; and a transaction persisted earlier is replaced only after the transport has
  reported it expired.\<close>

theorem submissions_persisted:
  assumes "openPublisher b d target fresh_publisher = Inr (cfg0, st0)" and "pub_run st0 st"
    and "tick cfg publicationBatch force src tr clk st = (sent, st')"
  shows "rows_inv (pb_rows st') \<and> confirmed_kept (pb_rows st) (pb_rows st') \<and>
    (\<forall>p rows. sent = Some (p, rows) \<longrightarrow> rows_inv rows \<and>
      (\<exists>row. pending_row rows = Some row \<and> pr_status row = PubSubmitted \<and> pr_wire row = Some (pt_wire p) \<and>
         pr_last_valid_height row = Some (pt_lastValidBlockHeight p)) \<and>
      (\<forall>old q. pending_row (pb_rows st) = Some old \<and> stored_transaction old = Some q \<longrightarrow> q = p \<or> tr_expired tr q = Inr True))"
proof -
  have "rows_inv (pb_rows st)" using pub_run_inv [OF assms(2)] openPublisher_rows [OF assms(1)]
    by (simp add: fresh_publisher_def)
  from tick_cases [OF this assms(3)] show ?thesis by (auto simp: sent_ok_def stored_transaction_Some)
qed

text \<open>C25. A publication becomes confirmed only when the Solana transport has read, at the root's
  address, an account of the program that decodes to that root with the published leaf count, the
  publisher's own authority and a positive publication time, next to the program's enrollment account.\<close>

theorem confirmed_roots_on_chain:
  assumes "openPublisher b d target fresh_publisher = Inr (cfg0, st0)" and "pub_run st0 st"
    and "tick cfg publicationBatch force src tr clk st = (sent, st')"
    and "tr_inspect1 tr = inspect_root ch program signer fetch1" and "tr_inspect2 tr = inspect_root ch program signer fetch2"
    and "r \<in> set (pb_rows st')" and "r \<notin> set (pb_rows st)" and "pr_status r = PubConfirmed"
  shows "root_on_chain ch program signer fetch1 (row_snapshot r) \<or> root_on_chain ch program signer fetch2 (row_snapshot r)"
proof -
  have "rows_inv (pb_rows st)" using pub_run_inv [OF assms(2)] openPublisher_rows [OF assms(1)]
    by (simp add: fresh_publisher_def)
  from tick_cases [OF this assms(3)] assms(6-8) obtain row where "row_concluded tr clk row r" by auto
  then show ?thesis using assms(4,5,8) inspect_root_sound
    by (auto simp: row_concluded_def simp del: row_snapshot_eq)
qed


section \<open>A concrete publication\<close>

definition sample_source :: enroll_db where
  "sample_source = fresh_enroll_db\<lparr>
     en_enrollments := [\<lparr>er_key_id = ''k'', er_commitment = field_hex 0, er_observer_class = 1, er_leaf_index = 0, er_leaf = field_hex 0\<rparr>],
     en_roots := [\<lparr>rr_revision = 1, rr_root = field_hex 0, rr_leaf_count = 1, rr_created_at = 0\<rparr>]\<rparr>"

definition sample_fetch :: "pubkey \<Rightarrow> pubkey \<Rightarrow> publication_fault + int \<times> AccountInfo option \<times> AccountInfo option" where
  "sample_fetch address enrollment = Inr (7,
     Some \<lparr>ac_owner = zeros 32, ac_executable = False, ac_data = discriminator sample_chain ''account'' ''ObserverRoot'' @
       zeros 32 @ le_num 4 1 @ le_num 8 1 @ zeros 32\<rparr>,
     Some \<lparr>ac_owner = zeros 32, ac_executable = False, ac_data = discriminator sample_chain ''account'' ''EnrollmentAuthority'' @
       zeros 32 @ zeros 8 @ zeros 128\<rparr>)"

text \<open>A transport on which the root is missing before a submission, and there after it if \<open>landed\<close>.\<close>

definition sample_transport :: "bool \<Rightarrow> root_transport" where
  "sample_transport landed = \<lparr>tr_check = (\<lambda>_. Inr None), tr_inspect1 = (\<lambda>_. Inr None), tr_expired = (\<lambda>_. Inr False),
     tr_prepare = (\<lambda>_. Inr \<lparr>pt_wire = ''w'', pt_lastValidBlockHeight = 9\<rparr>), tr_send = (\<lambda>_. Inr ''s''),
     tr_inspect2 = (\<lambda>_. Inr (if landed then Some (7, True) else None))\<rparr>"

definition sample_clock :: "int \<Rightarrow> tick_clock" where
  "sample_clock t = \<lparr>tc_check = t, tc_checked = t, tc_batch = t, tc_retry = t, tc_end = t\<rparr>"

definition sample_config :: publisher_config where
  "sample_config = \<lparr>pg_batchSize = 16, pg_maxDelayMs = 30000\<rparr>"

definition sample_publisher :: publisher where
  "sample_publisher = fresh_publisher\<lparr>pb_target := Some ''t''\<rparr>"

lemma sample_open: "openPublisher None None ''t'' fresh_publisher = Inr (sample_config, sample_publisher)"
  by (simp add: openPublisher_def fresh_publisher_def sample_config_def sample_publisher_def)

lemma sample_batch: "publicationBatch 0 sample_source = Inr (Some (\<lparr>sn_root = field_hex 0, sn_revision = 1, sn_leafCount = 1,
    sn_createdAt = 0\<rparr>, 0))"
  by (simp add: publicationBatch_def rootState_def sample_source_def fresh_enroll_db_def of_opt_def)

definition sample_row :: PublicationRow where
  "sample_row = \<lparr>pr_revision = 1, pr_root = field_hex 0, pr_leaf_count = 1, pr_created_at = 0, pr_status = PubSubmitted,
     pr_wire = Some ''w'', pr_last_valid_height = Some 9, pr_signature = None, pr_checked_slot = None, pr_attempts = 0,
     pr_retry_at = 0, pr_last_error = None\<rparr>"

lemmas tick_eval = tick_def publish_def health_check_def select_row_def latest_def pending_row_def highest_revision_def
  lowest_revision_def insert_publication_def attempt_def choose_transaction_def stored_transaction_def
  persist_transaction_def conclude_def set_row_def row_snapshot_def sample_transport_def sample_clock_def

lemma sample_first_tick:
  "tick sample_config publicationBatch True sample_source (sample_transport False) (sample_clock 0) sample_publisher =
     (Some (\<lparr>pt_wire = ''w'', pt_lastValidBlockHeight = 9\<rparr>, [sample_row]),
      sample_publisher\<lparr>pb_rows := [sample_row\<lparr>pr_signature := Some ''s'', pr_retry_at := 2000\<rparr>]\<rparr>)"
  by (simp add: tick_eval sample_batch sample_row_def sample_publisher_def fresh_publisher_def)

theorem submissions_persisted_witness:
  "rows_inv [sample_row] \<and> pending_row [sample_row] = Some sample_row \<and>
   tick sample_config publicationBatch True sample_source (sample_transport False) (sample_clock 0) sample_publisher =
     (Some (\<lparr>pt_wire = ''w'', pt_lastValidBlockHeight = 9\<rparr>, [sample_row]),
      sample_publisher\<lparr>pb_rows := [sample_row\<lparr>pr_signature := Some ''s'', pr_retry_at := 2000\<rparr>]\<rparr>)"
  using submissions_persisted [OF sample_open pub_start sample_first_tick] sample_first_tick
  by (auto simp: pending_row_def lowest_revision_def sample_row_def)

lemma sample_inspect:
  "inspect_root sample_chain (zeros 32) (zeros 32) sample_fetch \<lparr>sn_root = field_hex 0, sn_revision = 1, sn_leafCount = 1,
     sn_createdAt = 0\<rparr> = Inr (Some (7, False))"
  by code_simp

definition sample_chain_transport :: root_transport where
  "sample_chain_transport = (sample_transport False)\<lparr>
     tr_inspect1 := inspect_root sample_chain (zeros 32) (zeros 32) sample_fetch,
     tr_inspect2 := inspect_root sample_chain (zeros 32) (zeros 32) sample_fetch\<rparr>"

definition confirmed_sample :: PublicationRow where
  "confirmed_sample = \<lparr>pr_revision = 1, pr_root = field_hex 0, pr_leaf_count = 1, pr_created_at = 0, pr_status = PubConfirmed,
     pr_wire = None, pr_last_valid_height = None, pr_signature = None, pr_checked_slot = Some 7, pr_attempts = 0,
     pr_retry_at = 0, pr_last_error = None\<rparr>"

lemma sample_confirming_tick:
  "\<exists>st'. tick sample_config publicationBatch True sample_source sample_chain_transport (sample_clock 0) sample_publisher =
     (None, st') \<and> pb_rows st' = [confirmed_sample]"
  by (simp add: tick_eval sample_chain_transport_def sample_batch confirmed_sample_def sample_publisher_def
      fresh_publisher_def sample_inspect confirm_row_def)

theorem confirmed_roots_on_chain_witness:
  "root_on_chain sample_chain (zeros 32) (zeros 32) sample_fetch (row_snapshot confirmed_sample)"
proof -
  obtain st' where t: "tick sample_config publicationBatch True sample_source sample_chain_transport (sample_clock 0)
      sample_publisher = (None, st')" "pb_rows st' = [confirmed_sample]" using sample_confirming_tick by blast
  have i: "tr_inspect1 sample_chain_transport = inspect_root sample_chain (zeros 32) (zeros 32) sample_fetch"
    "tr_inspect2 sample_chain_transport = inspect_root sample_chain (zeros 32) (zeros 32) sample_fetch"
    by (simp_all add: sample_chain_transport_def)
  have "confirmed_sample \<in> set (pb_rows st')" "confirmed_sample \<notin> set (pb_rows sample_publisher)"
    "pr_status confirmed_sample = PubConfirmed"
    by (simp_all add: t(2) sample_publisher_def fresh_publisher_def confirmed_sample_def)
  from confirmed_roots_on_chain [OF sample_open pub_start t(1) i this] show ?thesis by simp
qed


end
