(* ===== verification/Json.thy ===== *)
theory Json
  imports Encodings
begin

text \<open>
  \<^verbatim>\<open>JSON.stringify\<close> on the values the services print: null, booleans, integers below 2^53 in
  magnitude (printed in decimal), strings, arrays, and objects in the order of their keys.  The digests of
  the services are taken over this text; the theory shows that it determines the value.  A string is
  its UTF-8 bytes; the printer escapes the quote, the backslash and the control characters and leaves
  the rest alone.
\<close>

datatype json = JsonNull | JsonBool bool | JsonInt int | JsonStr string | JsonArr "json list" | JsonObj "(string \<times> json) list"

definition quote :: char where "quote = CHR 0x22"
definition backslash :: char where "backslash = CHR 0x5C"

definition json_escape :: "char \<Rightarrow> string" where
  "json_escape c =
     (if c = quote \<or> c = backslash then [backslash, c]
      else if of_char c = (8 :: nat) then [backslash, CHR ''b'']
      else if of_char c = (9 :: nat) then [backslash, CHR ''t'']
      else if of_char c = (10 :: nat) then [backslash, CHR ''n'']
      else if of_char c = (12 :: nat) then [backslash, CHR ''f'']
      else if of_char c = (13 :: nat) then [backslash, CHR ''r'']
      else if of_char c < (32 :: nat) then [backslash, CHR ''u'', CHR ''0'', CHR ''0'',
        hex_char (of_char c div 16), hex_char (of_char c mod 16)]
      else [c])"

definition json_str :: "string \<Rightarrow> string" where
  "json_str s = quote # concat (map json_escape s) @ [quote]"

fun commas :: "string list \<Rightarrow> string" where
  "commas [] = []"
| "commas [x] = x"
| "commas (x # y # xs) = x @ '','' @ commas (y # xs)"

fun stringify :: "json \<Rightarrow> string" where
  "stringify JsonNull = ''null''"
| "stringify (JsonBool b) = (if b then ''true'' else ''false'')"
| "stringify (JsonInt i) = dec_str i"
| "stringify (JsonStr s) = json_str s"
| "stringify (JsonArr vs) = ''['' @ commas (map stringify vs) @ '']''"
| "stringify (JsonObj fs) = ''{'' @ commas (map (\<lambda>(k, v). json_str k @ '':'' @ stringify v) fs) @ ''}''"

section \<open>Strings\<close>

lemma json_escape_nonempty [simp]: "json_escape c \<noteq> []"
  by (simp add: json_escape_def)

lemma of_char_eq: "of_char c = (of_char d :: nat) \<longleftrightarrow> c = d"
  by simp

text \<open>The escapes are a prefix code that avoids the bare quote.\<close>

lemma hex_char_inj: "m < 16 \<Longrightarrow> n < 16 \<Longrightarrow> hex_char m = hex_char n \<longleftrightarrow> m = n"
  by (metis hex_value_char)

lemma small_code:
  assumes "x < (32 :: nat)" "y < 32" "hex_char (x div 16) = hex_char (y div 16)" "hex_char (x mod 16) = hex_char (y mod 16)"
  shows "x = y"
proof -
  have "x div 16 = y div 16" "x mod 16 = y mod 16" using assms by (auto simp: hex_char_inj)
  then show ?thesis by (metis div_mult_mod_eq)
qed

lemma json_escape_cases:
  obtains (plain) "json_escape c = [c]" "c \<noteq> backslash" "c \<noteq> quote"
  | (short) d where "json_escape c = [backslash, d]" "d \<noteq> CHR ''u''"
  | (long) "json_escape c = [backslash, CHR ''u'', CHR ''0'', CHR ''0'', hex_char (of_char c div 16), hex_char (of_char c mod 16)]"
      "of_char c < (32 :: nat)"
  by (force simp: json_escape_def quote_def backslash_def split: if_splits)

lemma json_escape_short_inj:
  assumes "json_escape c = [backslash, d]" "json_escape c' = [backslash, d]"
  shows "c = c'"
proof -
  have same: "of_char c = (n :: nat) \<Longrightarrow> of_char c' = n \<Longrightarrow> c = c'" for n by (simp flip: of_char_eq)
  show ?thesis using assms
    by (auto simp: json_escape_def quote_def backslash_def split: if_splits intro: same)
qed

lemma json_escape_prefix:
  assumes "json_escape c @ r = json_escape c' @ r'"
  shows "c = c' \<and> r = r'"
proof (cases rule: json_escape_cases [of c])
  case plain
  with assms show ?thesis by (cases rule: json_escape_cases [of c']) auto
next
  case (short d)
  with assms have "json_escape c' = [backslash, d]" "r = r'"
    by (cases rule: json_escape_cases [of c']; auto)+
  with short(1) json_escape_short_inj show ?thesis by blast
next
  case long
  show ?thesis
  proof (cases rule: json_escape_cases [of c'])
    case long': long
    have "of_char c = (of_char c' :: nat)" using assms long long' by (intro small_code) auto
    with assms show ?thesis by simp
  qed (use assms long in auto)
qed

lemma json_escape_no_quote: "json_escape c @ r \<noteq> quote # r'"
  by (cases rule: json_escape_cases [of c]) (auto simp: quote_def backslash_def)

lemma json_chars_prefix:
  "concat (map json_escape s) @ quote # r = concat (map json_escape s') @ quote # r' \<Longrightarrow> s = s' \<and> r = r'"
proof (induction s arbitrary: s')
  case Nil
  show ?case
  proof (cases s')
    case (Cons c t)
    with Nil show ?thesis using json_escape_no_quote [of c "concat (map json_escape t) @ quote # r'" r] by simp
  qed (use Nil in simp)
next
  case (Cons c s)
  show ?case
  proof (cases s')
    case Nil
    with Cons.prems show ?thesis using json_escape_no_quote [of c "concat (map json_escape s) @ quote # r" r'] by simp
  next
    case (Cons d t)
    with Cons.prems have "json_escape c @ (concat (map json_escape s) @ quote # r) = json_escape d @ (concat (map json_escape t) @ quote # r')"
      by simp
    from json_escape_prefix [OF this] Cons.IH [of t] Cons show ?thesis by auto
  qed
qed

lemma json_str_prefix [simp]: "json_str s @ r = json_str s' @ r' \<longleftrightarrow> s = s' \<and> r = r'"
  using json_chars_prefix [of s r s' r'] by (auto simp: json_str_def)

section \<open>Values\<close>

text \<open>What may follow a printed value.\<close>

definition stop :: "string \<Rightarrow> bool" where
  "stop r = (case r of [] \<Rightarrow> True | c # _ \<Rightarrow> c \<in> set '',]}'')"

definition determined :: "('a \<Rightarrow> string) \<Rightarrow> 'a \<Rightarrow> bool" where
  "determined p x = (\<forall>y r s. p x @ r = p y @ s \<and> stop r \<and> stop s \<longrightarrow> x = y \<and> r = s)"

definition starts_value :: "string \<Rightarrow> bool" where
  "starts_value t = (t \<noteq> [] \<and> hd t \<notin> set '',]}'')"

lemma stop_simps [simp]: "stop (CHR '','' # r)" "stop (CHR '']'' # r)" "stop (CHR ''}'' # r)" "stop []"
  by (simp_all add: stop_def)

lemma commas_Cons: "commas (x # xs) = x @ (if xs = [] then [] else CHR '','' # commas xs)"
  by (cases xs) simp_all

lemma starts_value_no_close: "starts_value v \<Longrightarrow> close \<in> set '']}'' \<Longrightarrow> v @ t \<noteq> close # u"
  by (cases v) (auto simp: starts_value_def)

lemma determinedD: "determined p x \<Longrightarrow> p x @ r = p y @ s \<Longrightarrow> stop r \<Longrightarrow> stop s \<Longrightarrow> x = y \<and> r = s"
  by (simp add: determined_def)

lemma commas_determined:
  assumes "\<forall>x\<in>set xs. determined p x" and "\<And>x. starts_value (p x)" and "close \<in> set '']}''"
    and "commas (map p xs) @ close # r = commas (map p ys) @ close # s"
  shows "xs = ys \<and> r = s"
  using assms(1,4)
proof (induction xs arbitrary: ys)
  case Nil
  then show ?case using starts_value_no_close [OF assms(2,3)]
    by (cases ys) (auto simp: commas_Cons dest: sym split: if_splits)
next
  case (Cons x xs)
  show ?case
  proof (cases ys)
    case Nil
    with Cons.prems starts_value_no_close [OF assms(2,3)] show ?thesis
      by (auto simp: commas_Cons split: if_splits)
  next
    case (Cons y ys')
    let ?rest = "\<lambda>zs t. if zs = [] then close # t else CHR '','' # commas (map p zs) @ close # t"
    have e: "p x @ ?rest xs r = p y @ ?rest ys' s" using Cons.prems(2) Cons by (auto simp: commas_Cons split: if_splits)
    have st: "stop (?rest zs t)" for zs t using assms(3) by (auto simp: stop_def)
    have "determined p x" using Cons.prems(1) by simp
    then have "x = y \<and> ?rest xs r = ?rest ys' s" by (rule determinedD) (rule e, rule st, rule st)
    then have "x = y" and rest: "?rest xs r = ?rest ys' s" by blast+
    have "close \<noteq> CHR '',''" using assms(3) by auto
    with rest have "commas (map p xs) @ close # r = commas (map p ys') @ close # s"
      by (simp split: if_split_asm)
    with Cons.IH [of ys'] Cons.prems(1) \<open>x = y\<close> Cons show ?thesis by simp
  qed
qed

definition number_char :: "char \<Rightarrow> bool" where
  "number_char c = (is_digit c \<or> c = CHR ''-'')"

lemma dec_str_chars: "list_all number_char (dec_str i) \<and> dec_str i \<noteq> []"
proof -
  have "list_all number_char (dec_str_nat n)" for n
    using dec_str_nat_digits [of n] by (auto simp: number_char_def list_all_iff)
  then show ?thesis using dec_str_nat_digits by (simp add: dec_str_def number_char_def)
qed

lemma number_char_stop: "stop (c # r) \<Longrightarrow> \<not> number_char c"
  by (auto simp: stop_def number_char_def is_digit_def dec_digits_def)

lemma dec_str_determined:
  assumes "dec_str i @ r = dec_str j @ s" and "stop r" and "stop s"
  shows "i = j \<and> r = s"
proof -
  have take: "takeWhile number_char (dec_str k @ t) = dec_str k" if "stop t" for k t
    using dec_str_chars [of k] that number_char_stop
    by (cases t) (auto simp: takeWhile_append list_all_iff intro: takeWhile_eq_all_conv [THEN iffD2])
  then have "dec_str i = dec_str j" using assms by metis
  moreover have "i = j" if "dec_str i = dec_str j"
  proof -
    have neg: "hd (dec_str k) = CHR ''-'' \<longleftrightarrow> k < 0" for k
      using dec_str_nat_digits [of "nat k"] by (cases "dec_str_nat (nat k)") (auto simp: dec_str_def is_digit_def dec_digits_def)
    have inj: "dec_str_nat m = dec_str_nat n \<Longrightarrow> m = n" for m n by (metis dec_val_acc_str)
    show ?thesis using that neg [of i] neg [of j] inj by (auto simp: dec_str_def split: if_splits dest!: inj)
  qed
  ultimately show ?thesis using assms(1) by auto
qed

text \<open>The first character tells the kind of value.\<close>

fun kind_of :: "json \<Rightarrow> nat" where
  "kind_of JsonNull = 0"
| "kind_of (JsonBool b) = (if b then 1 else 2)"
| "kind_of (JsonInt i) = 3"
| "kind_of (JsonStr s) = 4"
| "kind_of (JsonArr vs) = 5"
| "kind_of (JsonObj fs) = 6"

definition char_kind :: "char \<Rightarrow> nat" where
  "char_kind c = (if c = CHR ''n'' then 0 else if c = CHR ''t'' then 1 else if c = CHR ''f'' then 2
     else if c = quote then 4 else if c = CHR ''['' then 5 else if c = CHR ''{'' then 6 else 3)"

lemma number_char_kind: "number_char c \<Longrightarrow> char_kind c = 3 \<and> c \<notin> set '',]}''"
  by (auto simp: number_char_def is_digit_def dec_digits_def char_kind_def quote_def)

lemma stringify_head: "stringify v \<noteq> [] \<and> char_kind (hd (stringify v)) = kind_of v \<and> starts_value (stringify v)"
proof (cases v)
  case (JsonInt i)
  then show ?thesis using dec_str_chars [of i] number_char_kind by (cases "dec_str i") (auto simp: starts_value_def)
qed (auto simp: char_kind_def quote_def json_str_def starts_value_def)

lemma kind_eq: "stringify v @ r = stringify w @ s \<Longrightarrow> kind_of v = kind_of w"
  using stringify_head [of v] stringify_head [of w] by (metis hd_append)

lemma stringify_determined: "determined stringify v"
proof (induction v)
  case JsonNull
  then show ?case unfolding determined_def
  proof (intro allI impI)
    fix w r s assume a: "stringify JsonNull @ r = stringify w @ s \<and> stop r \<and> stop s"
    then show "JsonNull = w \<and> r = s" using kind_eq [of JsonNull r w s] by (cases w) (auto split: if_splits)
  qed
next
  case (JsonBool b)
  then show ?case unfolding determined_def
  proof (intro allI impI)
    fix w r s assume a: "stringify (JsonBool b) @ r = stringify w @ s \<and> stop r \<and> stop s"
    then show "JsonBool b = w \<and> r = s" using kind_eq [of "JsonBool b" r w s] by (cases w) (auto split: if_splits)
  qed
next
  case (JsonInt i)
  then show ?case unfolding determined_def
  proof (intro allI impI)
    fix w r s assume a: "stringify (JsonInt i) @ r = stringify w @ s \<and> stop r \<and> stop s"
    then show "JsonInt i = w \<and> r = s" using kind_eq [of "JsonInt i" r w s]
      by (cases w) (auto split: if_splits dest: dec_str_determined)
  qed
next
  case (JsonStr t)
  then show ?case unfolding determined_def
  proof (intro allI impI)
    fix w r s assume a: "stringify (JsonStr t) @ r = stringify w @ s \<and> stop r \<and> stop s"
    then show "JsonStr t = w \<and> r = s" using kind_eq [of "JsonStr t" r w s] by (cases w) (auto split: if_splits)
  qed
next
  case (JsonArr vs)
  show ?case unfolding determined_def
  proof (intro allI impI)
    fix w r s assume a: "stringify (JsonArr vs) @ r = stringify w @ s \<and> stop r \<and> stop s"
    then obtain ws where w: "w = JsonArr ws" using kind_eq [of "JsonArr vs" r w s] by (cases w) (auto split: if_splits)
    with a have "commas (map stringify vs) @ CHR '']'' # r = commas (map stringify ws) @ CHR '']'' # s" by simp
    from commas_determined [OF _ _ _ this] JsonArr stringify_head w show "JsonArr vs = w \<and> r = s" by simp
  qed
next
  case (JsonObj fs)
  let ?p = "\<lambda>(k, v). json_str k @ '':'' @ stringify v"
  show ?case unfolding determined_def
  proof (intro allI impI)
    fix w r s assume a: "stringify (JsonObj fs) @ r = stringify w @ s \<and> stop r \<and> stop s"
    then obtain gs where w: "w = JsonObj gs" using kind_eq [of "JsonObj fs" r w s] by (cases w) (auto split: if_splits)
    with a have e: "commas (map ?p fs) @ CHR ''}'' # r = commas (map ?p gs) @ CHR ''}'' # s" by simp
    have "determined ?p f" if "f \<in> set fs" for f
    proof -
      obtain k v where f: "f = (k, v)" by (cases f)
      have "determined stringify v" using JsonObj [OF that] f by (auto simp: Basic_BNFs.snds.simps)
      then show ?thesis by (auto simp: determined_def f)
    qed
    moreover have "starts_value (?p f)" for f by (cases f) (simp add: starts_value_def json_str_def quote_def)
    ultimately show "JsonObj fs = w \<and> r = s" using commas_determined [OF _ _ _ e] w by simp
  qed
qed

text \<open>The printed text determines the value.\<close>

lemma stringify_inject: "stringify v = stringify w \<longleftrightarrow> v = w"
  using determinedD [OF stringify_determined, of v "[]" w "[]"] by auto

lemma bytes_of_string_inject: "bytes_of_string s = bytes_of_string t \<longleftrightarrow> s = t"
proof -
  have "inj (of_char :: char \<Rightarrow> byte)"
  proof (rule injI)
    fix c d :: char assume "(of_char c :: byte) = of_char d"
    then have "unat (of_char c :: byte) = unat (of_char d :: byte)" by simp
    then show "c = d" unfolding unat_of_char by simp
  qed
  then show ?thesis by (auto simp: bytes_of_string_def inj_map_eq_map)
qed

end
