(* ===== verification/Inbox.thy ===== *)
theory Inbox
  imports Transcript Authorization Json
begin

text \<open>
  The envelope parser and the development inbox of \<^verbatim>\<open>observation-inbox.ts\<close>.  The input is a parsed
  JSON value; every framing failure is the one error \<^verbatim>\<open>invalid_observation\<close>, so the parser returns an
  option.  SHA-256 and Poseidon are parameters.  In policy mode the parser lets short RSSI lists and
  mismatched public inputs pass and reports the match, for the policy to reject with its own codes.
\<close>

section \<open>Framing\<close>

definition js_record :: "jsval \<Rightarrow> string list \<Rightarrow> string list \<Rightarrow> jsval option" where
  "js_record v required optional =
     (case v of JObj fs \<Rightarrow>
        if list_ex (\<lambda>k. k \<notin> fst ` set fs) required \<or>
           list_ex (\<lambda>f. fst f \<notin> set required \<and> fst f \<notin> set optional) fs then None else Some (JObj fs)
      | _ \<Rightarrow> None)"

definition js_bytes :: "jsval \<Rightarrow> nat \<Rightarrow> bool \<Rightarrow> bytes option" where
  "js_bytes v limit allowEmpty =
     (case v of JStr s \<Rightarrow>
        if length s > (limit + 2) div 3 * 4 \<or> (\<not> allowEmpty \<and> s = []) \<or> \<not> b64_pattern s then None
        else let decoded = b64_dec s
             in if length decoded > limit \<or> b64_enc decoded \<noteq> s then None else Some decoded
      | _ \<Rightarrow> None)"

definition js_decimal :: "jsval \<Rightarrow> int \<Rightarrow> string option" where
  "js_decimal v limit =
     (case v of JStr s \<Rightarrow>
        if length s > 78 \<or> \<not> is_decimal s \<or> dec_val s \<ge> limit then None else Some s
      | _ \<Rightarrow> None)"

definition js_point :: "jsval \<Rightarrow> nat \<Rightarrow> string list option" where
  "js_point v n = do { xs \<leftarrow> js_array v n; those (map (\<lambda>x. js_decimal x BN254_BASE_FIELD) xs) }"

section \<open>Envelopes\<close>

record ObservationEnvelope =
  oe_transcript :: string
  oe_assertion :: string
  oe_key_id :: string
  oe_pi_a :: "string list"
  oe_pi_b :: "string list list"
  oe_pi_c :: "string list"
  oe_public :: "string list"
  oe_evidence :: "string option"

definition idField :: "(int list \<Rightarrow> int) \<Rightarrow> bytes \<Rightarrow> int \<Rightarrow> string" where
  "idField poseidon ident domain = dec_str (poseidon [domain, be_val (take 16 ident), be_val (drop 16 ident)])"

definition expected_inputs :: "(int list \<Rightarrow> int) \<Rightarrow> ObservationTranscript \<Rightarrow> string list" where
  "expected_inputs poseidon t =
     [idField poseidon (ot_protocolID t) 3, idField poseidon (ot_deviceID t) 4, dec_str (jint (ot_epoch t)),
      dec_str (be_val (ot_nullifier t)), dec_str (be_val (ot_pseudonym t)), dec_str (jint (ot_observerClass t))]"

definition parse_proof :: "jsval \<Rightarrow> (string list \<times> string list list \<times> string list) option" where
  "parse_proof v = do {
     proof \<leftarrow> js_record v [''pi_a'', ''pi_b'', ''pi_c'', ''protocol'', ''curve''] [];
     a \<leftarrow> js_point (js_get proof ''pi_a'') 3;
     c \<leftarrow> js_point (js_get proof ''pi_c'') 3;
     bs \<leftarrow> js_array (js_get proof ''pi_b'') 3;
     b \<leftarrow> those (map (\<lambda>x. js_point x 2) bs);
     if js_get proof ''protocol'' \<noteq> JStr ''groth16'' \<or> js_get proof ''curve'' \<noteq> JStr ''bn128'' \<or> a ! 2 \<noteq> ''1'' \<or> c ! 2 \<noteq> ''1'' \<or>
        b ! 2 ! 0 \<noteq> ''1'' \<or> b ! 2 ! 1 \<noteq> ''0'' then None
     else Some (a, b, c) }"

definition parse_key_id :: "jsval \<Rightarrow> string option" where
  "parse_key_id v = (case v of JStr s \<Rightarrow> if s = [] \<or> length s > 1024 then None else Some s | _ \<Rightarrow> None)"

definition parse_evidence :: "jsval \<Rightarrow> bytes option option" where
  "parse_evidence v = (if v = JUndef then Some None else map_option Some (js_bytes v 16384 True))"

definition parseObservationEnvelope ::
  "hash \<Rightarrow> (int list \<Rightarrow> int) \<Rightarrow> jsval \<Rightarrow> bool \<Rightarrow> (ObservationEnvelope \<times> string \<times> bool) option" where
  "parseObservationEnvelope sha poseidon value policyMode = do {
     obj \<leftarrow> js_record value [''transcript'', ''assertion'', ''key_id'', ''zk''] [''evidence''];
     transcriptBytes \<leftarrow> js_bytes (js_get obj ''transcript'') 611 False;
     t \<leftarrow> decodeObservationTranscript transcriptBytes (JInt (if policyMode then 0 else 5));
     assertion \<leftarrow> js_bytes (js_get obj ''assertion'') 16384 False;
     keyID \<leftarrow> parse_key_id (js_get obj ''key_id'');
     evidence \<leftarrow> parse_evidence (js_get obj ''evidence'');
     if ot_evidenceHash t \<noteq> observationEvidenceHash sha evidence then None
     else do {
       zk \<leftarrow> js_record (js_get obj ''zk'') [''proof'', ''public''] [];
       ps \<leftarrow> js_array (js_get zk ''public'') 7;
       inputs \<leftarrow> those (map (\<lambda>v. js_decimal v BN254_MODULUS) ps);
       let publicInputsMatch = (drop 1 inputs = expected_inputs poseidon t);
       if \<not> policyMode \<and> \<not> publicInputsMatch then None
       else do {
         (a, b, c) \<leftarrow> parse_proof (js_get zk ''proof'');
         Some (\<lparr>oe_transcript = b64_enc transcriptBytes, oe_assertion = b64_enc assertion, oe_key_id = keyID,
             oe_pi_a = a, oe_pi_b = b, oe_pi_c = c, oe_public = inputs, oe_evidence = map_option b64_enc evidence\<rparr>,
           hex_of_bytes (sha (transcript_domain @ transcriptBytes)), publicInputsMatch) } } }"

text \<open>The text of \<^verbatim>\<open>JSON.stringify(envelope)\<close> and its digest.\<close>

definition envelope_json :: "ObservationEnvelope \<Rightarrow> json" where
  "envelope_json e = (let strs = JsonArr \<circ> map JsonStr in JsonObj ([
     (''transcript'', JsonStr (oe_transcript e)), (''assertion'', JsonStr (oe_assertion e)), (''key_id'', JsonStr (oe_key_id e)),
     (''zk'', JsonObj [
       (''proof'', JsonObj [(''pi_a'', strs (oe_pi_a e)), (''pi_b'', JsonArr (map strs (oe_pi_b e))), (''pi_c'', strs (oe_pi_c e)),
          (''protocol'', JsonStr ''groth16''), (''curve'', JsonStr ''bn128'')]),
       (''public'', strs (oe_public e))])] @
     (case oe_evidence e of None \<Rightarrow> [] | Some v \<Rightarrow> [(''evidence'', JsonStr v)])))"

definition envelope_text :: "ObservationEnvelope \<Rightarrow> bytes" where
  "envelope_text e = bytes_of_string (stringify (envelope_json e))"

definition envelope_digest :: "hash \<Rightarrow> ObservationEnvelope \<Rightarrow> string" where
  "envelope_digest sha e = hex_of_bytes (sha (envelope_text e))"

text \<open>The proof and the inputs as the values the converters read.\<close>

definition proof_value :: "ObservationEnvelope \<Rightarrow> jsval" where
  "proof_value e = JObj [(''pi_a'', JArr (map JStr (oe_pi_a e))), (''pi_b'', JArr (map (\<lambda>xs. JArr (map JStr xs)) (oe_pi_b e))),
     (''pi_c'', JArr (map JStr (oe_pi_c e))), (''protocol'', JStr ''groth16''), (''curve'', JStr ''bn128'')]"

definition public_value :: "ObservationEnvelope \<Rightarrow> jsval" where
  "public_value e = JArr (map JStr (oe_public e))"

section \<open>The development inbox\<close>

datatype inbox_error = Invalid_observation | Receipt_conflict | Inbox_full

record InboxRow =
  ir_transcript_hash :: string
  ir_envelope_hash :: string
  ir_received_at :: int

definition openInbox :: "jsnum \<Rightarrow> int option" where
  "openInbox limit = (if \<not> int_in limit 1 100000 then None else Some (jint limit))"

definition inbox_receive ::
  "hash \<Rightarrow> (int list \<Rightarrow> int) \<Rightarrow> int \<Rightarrow> jsval \<Rightarrow> int \<Rightarrow> InboxRow list \<Rightarrow> InboxRow list \<times> (inbox_error + string)" where
  "inbox_receive sha poseidon limit input now rows =
     (case parseObservationEnvelope sha poseidon input False of
        None \<Rightarrow> (rows, Inl Invalid_observation)
      | Some (envelope, h, _) \<Rightarrow>
          let digest = envelope_digest sha envelope
          in case find (\<lambda>r. ir_transcript_hash r = h) rows of
               Some row \<Rightarrow> (rows, if ir_envelope_hash row \<noteq> digest then Inl Receipt_conflict else Inr h)
             | None \<Rightarrow>
                 if int (length rows) \<ge> limit then (rows, Inl Inbox_full)
                 else (rows @ [\<lparr>ir_transcript_hash = h, ir_envelope_hash = digest, ir_received_at = now\<rparr>], Inr h))"

section \<open>Decimal scalars\<close>

lemma dec_val_acc_lower: "a * 10 ^ length s \<le> dec_val_acc a s"
proof (induction s arbitrary: a)
  case (Cons c s)
  have "a * 10 ^ length (c # s) \<le> (10 * a + dec_value c) * 10 ^ length s" by (simp add: algebra_simps)
  also have "\<dots> \<le> dec_val_acc a (c # s)" using Cons.IH [of "10 * a + dec_value c"] by simp
  finally show ?case .
qed simp

lemma decimal_length:
  assumes "is_decimal s" and "dec_val s < 10 ^ 77"
  shows "length s \<le> 77"
proof (cases s)
  case (Cons c t)
  show ?thesis
  proof (cases "s = ''0''")
    case False
    with assms(1) Cons have c: "is_digit c" "c \<noteq> CHR ''0''" by (auto simp: is_decimal_def)
    then have "dec_value c \<noteq> 0" using dec_char_value [OF c(1)] dec_digits_facts(3) by metis
    then have "(1 :: nat) * 10 ^ length t \<le> dec_value c * 10 ^ length t" by simp
    also have "\<dots> \<le> dec_val_acc 0 s" using dec_val_acc_lower [of "dec_value c" t] Cons by simp
    also have "\<dots> < 10 ^ 77" using assms(2) by (simp add: dec_val_def)
    finally have "(10 :: nat) ^ length t < 10 ^ 77" by simp
    then have "length t < 77" by (rule power_less_imp_less_exp [rotated]) simp
    then show ?thesis using Cons by simp
  qed simp
qed simp

lemma js_decimal_Some:
  "js_decimal v limit = Some s \<longleftrightarrow> v = JStr s \<and> length s \<le> 78 \<and> is_decimal s \<and> dec_val s < limit"
  by (auto simp: js_decimal_def split: jsval.splits if_splits)

lemma relay_scalar_decimal:
  "is_decimal s \<Longrightarrow> dec_val s < m \<Longrightarrow> m \<le> 10 ^ 77 \<Longrightarrow> relay_scalar (JStr s) m = Some (dec_val s)"
  using decimal_length [of s] by (simp add: relay_scalar_def)

lemma field_sizes: "BN254_BASE_FIELD \<le> 10 ^ 77" "BN254_MODULUS \<le> 10 ^ 77"
  by (simp_all add: BN254_BASE_FIELD_def BN254_MODULUS_def)

lemma base_scalar: "is_decimal s \<Longrightarrow> dec_val s < BN254_BASE_FIELD \<Longrightarrow> relay_scalar (JStr s) BN254_BASE_FIELD = Some (dec_val s)"
  by (rule relay_scalar_decimal [OF _ _ field_sizes(1)])

lemma input_scalar: "is_decimal s \<Longrightarrow> dec_val s < BN254_MODULUS \<Longrightarrow> relay_scalar (JStr s) BN254_MODULUS = Some (dec_val s)"
  by (rule relay_scalar_decimal [OF _ _ field_sizes(2)])

definition point_ok :: "nat \<Rightarrow> string list \<Rightarrow> bool" where
  "point_ok n xs = (length xs = n \<and> (\<forall>x\<in>set xs. is_decimal x \<and> dec_val x < BN254_BASE_FIELD))"

lemma those_js_decimal:
  "those (map (\<lambda>x. js_decimal x l) vs) = Some xs \<Longrightarrow>
     vs = map JStr xs \<and> (\<forall>x\<in>set xs. is_decimal x \<and> dec_val x < l)"
proof (induction vs arbitrary: xs)
  case (Cons v vs)
  then show ?case by (auto simp: js_decimal_Some split: option.splits)
qed simp

lemma js_point_Some: "js_point v n = Some xs \<Longrightarrow> v = JArr (map JStr xs) \<and> point_ok n xs"
  by (cases v) (auto simp: js_point_def point_ok_def Option.bind_eq_Some_conv dest!: those_js_decimal split: if_splits)

lemma those_js_points:
  "those (map (\<lambda>x. js_point x n) vs) = Some bs \<Longrightarrow> length bs = length vs \<and> (\<forall>b\<in>set bs. point_ok n b)"
proof (induction vs arbitrary: bs)
  case (Cons v vs)
  then show ?case by (auto split: option.splits dest!: js_point_Some)
qed simp

text \<open>The shape of an accepted proof.\<close>

definition proof_shape :: "string list \<Rightarrow> string list list \<Rightarrow> string list \<Rightarrow> bool" where
  "proof_shape a b c = (point_ok 3 a \<and> point_ok 3 c \<and> length b = 3 \<and> (\<forall>p\<in>set b. point_ok 2 p) \<and>
     a ! 2 = ''1'' \<and> c ! 2 = ''1'' \<and> b ! 2 = [''1'', ''0''])"

lemma parse_proof_shape: "parse_proof v = Some (a, b, c) \<Longrightarrow> proof_shape a b c"
proof -
  assume "parse_proof v = Some (a, b, c)"
  then obtain va vb vc bs where p: "js_point va 3 = Some a" "js_point vc 3 = Some c" "js_array vb 3 = Some bs"
    "those (map (\<lambda>x. js_point x 2) bs) = Some b" "a ! 2 = ''1''" "c ! 2 = ''1''" "b ! 2 ! 0 = ''1''" "b ! 2 ! 1 = ''0''"
    by (auto simp: parse_proof_def Option.bind_eq_Some_conv split: if_splits)
  have l: "length bs = 3" using p(3) by (cases vb) (auto split: if_splits)
  then have b: "length b = 3" "\<forall>q\<in>set b. point_ok 2 q" using those_js_points [OF p(4)] by auto
  then have "length (b ! 2) = 2" by (simp add: point_ok_def)
  then have "b ! 2 = [''1'', ''0'']" using p(7,8) by (cases "b ! 2"; cases "tl (b ! 2)") auto
  then show ?thesis using p b by (auto simp: proof_shape_def dest!: js_point_Some)
qed

lemma relay_g1_shape:
  assumes "point_ok 3 a" and "a ! 2 = ''1''"
  shows "\<exists>b. relay_g1 (JArr (map JStr a)) neg = Some b \<and> length b = 64"
proof -
  obtain x y z where a: "a = [x, y, z]" using assms(1) by (auto simp: point_ok_def eval_nat_numeral length_Suc_conv)
  have "relay_scalar (JStr x) BN254_BASE_FIELD = Some (dec_val x)" "relay_scalar (JStr y) BN254_BASE_FIELD = Some (dec_val y)"
    using assms(1) base_scalar [of x] base_scalar [of y] by (auto simp: a point_ok_def)
  with assms(2) show ?thesis by (simp add: g1_def a)
qed

lemma relayProofBytes_shape:
  assumes "proof_shape (oe_pi_a e) (oe_pi_b e) (oe_pi_c e)" and "length (oe_public e) = 7"
    and "\<forall>x\<in>set (oe_public e). is_decimal x \<and> dec_val x < BN254_MODULUS"
  shows "\<exists>h. relayProofBytes (proof_value e) (public_value e) = Some (h @ concat (map (be_num 32 \<circ> dec_val) (oe_public e))) \<and>
    length h = 256"
proof -
  note s = assms(1) [unfolded proof_shape_def]
  obtain b0 b1 b2 where b: "oe_pi_b e = [b0, b1, b2]" using s by (auto simp: eval_nat_numeral length_Suc_conv)
  obtain x0 x1 y0 y1 where xy: "b0 = [x0, x1]" "b1 = [y0, y1]"
    using s b by (auto simp: point_ok_def eval_nat_numeral length_Suc_conv)
  have sc: "relay_scalar (JStr v) BN254_BASE_FIELD = Some (dec_val v)" if "v \<in> {x0, x1, y0, y1}" for v
    using s b xy that base_scalar [of v] by (auto simp: point_ok_def)
  obtain a c where ac: "relay_g1 (JArr (map JStr (oe_pi_a e))) True = Some a" "length a = 64"
    "relay_g1 (JArr (map JStr (oe_pi_c e))) False = Some c" "length c = 64"
    using relay_g1_shape s by blast
  have ins: "those (map (\<lambda>x. relay_scalar (JStr x) BN254_MODULUS) (oe_public e)) = Some (map dec_val (oe_public e))"
    using assms(3) by (intro those_map_Some input_scalar) blast+
  let ?h = "a @ concat (map (be_num 32 \<circ> dec_val) [x1, x0, y1, y0]) @ c"
  have "relayProofBytes (proof_value e) (public_value e) = Some (?h @ concat (map (be_num 32 \<circ> dec_val) (oe_public e)))"
    using s b xy ac(1,3) assms(2) by (simp add: relayProofBytes_def proof_value_def public_value_def sc [simplified] ins comp_def)
  moreover have "length ?h = 256" using ac by simp
  ultimately show ?thesis by blast
qed

lemma parse_accepted:
  assumes "parseObservationEnvelope sha poseidon value policyMode = Some (e, h, ok)"
  obtains tb t where "decodeObservationTranscript tb (JInt (if policyMode then 0 else 5)) = Some t"
    "oe_transcript e = b64_enc tb" "h = hex_of_bytes (sha (transcript_domain @ tb))"
    "ok \<longleftrightarrow> drop 1 (oe_public e) = expected_inputs poseidon t" "policyMode \<or> ok"
    "proof_shape (oe_pi_a e) (oe_pi_b e) (oe_pi_c e)" "length (oe_public e) = 7"
    "\<forall>x\<in>set (oe_public e). is_decimal x \<and> dec_val x < BN254_MODULUS"
    "\<exists>evidence. ot_evidenceHash t = observationEvidenceHash sha evidence \<and> oe_evidence e = map_option b64_enc evidence"
    "oe_key_id e \<noteq> []"
proof -
  from assms obtain obj tb t assertion keyID evidence zk ps inputs a b c where
    p: "js_bytes (js_get obj ''transcript'') 611 False = Some tb"
      "decodeObservationTranscript tb (JInt (if policyMode then 0 else 5)) = Some t"
      "parse_key_id (js_get obj ''key_id'') = Some keyID" "ot_evidenceHash t = observationEvidenceHash sha evidence"
      "js_array (js_get zk ''public'') 7 = Some ps" "those (map (\<lambda>v. js_decimal v BN254_MODULUS) ps) = Some inputs"
      "policyMode \<or> drop 1 inputs = expected_inputs poseidon t" "parse_proof (js_get zk ''proof'') = Some (a, b, c)"
    and e: "e = \<lparr>oe_transcript = b64_enc tb, oe_assertion = b64_enc assertion, oe_key_id = keyID,
             oe_pi_a = a, oe_pi_b = b, oe_pi_c = c, oe_public = inputs, oe_evidence = map_option b64_enc evidence\<rparr>"
      "h = hex_of_bytes (sha (transcript_domain @ tb))" "ok = (drop 1 inputs = expected_inputs poseidon t)"
    by (auto simp: parseObservationEnvelope_def Let_def Option.bind_eq_Some_conv split: if_splits)
  have "length ps = 7" using p(5) by (cases "js_get zk ''public''") (auto split: if_splits)
  then have "length inputs = 7" "\<forall>x\<in>set inputs. is_decimal x \<and> dec_val x < BN254_MODULUS"
    using those_js_decimal [OF p(6)] by auto
  moreover have "keyID \<noteq> []" using p(3) by (auto simp: parse_key_id_def split: jsval.splits if_splits)
  ultimately show thesis using p e parse_proof_shape [OF p(8)] by (intro that [of tb t]) auto
qed

section \<open>Properties\<close>


lemma envelope_text_inject: "envelope_text e = envelope_text f \<longleftrightarrow> e = f"
proof
  assume "envelope_text e = envelope_text f"
  then have "envelope_json e = envelope_json f"
    by (simp add: envelope_text_def bytes_of_string_inject stringify_inject)
  moreover have i: "inj JsonStr" by (auto intro: injI)
  moreover have "inj (\<lambda>xs. JsonArr (map JsonStr xs))" by (auto intro!: injI simp: inj_map_eq_map [OF i])
  ultimately show "e = f"
    by (cases e; cases f) (auto simp: envelope_json_def Let_def comp_def inj_map_eq_map split: option.splits)
qed simp

definition inbox_inv :: "int \<Rightarrow> InboxRow list \<Rightarrow> bool" where
  "inbox_inv limit rows = (distinct (map ir_transcript_hash rows) \<and> int (length rows) \<le> limit)"

inductive inbox_run :: "hash \<Rightarrow> (int list \<Rightarrow> int) \<Rightarrow> int \<Rightarrow> InboxRow list \<Rightarrow> InboxRow list \<Rightarrow> bool" for sha poseidon limit rows0 where
  inbox_start: "inbox_run sha poseidon limit rows0 rows0"
| inbox_next: "inbox_run sha poseidon limit rows0 rows \<Longrightarrow>
    inbox_run sha poseidon limit rows0 (fst (inbox_receive sha poseidon limit input now rows))"

lemma inbox_receive_inv:
  assumes "inbox_inv limit rows"
  shows "inbox_inv limit (fst (inbox_receive sha poseidon limit input now rows)) \<and>
    set rows \<subseteq> set (fst (inbox_receive sha poseidon limit input now rows))"
  using assms by (auto simp: inbox_receive_def inbox_inv_def Let_def find_None_iff split: option.splits)

lemma inbox_run_inv:
  "inbox_run sha poseidon limit rows0 rows \<Longrightarrow> inbox_inv limit rows0 \<Longrightarrow> inbox_inv limit rows \<and> set rows0 \<subseteq> set rows"
proof (induction rule: inbox_run.induct)
  case (inbox_next rows input now)
  then show ?case using inbox_receive_inv [of limit rows] by blast
qed simp

lemma inbox_find:
  assumes "inbox_inv limit rows" and "r \<in> set rows"
  shows "find (\<lambda>q. ir_transcript_hash q = ir_transcript_hash r) rows = Some r"
proof -
  from assms(2) obtain q where q: "find (\<lambda>q. ir_transcript_hash q = ir_transcript_hash r) rows = Some q"
    by (cases "find (\<lambda>q. ir_transcript_hash q = ir_transcript_hash r) rows") (auto simp: find_None_iff)
  then have "q \<in> set rows" "ir_transcript_hash q = ir_transcript_hash r" by (auto simp: find_Some_iff)
  with assms have "q = r" by (auto simp: inbox_inv_def distinct_map dest: inj_onD)
  with q show ?thesis by simp
qed

text \<open>A receipt proves that the row is stored.\<close>

lemma inbox_received:
  assumes "inbox_inv limit rows" and "inbox_receive sha poseidon limit input now rows = (rows', Inr h)"
  shows "\<exists>e ok r. parseObservationEnvelope sha poseidon input False = Some (e, h, ok) \<and> r \<in> set rows' \<and>
    ir_transcript_hash r = h \<and> ir_envelope_hash r = envelope_digest sha e"
proof -
  from assms(2) obtain e ok where p: "parseObservationEnvelope sha poseidon input False = Some (e, h, ok)"
    by (auto simp: inbox_receive_def Let_def split: option.splits if_splits)
  have "\<exists>r\<in>set rows'. ir_transcript_hash r = h \<and> ir_envelope_hash r = envelope_digest sha e"
  proof (cases "find (\<lambda>r. ir_transcript_hash r = h) rows")
    case None
    with assms(2) p show ?thesis by (auto simp: inbox_receive_def Let_def split: if_splits)
  next
    case (Some r)
    with assms(2) p show ?thesis using find_SomeD [OF Some]
      by (auto simp: inbox_receive_def Let_def split: if_splits)
  qed
  with p show ?thesis by blast
qed

text \<open>The development inbox is idempotent and conflict free: in every state reachable from an empty
  inbox, transcripts are distinct and within the limit; once an input has a receipt, receiving it again, at
  any later time, gives the same receipt and changes nothing, and an input with the same transcript and
  another envelope is refused, provided the hash does not collide on the two envelope texts.\<close>

theorem inbox_idempotent:
  assumes "openInbox (JInt n) = Some limit" and "inbox_run sha poseidon limit [] rows"
    and "inbox_receive sha poseidon limit input now rows = (rows1, Inr h)" and "inbox_run sha poseidon limit rows1 rows2"
  shows "inbox_inv limit rows2 \<and> inbox_receive sha poseidon limit input later rows2 = (rows2, Inr h) \<and>
    (\<forall>e ok other f ok'. parseObservationEnvelope sha poseidon input False = Some (e, h, ok) \<and>
       parseObservationEnvelope sha poseidon other False = Some (f, h, ok') \<and> e \<noteq> f \<and>
       (sha (envelope_text e) = sha (envelope_text f) \<longrightarrow> envelope_text e = envelope_text f) \<longrightarrow>
       inbox_receive sha poseidon limit other later rows2 = (rows2, Inl Receipt_conflict))"
proof -
  have "0 < limit" using assms(1) by (auto simp: openInbox_def split: if_splits)
  then have inv: "inbox_inv limit rows" using inbox_run_inv [OF assms(2)] by (simp add: inbox_inv_def)
  then have inv1: "inbox_inv limit rows1" using inbox_receive_inv [OF inv, of sha poseidon input now] assms(3) by simp
  from inbox_run_inv [OF assms(4) inv1] have inv2: "inbox_inv limit rows2" and sub: "set rows1 \<subseteq> set rows2" by auto
  from inbox_received [OF inv assms(3)] obtain e ok r where p: "parseObservationEnvelope sha poseidon input False = Some (e, h, ok)"
    and r: "r \<in> set rows1" "ir_transcript_hash r = h" "ir_envelope_hash r = envelope_digest sha e" by blast
  have f: "find (\<lambda>q. ir_transcript_hash q = h) rows2 = Some r" using inbox_find [OF inv2] r sub by blast
  show ?thesis using inv2 p f r(3) by (auto simp: inbox_receive_def envelope_digest_def envelope_text_inject)
qed

section \<open>A concrete envelope\<close>

definition sample_value :: "bytes \<Rightarrow> jsval" where
  "sample_value assertion = JObj [(''transcript'', JStr (b64_enc (transcript_bytes sample_transcript))),
     (''assertion'', JStr (b64_enc assertion)), (''key_id'', JStr ''k''),
     (''zk'', JObj [(''proof'', JObj [(''pi_a'', JArr [JStr ''1'', JStr ''2'', JStr ''1'']),
         (''pi_b'', JArr [JArr [JStr ''1'', JStr ''2''], JArr [JStr ''3'', JStr ''4''], JArr [JStr ''1'', JStr ''0'']]),
         (''pi_c'', JArr [JStr ''1'', JStr ''2'', JStr ''1'']), (''protocol'', JStr ''groth16''), (''curve'', JStr ''bn128'')]),
       (''public'', JArr (map JStr (''0'' # expected_inputs (\<lambda>_. 0) sample_transcript)))])]"

lemma sample_transcript_parts:
  "js_bytes (JStr (b64_enc (transcript_bytes sample_transcript))) 611 False = Some (transcript_bytes sample_transcript)"
  "decodeObservationTranscript (transcript_bytes sample_transcript) (JInt 5) = Some sample_transcript"
proof -
  have l: "length (transcript_bytes sample_transcript) = 596"
    using length_transcript_bytes [OF sample_transcript_valid] by (simp add: sample_transcript_def)
  then show "js_bytes (JStr (b64_enc (transcript_bytes sample_transcript))) 611 False = Some (transcript_bytes sample_transcript)"
    using length_b64_enc [of "transcript_bytes sample_transcript"] by (auto simp: js_bytes_def Let_def)
  show "decodeObservationTranscript (transcript_bytes sample_transcript) (JInt 5) = Some sample_transcript"
    by (rule decode_transcript_bytes [OF sample_transcript_valid])
qed

lemma sample_inputs: "expected_inputs (\<lambda>_. 0) sample_transcript = [''0'', ''0'', ''5'', ''0'', ''0'', ''1'']"
  by code_simp

definition sample_envelope :: "bytes \<Rightarrow> ObservationEnvelope" where
  "sample_envelope assertion = \<lparr>oe_transcript = b64_enc (transcript_bytes sample_transcript), oe_assertion = b64_enc assertion,
     oe_key_id = ''k'', oe_pi_a = [''1'', ''2'', ''1''], oe_pi_b = [[''1'', ''2''], [''3'', ''4''], [''1'', ''0'']],
     oe_pi_c = [''1'', ''2'', ''1''], oe_public = ''0'' # expected_inputs (\<lambda>_. 0) sample_transcript, oe_evidence = None\<rparr>"

lemma sample_decimals:
  "js_decimal (JStr ''0'') l = (if l \<le> 0 then None else Some ''0'')" "js_decimal (JStr ''1'') l = (if l \<le> 1 then None else Some ''1'')"
  "js_decimal (JStr ''2'') l = (if l \<le> 2 then None else Some ''2'')" "js_decimal (JStr ''3'') l = (if l \<le> 3 then None else Some ''3'')"
  "js_decimal (JStr ''4'') l = (if l \<le> 4 then None else Some ''4'')" "js_decimal (JStr ''5'') l = (if l \<le> 5 then None else Some ''5'')"
  by (simp_all add: js_decimal_def is_decimal_def is_digit_def dec_digits_def dec_val_def dec_value_def)

lemma sample_parse:
  assumes "a \<in> {[0], [1]}"
  shows "parseObservationEnvelope sha (\<lambda>_. 0) (sample_value a) False =
    Some (sample_envelope a, hex_of_bytes (sha (transcript_domain @ transcript_bytes sample_transcript)), True)"
proof -
  have a: "js_bytes (JStr (b64_enc a)) 16384 False = Some a"
    using assms length_b64_enc [of a] by (auto simp: js_bytes_def Let_def simp del: b64_enc.simps)
  have "ot_evidenceHash sample_transcript = observationEvidenceHash sha None"
    by (simp add: sample_transcript_def observationEvidenceHash_def)
  then show ?thesis
    by (simp add: parseObservationEnvelope_def sample_value_def js_record_def sample_transcript_parts a parse_key_id_def
        parse_evidence_def sample_inputs sample_decimals parse_proof_def js_point_def sample_envelope_def Let_def
        BN254_MODULUS_def BN254_BASE_FIELD_def del: b64_enc.simps)
qed


theorem inbox_idempotent_witness:
  "\<exists>rows h. inbox_receive (\<lambda>b. b) (\<lambda>_. 0) 4096 (sample_value [0]) 1 [] = (rows, Inr h) \<and>
     inbox_receive (\<lambda>b. b) (\<lambda>_. 0) 4096 (sample_value [0]) 2 rows = (rows, Inr h) \<and>
     inbox_receive (\<lambda>b. b) (\<lambda>_. 0) 4096 (sample_value [1]) 2 rows = (rows, Inl Receipt_conflict)"
proof -
  let ?h = "hex_of_bytes (transcript_domain @ transcript_bytes sample_transcript)"
  have o: "openInbox (JInt 4096) = Some 4096" by (simp add: openInbox_def)
  have p: "parseObservationEnvelope (\<lambda>b. b) (\<lambda>_. 0) (sample_value [0]) False = Some (sample_envelope [0], ?h, True)"
    "parseObservationEnvelope (\<lambda>b. b) (\<lambda>_. 0) (sample_value [1]) False = Some (sample_envelope [1], ?h, True)"
    by (rule sample_parse, simp)+
  have ne: "sample_envelope [0] \<noteq> sample_envelope [1]" by (simp add: sample_envelope_def del: b64_enc.simps)
  obtain rows where r: "inbox_receive (\<lambda>b. b) (\<lambda>_. 0) 4096 (sample_value [0]) 1 [] = (rows, Inr ?h)"
    by (simp add: inbox_receive_def p Let_def)
  from inbox_idempotent [OF o inbox_start r inbox_start, of 2] p ne r show ?thesis by blast
qed

end
