(* ===== verification/Relay.thy ===== *)
theory Relay
  imports Authorization
begin

text \<open>
  The observation relay of \<^verbatim>\<open>observation-relay.ts\<close>: a queue of jobs, each of which is prepared,
  persisted, submitted and reconciled until it is confirmed or fails.  Processing one job is one
  function of the job read at the start of the tick, the answers of the transport and the clock.
  Every update names the job's nullifier, the primary key, so that rows queued while a call is awaited
  are untouched by it (\<open>set_job_append\<close>).  A thrown error is the flag \<open>False\<close>.  A submission is
  returned with the table it saw, so that a crash at that point is a state of the model.  The payload
  column holds the JSON text of the payload; the model stores the payload.
\<close>

section \<open>Payloads\<close>

record ObservationRelayPayload =
  rp_auth :: ObservationAuthorization
  rp_protocolID :: string
  rp_deviceID :: string
  rp_epoch :: jsnum
  rp_proofBytes :: string
  rp_verifier :: string
  rp_verifierSignature :: string

definition validPayload :: "chain \<Rightarrow> ed25519 \<Rightarrow> ObservationRelayPayload \<Rightarrow> bool" where
  "validPayload ch ed p =
     (let au = rp_auth p; proof = bytes_of_hex (rp_proofBytes p)
      in (case au_evidenceHash au of None \<Rightarrow> False | Some e \<Rightarrow> hex32 e \<noteq> None) \<and>
         hex32 (rp_protocolID p) \<noteq> None \<and> hex32 (rp_deviceID p) \<noteq> None \<and>
         is_hex 960 (rp_proofBytes p) \<and> int_in (rp_epoch p) 0 0xffffffff \<and>
         hex32 (au_nullifier au) = Some (subarray 384 416 proof) \<and> hex32 (au_pseudonym au) = Some (subarray 416 448 proof) \<and>
         be_val (subarray 352 384 proof) = jint (rp_epoch p) \<and>
         JInt (be_val (subarray 448 480 proof)) = au_observerClass au \<and>
         verifyAuthorization ch ed au (rp_verifier p) (rp_verifierSignature p))"

section \<open>State\<close>

record PreparedObservationTransaction =
  po_wire :: string
  po_signature :: string
  po_lastValidBlockHeight :: jsnum

datatype relay_status = Queued | Submitted | Confirmed | Failed

datatype relay_error = Retryable_failure | Invalid_authorization | Transaction_failed | Policy_or_chain_changed | Replacement_limit

record RelayJob =
  rj_nullifier :: string
  rj_transcript_hash :: string
  rj_payload :: ObservationRelayPayload
  rj_status :: relay_status
  rj_wire :: "string option"
  rj_signature :: "string option"
  rj_last_valid_height :: "int option"
  rj_attempts :: nat
  rj_generations :: nat
  rj_retry_at :: int
  rj_last_error :: "relay_error option"

record relay_db =
  rb_target :: "(string \<times> string) option"
  rb_transport :: "string option"
  rb_owner :: "(int \<times> string) option"
  rb_jobs :: "RelayJob list"

definition initializeObservationRelay :: "string \<Rightarrow> string \<Rightarrow> relay_db \<Rightarrow> relay_db \<times> bool" where
  "initializeObservationRelay target verifier db =
     (let row = (case rb_target db of None \<Rightarrow> (target, verifier) | Some r \<Rightarrow> r)
      in (db\<lparr>rb_target := Some row\<rparr>, row = (target, verifier)))"

text \<open>\<open>dead\<close> tells whether a process id is reported as not existing.\<close>

definition openRelayer ::
  "string \<Rightarrow> string \<Rightarrow> string \<Rightarrow> (int \<Rightarrow> bool) \<Rightarrow> int \<Rightarrow> string \<Rightarrow> relay_db \<Rightarrow> relay_db \<times> bool" where
  "openRelayer policyTarget verifier transportTarget dead pid token db =
     (case initializeObservationRelay policyTarget verifier db of
        (db, False) \<Rightarrow> (db, False)
      | (db, True) \<Rightarrow>
          if transportTarget = [] then (db, False)
          else let stored = (case rb_transport db of None \<Rightarrow> transportTarget | Some t \<Rightarrow> t);
                   db = db\<lparr>rb_transport := Some stored\<rparr>
               in if stored \<noteq> transportTarget then (db, False)
                  else if (case rb_owner db of None \<Rightarrow> False | Some (p, _) \<Rightarrow> \<not> dead p) then (db, False)
                  else (db\<lparr>rb_owner := Some (pid, token)\<rparr>, True))"

definition closeRelayer :: "string \<Rightarrow> relay_db \<Rightarrow> relay_db" where
  "closeRelayer token db =
     (case rb_owner db of Some (p, t) \<Rightarrow> if t = token then db\<lparr>rb_owner := None\<rparr> else db | None \<Rightarrow> db)"

text \<open>\<open>receipts\<close> is the validation table of the policy, by transcript hash.\<close>

definition queueValidatedObservation ::
  "chain \<Rightarrow> ed25519 \<Rightarrow> bool \<Rightarrow> (string \<Rightarrow> string option) \<Rightarrow> ObservationRelayPayload \<Rightarrow> int \<Rightarrow> RelayJob list \<Rightarrow> RelayJob list option" where
  "queueValidatedObservation ch ed isTransaction receipts p capacity jobs =
     (let au = rp_auth p
      in if \<not> isTransaction \<or> \<not> validPayload ch ed p then None
         else if receipts (au_transcriptHash au) \<noteq> Some (au_nullifier au) then None
         else if int (length jobs) \<ge> capacity then None
         else if au_nullifier au \<in> rj_nullifier ` set jobs \<or> au_transcriptHash au \<in> rj_transcript_hash ` set jobs then None
         else Some (jobs @ [\<lparr>rj_nullifier = au_nullifier au, rj_transcript_hash = au_transcriptHash au, rj_payload = p,
           rj_status = Queued, rj_wire = None, rj_signature = None, rj_last_valid_height = None, rj_attempts = 0,
           rj_generations = 0, rj_retry_at = 0, rj_last_error = None\<rparr>]))"

record RelayStatus =
  rs_status :: relay_status
  rs_signature :: "string option"
  rs_attempts :: nat
  rs_retry_at :: int
  rs_last_error :: "relay_error option"
  rs_on_chain :: bool
  rs_paid :: bool

definition relay_status_of :: "string \<Rightarrow> RelayJob list \<Rightarrow> RelayStatus option option" where
  "relay_status_of h jobs =
     (if \<not> is_hex 64 h then None
      else Some (map_option (\<lambda>j. \<lparr>rs_status = rj_status j, rs_signature = rj_signature j, rs_attempts = rj_attempts j,
        rs_retry_at = rj_retry_at j, rs_last_error = rj_last_error j, rs_on_chain = (rj_status j = Confirmed), rs_paid = False\<rparr>)
        (find (\<lambda>j. rj_transcript_hash j = h) jobs)))"

section \<open>Processing a job\<close>

datatype tx_state = TxMissing | TxPending | TxConfirmed | TxFailed

text \<open>The transport's answers in the order of the calls, \<open>None\<close> when the call throws.  A transport
  without \<^verbatim>\<open>confirmExisting\<close> answers \<open>False\<close> there.\<close>

record relay_transport =
  rt_inspect1 :: "PreparedObservationTransaction \<Rightarrow> ObservationRelayPayload \<Rightarrow> tx_state option"
  rt_existing1 :: "ObservationRelayPayload \<Rightarrow> bool option"
  rt_expired :: "PreparedObservationTransaction \<Rightarrow> bool option"
  rt_inspect2 :: "PreparedObservationTransaction \<Rightarrow> ObservationRelayPayload \<Rightarrow> tx_state option"
  rt_existing2 :: "ObservationRelayPayload \<Rightarrow> bool option"
  rt_eligible :: "ObservationRelayPayload \<Rightarrow> bool option"
  rt_prepare :: "ObservationRelayPayload \<Rightarrow> PreparedObservationTransaction option"
  rt_send :: "PreparedObservationTransaction \<Rightarrow> unit option"

definition set_job :: "string \<Rightarrow> (RelayJob \<Rightarrow> RelayJob) \<Rightarrow> RelayJob list \<Rightarrow> RelayJob list" where
  "set_job nullifier f jobs = map (\<lambda>j. if rj_nullifier j = nullifier then f j else j) jobs"

definition retry_job :: "int \<Rightarrow> RelayJob \<Rightarrow> RelayJob" where
  "retry_job now j = j\<lparr>rj_retry_at := now + 2000, rj_last_error := None\<rparr>"

definition fail_job :: "relay_error \<Rightarrow> RelayJob \<Rightarrow> RelayJob" where
  "fail_job code j = j\<lparr>rj_status := Failed, rj_last_error := Some code\<rparr>"

definition confirm_job :: "RelayJob \<Rightarrow> RelayJob" where
  "confirm_job j = j\<lparr>rj_status := Confirmed, rj_last_error := None\<rparr>"

definition confirm_existing_job :: "RelayJob \<Rightarrow> RelayJob" where
  "confirm_existing_job j = j\<lparr>rj_status := Confirmed, rj_signature := None, rj_last_error := None\<rparr>"

definition persist_job :: "PreparedObservationTransaction \<Rightarrow> RelayJob \<Rightarrow> RelayJob" where
  "persist_job t j = j\<lparr>rj_status := Submitted, rj_wire := Some (po_wire t), rj_signature := Some (po_signature t),
     rj_last_valid_height := Some (jint (po_lastValidBlockHeight t)), rj_generations := rj_generations j + 1\<rparr>"

definition backoff_job :: "nat \<Rightarrow> int \<Rightarrow> RelayJob \<Rightarrow> RelayJob" where
  "backoff_job attempts now j = j\<lparr>rj_attempts := rj_attempts j + 1,
     rj_retry_at := now + min 3600000 (1000 * 2 ^ min 12 (attempts + 1)), rj_last_error := Some Retryable_failure\<rparr>"

text \<open>\<^verbatim>\<open>job.wire && job.signature && job.last_valid_height !== null\<close>: empty texts do not count.\<close>

definition job_transaction :: "RelayJob \<Rightarrow> PreparedObservationTransaction option" where
  "job_transaction j =
     (case (rj_wire j, rj_signature j, rj_last_valid_height j) of
        (Some w, Some s, Some h) \<Rightarrow> if w \<noteq> [] \<and> s \<noteq> [] then
          Some \<lparr>po_wire = w, po_signature = s, po_lastValidBlockHeight = JInt h\<rparr> else None
      | _ \<Rightarrow> None)"

definition prepared_ok :: "PreparedObservationTransaction \<Rightarrow> bool" where
  "prepared_ok t = (po_wire t \<noteq> [] \<and> length (po_wire t) \<le> 2048 \<and> po_signature t \<noteq> [] \<and>
     int_in (po_lastValidBlockHeight t) 0 (2 ^ 53 - 1))"

type_synonym relay_outcome = "(PreparedObservationTransaction \<times> RelayJob list) option \<times> RelayJob list \<times> bool"

definition send_job :: "relay_transport \<Rightarrow> int \<Rightarrow> PreparedObservationTransaction \<Rightarrow> RelayJob \<Rightarrow> RelayJob list \<Rightarrow> relay_outcome" where
  "send_job tr now t job jobs =
     (case rt_send tr t of None \<Rightarrow> (Some (t, jobs), jobs, False)
      | Some _ \<Rightarrow> (Some (t, jobs), set_job (rj_nullifier job) (retry_job now) jobs, True))"

text \<open>From the eligibility check on, with the transaction that is still valid or none.\<close>

definition broadcast_job ::
  "relay_transport \<Rightarrow> int \<Rightarrow> PreparedObservationTransaction option \<Rightarrow> RelayJob \<Rightarrow> RelayJob list \<Rightarrow> relay_outcome" where
  "broadcast_job tr now transaction job jobs =
     (let update = (\<lambda>f. (None, set_job (rj_nullifier job) f jobs, True))
      in case rt_eligible tr (rj_payload job) of None \<Rightarrow> (None, jobs, False)
        | Some False \<Rightarrow> (if transaction \<noteq> None then update (retry_job now) else update (fail_job Policy_or_chain_changed))
        | Some True \<Rightarrow>
            (case transaction of Some t \<Rightarrow> send_job tr now t job jobs
             | None \<Rightarrow>
                 if rj_generations job \<ge> 8 then update (fail_job Replacement_limit)
                 else case rt_prepare tr (rj_payload job) of None \<Rightarrow> (None, jobs, False)
                   | Some t \<Rightarrow> if \<not> prepared_ok t then (None, jobs, False)
                       else send_job tr now t job (set_job (rj_nullifier job) (persist_job t) jobs)))"

definition submit_job ::
  "relay_transport \<Rightarrow> int \<Rightarrow> PreparedObservationTransaction option \<Rightarrow> RelayJob \<Rightarrow> RelayJob list \<Rightarrow> relay_outcome" where
  "submit_job tr now transaction job jobs =
     (if transaction \<noteq> None then broadcast_job tr now transaction job jobs
      else case rt_existing2 tr (rj_payload job) of None \<Rightarrow> (None, jobs, False)
        | Some True \<Rightarrow> (None, set_job (rj_nullifier job) confirm_existing_job jobs, True)
        | Some False \<Rightarrow> broadcast_job tr now None job jobs)"

definition reconcile_job ::
  "relay_transport \<Rightarrow> int \<Rightarrow> PreparedObservationTransaction \<Rightarrow> RelayJob \<Rightarrow> RelayJob list \<Rightarrow> relay_outcome" where
  "reconcile_job tr now t job jobs =
     (let update = (\<lambda>f. (None, set_job (rj_nullifier job) f jobs, True)); payload = rj_payload job
      in case rt_inspect1 tr t payload of None \<Rightarrow> (None, jobs, False)
        | Some TxConfirmed \<Rightarrow> update confirm_job
        | Some state \<Rightarrow>
            (case rt_existing1 tr payload of None \<Rightarrow> (None, jobs, False)
             | Some True \<Rightarrow> update confirm_existing_job
             | Some False \<Rightarrow>
                 if state = TxFailed then update (fail_job Transaction_failed)
                 else if state = TxPending then update (retry_job now)
                 else case rt_expired tr t of None \<Rightarrow> (None, jobs, False)
                   | Some False \<Rightarrow> submit_job tr now (Some t) job jobs
                   | Some True \<Rightarrow>
                       (case rt_inspect2 tr t payload of None \<Rightarrow> (None, jobs, False)
                        | Some TxConfirmed \<Rightarrow> update confirm_job
                        | Some TxFailed \<Rightarrow> update (fail_job Transaction_failed)
                        | Some TxPending \<Rightarrow> update (retry_job now)
                        | Some TxMissing \<Rightarrow> submit_job tr now None job jobs)))"

definition authorized_job :: "chain \<Rightarrow> ed25519 \<Rightarrow> (string \<times> string) option \<Rightarrow> RelayJob \<Rightarrow> bool" where
  "authorized_job ch ed target job =
     (let p = rj_payload job
      in au_nullifier (rp_auth p) = rj_nullifier job \<and> au_transcriptHash (rp_auth p) = rj_transcript_hash job \<and>
         map_option snd target = Some (rp_verifier p) \<and> validPayload ch ed p)"

definition process_job ::
  "chain \<Rightarrow> ed25519 \<Rightarrow> (string \<times> string) option \<Rightarrow> relay_transport \<Rightarrow> int \<Rightarrow> RelayJob \<Rightarrow> RelayJob list \<Rightarrow> relay_outcome" where
  "process_job ch ed target tr now job jobs =
     (if \<not> authorized_job ch ed target job
      then (None, set_job (rj_nullifier job) (fail_job Invalid_authorization) jobs, True)
      else case job_transaction job of
        Some t \<Rightarrow> reconcile_job tr now t job jobs
      | None \<Rightarrow> submit_job tr now None job jobs)"

definition run_job ::
  "chain \<Rightarrow> ed25519 \<Rightarrow> (string \<times> string) option \<Rightarrow> relay_transport \<times> int \<Rightarrow> RelayJob \<Rightarrow> RelayJob list \<Rightarrow>
     (PreparedObservationTransaction \<times> RelayJob list) option \<times> RelayJob list" where
  "run_job ch ed target env job jobs =
     (case process_job ch ed target (fst env) (snd env) job jobs of
        (sent, jobs', True) \<Rightarrow> (sent, jobs')
      | (sent, jobs', False) \<Rightarrow> (sent, set_job (rj_nullifier job) (backoff_job (rj_attempts job) (snd env)) jobs'))"

definition due_jobs :: "int \<Rightarrow> RelayJob list \<Rightarrow> RelayJob list" where
  "due_jobs now jobs = take 16 (filter (\<lambda>j. rj_status j \<in> {Queued, Submitted} \<and> rj_retry_at j \<le> now) jobs)"

fun run_jobs ::
  "chain \<Rightarrow> ed25519 \<Rightarrow> (string \<times> string) option \<Rightarrow> (nat \<Rightarrow> relay_transport \<times> int) \<Rightarrow> RelayJob list \<Rightarrow> RelayJob list \<Rightarrow> RelayJob list" where
  "run_jobs ch ed target env [] jobs = jobs"
| "run_jobs ch ed target env (job # due) jobs =
     run_jobs ch ed target (env \<circ> Suc) due (snd (run_job ch ed target (env 0) job jobs))"

definition relay_tick ::
  "chain \<Rightarrow> ed25519 \<Rightarrow> int \<Rightarrow> (nat \<Rightarrow> relay_transport \<times> int) \<Rightarrow> relay_db \<Rightarrow> relay_db" where
  "relay_tick ch ed now env db =
     db\<lparr>rb_jobs := run_jobs ch ed (rb_target db) env (due_jobs now (rb_jobs db)) (rb_jobs db)\<rparr>"

section \<open>Updates by nullifier\<close>

lemma set_job_append:
  "rj_nullifier j \<noteq> n \<Longrightarrow> set_job n f (jobs @ [j]) = set_job n f jobs @ [j]"
  by (simp add: set_job_def)

lemma set_job_id [simp]: "set_job n (\<lambda>j. j) jobs = jobs"
  by (simp add: set_job_def map_idI)

lemma set_job_twice:
  "(\<And>j. rj_nullifier (f j) = rj_nullifier j) \<Longrightarrow> set_job n g (set_job n f jobs) = set_job n (g \<circ> f) jobs"
  by (simp add: set_job_def)

lemma keeps_nullifier [simp]:
  "rj_nullifier (retry_job now j) = rj_nullifier j" "rj_nullifier (fail_job c j) = rj_nullifier j"
  "rj_nullifier (confirm_job j) = rj_nullifier j" "rj_nullifier (confirm_existing_job j) = rj_nullifier j"
  "rj_nullifier (persist_job t j) = rj_nullifier j" "rj_nullifier (backoff_job a now j) = rj_nullifier j"
  "rj_transcript_hash (retry_job now j) = rj_transcript_hash j" "rj_transcript_hash (fail_job c j) = rj_transcript_hash j"
  "rj_transcript_hash (confirm_job j) = rj_transcript_hash j" "rj_transcript_hash (confirm_existing_job j) = rj_transcript_hash j"
  "rj_transcript_hash (persist_job t j) = rj_transcript_hash j" "rj_transcript_hash (backoff_job a now j) = rj_transcript_hash j"
  by (simp_all add: retry_job_def fail_job_def confirm_job_def confirm_existing_job_def persist_job_def backoff_job_def)

section \<open>The effect of processing a job\<close>

text \<open>Every outcome is one of three: an update without a submission, a new submission of the stored
  transaction, or the submission of a transaction just persisted.\<close>

definition quiet_updates :: "int \<Rightarrow> (RelayJob \<Rightarrow> RelayJob) set" where
  "quiet_updates now = {\<lambda>j. j, retry_job now, confirm_job, confirm_existing_job} \<union> range fail_job"

definition replaceable :: "relay_transport \<Rightarrow> RelayJob \<Rightarrow> bool" where
  "replaceable tr job = (\<forall>q. job_transaction job = Some q \<longrightarrow> rt_inspect1 tr q (rj_payload job) = Some TxMissing \<and>
     rt_expired tr q = Some True \<and> rt_inspect2 tr q (rj_payload job) = Some TxMissing)"

definition quiet_effect where
  "quiet_effect now job jobs res = (fst res = None \<and>
     (\<exists>f\<in>quiet_updates now. fst (snd res) = set_job (rj_nullifier job) f jobs))"

definition resend_effect where
  "resend_effect tr now job jobs res = (\<exists>t. rt_eligible tr (rj_payload job) = Some True \<and> job_transaction job = Some t \<and>
     fst res = Some (t, jobs) \<and> (\<exists>f\<in>{\<lambda>j. j, retry_job now}. fst (snd res) = set_job (rj_nullifier job) f jobs))"

definition replace_effect where
  "replace_effect tr now job jobs res = (\<exists>t. rt_eligible tr (rj_payload job) = Some True \<and> rj_generations job < 8 \<and>
     prepared_ok t \<and> replaceable tr job \<and> fst res = Some (t, set_job (rj_nullifier job) (persist_job t) jobs) \<and>
     (\<exists>f\<in>{\<lambda>j. j, retry_job now}. fst (snd res) = set_job (rj_nullifier job) (f \<circ> persist_job t) jobs))"

definition relay_effect where
  "relay_effect tr now job jobs res = (quiet_effect now job jobs res \<or> resend_effect tr now job jobs res \<or>
     replace_effect tr now job jobs res)"

lemma quiet_intros [simp]:
  "quiet_effect now job jobs (None, jobs, ok)"
  "quiet_effect now job jobs (None, set_job (rj_nullifier job) (retry_job now) jobs, ok)"
  "quiet_effect now job jobs (None, set_job (rj_nullifier job) confirm_job jobs, ok)"
  "quiet_effect now job jobs (None, set_job (rj_nullifier job) confirm_existing_job jobs, ok)"
  "quiet_effect now job jobs (None, set_job (rj_nullifier job) (fail_job c) jobs, ok)"
  by (auto simp: quiet_effect_def quiet_updates_def intro: bexI [of _ "\<lambda>j. j"])

lemma broadcast_resend:
  "job_transaction job = Some t \<Longrightarrow> relay_effect tr now job jobs (broadcast_job tr now (Some t) job jobs)"
  by (auto simp: broadcast_job_def send_job_def relay_effect_def resend_effect_def split: option.splits bool.splits
      intro: bexI [of _ "\<lambda>j. j"])

lemma broadcast_replace:
  assumes "replaceable tr job"
  shows "relay_effect tr now job jobs (broadcast_job tr now None job jobs)"
proof -
  have send: "replace_effect tr now job jobs (send_job tr now t job (set_job (rj_nullifier job) (persist_job t) jobs))"
    if "rt_eligible tr (rj_payload job) = Some True" "rj_generations job < 8" "prepared_ok t" for t
    using that assms by (auto simp: replace_effect_def send_job_def set_job_twice comp_def split: option.splits
        intro: bexI [of _ "\<lambda>j. j"])
  show ?thesis by (auto simp: broadcast_job_def relay_effect_def send split: option.splits bool.splits)
qed

lemma submit_effect:
  "job_transaction job = Some t \<Longrightarrow> relay_effect tr now job jobs (submit_job tr now (Some t) job jobs)"
  "replaceable tr job \<Longrightarrow> relay_effect tr now job jobs (submit_job tr now None job jobs)"
  by (auto simp: submit_job_def broadcast_resend broadcast_replace split: option.splits bool.splits)
    (auto simp: relay_effect_def)

lemma reconcile_effect:
  assumes "job_transaction job = Some t"
  shows "relay_effect tr now job jobs (reconcile_job tr now t job jobs)"
proof -
  have quiet: "quiet_effect now job jobs res \<Longrightarrow> relay_effect tr now job jobs res" for res by (simp add: relay_effect_def)
  have "replaceable tr job" if "rt_inspect1 tr t (rj_payload job) = Some TxMissing" "rt_expired tr t = Some True"
    "rt_inspect2 tr t (rj_payload job) = Some TxMissing"
    using that assms by (auto simp: replaceable_def)
  then show ?thesis using submit_effect assms
    by (auto simp: reconcile_job_def Let_def quiet split: option.split bool.split tx_state.split)
qed

lemma process_effect: "relay_effect tr now job jobs (process_job ch ed target tr now job jobs)"
  by (auto simp: process_job_def reconcile_effect submit_effect replaceable_def split: option.splits)
    (auto simp: relay_effect_def)

lemma process_sent_authorized:
  "fst (process_job ch ed target tr now job jobs) \<noteq> None \<Longrightarrow> authorized_job ch ed target job"
  by (auto simp: process_job_def split: if_splits)

section \<open>Invariant\<close>

text \<open>A queued job has no transaction, a submitted one has a usable one; at most eight transactions are
  ever prepared for a job.\<close>

definition job_ok :: "RelayJob \<Rightarrow> bool" where
  "job_ok j = (rj_generations j \<le> 8 \<and> (case rj_status j of
     Queued \<Rightarrow> rj_wire j = None \<and> rj_signature j = None \<and> rj_last_valid_height j = None \<and> rj_generations j = 0
   | Submitted \<Rightarrow> job_transaction j \<noteq> None \<and> rj_generations j > 0
   | _ \<Rightarrow> True))"

definition jobs_inv :: "RelayJob list \<Rightarrow> bool" where
  "jobs_inv jobs = (distinct (map rj_nullifier jobs) \<and> distinct (map rj_transcript_hash jobs) \<and> (\<forall>j\<in>set jobs. job_ok j))"

definition live :: "RelayJob \<Rightarrow> bool" where
  "live j = (rj_status j \<in> {Queued, Submitted})"

definition row_update :: "(RelayJob \<Rightarrow> RelayJob) \<Rightarrow> bool" where
  "row_update f = (\<forall>j. rj_nullifier (f j) = rj_nullifier j \<and> rj_transcript_hash (f j) = rj_transcript_hash j)"

lemma row_updates [simp]:
  "row_update (\<lambda>j. j)" "row_update (retry_job now)" "row_update (fail_job c)" "row_update confirm_job"
  "row_update confirm_existing_job" "row_update (persist_job t)" "row_update (backoff_job a now)"
  by (simp_all add: row_update_def)

lemma row_update_comp [intro]: "row_update f \<Longrightarrow> row_update g \<Longrightarrow> row_update (f \<circ> g)"
  by (simp add: row_update_def)

lemma in_set_job:
  assumes "distinct (map rj_nullifier jobs)" and "job \<in> set jobs" and "j \<in> set (set_job (rj_nullifier job) f jobs)"
  shows "j = f job \<or> j \<in> set jobs \<and> rj_nullifier j \<noteq> rj_nullifier job"
  using assms by (auto simp: set_job_def distinct_map dest: inj_onD)

lemma set_job_other: "j \<in> set jobs \<Longrightarrow> rj_nullifier j \<noteq> n \<Longrightarrow> j \<in> set (set_job n f jobs)"
  by (force simp: set_job_def)

lemma jobs_inv_set_job:
  assumes "jobs_inv jobs" and "job \<in> set jobs" and "row_update f" and "job_ok (f job)"
  shows "jobs_inv (set_job (rj_nullifier job) f jobs)"
proof -
  have "map rj_nullifier (set_job n f jobs) = map rj_nullifier jobs"
    "map rj_transcript_hash (set_job n f jobs) = map rj_transcript_hash jobs" for n
    using assms(3) by (simp_all add: set_job_def row_update_def)
  moreover have "\<forall>j\<in>set (set_job (rj_nullifier job) f jobs). job_ok j"
    using in_set_job [of jobs job] assms by (auto simp: jobs_inv_def)
  ultimately show ?thesis using assms(1) by (simp add: jobs_inv_def)
qed

lemma job_ok_retry [simp]: "job_ok (retry_job now j) = job_ok j" "job_ok (backoff_job a now j) = job_ok j"
  by (auto simp: job_ok_def retry_job_def backoff_job_def job_transaction_def split: relay_status.splits)

lemma job_ok_terminal [simp]:
  "job_ok j \<Longrightarrow> job_ok (fail_job c j)" "job_ok j \<Longrightarrow> job_ok (confirm_job j)" "job_ok j \<Longrightarrow> job_ok (confirm_existing_job j)"
  by (simp_all add: job_ok_def fail_job_def confirm_job_def confirm_existing_job_def)

lemma job_transaction_persist:
  "prepared_ok t \<Longrightarrow> job_transaction (persist_job t j) =
     Some \<lparr>po_wire = po_wire t, po_signature = po_signature t, po_lastValidBlockHeight = JInt (jint (po_lastValidBlockHeight t))\<rparr>"
  by (simp add: job_transaction_def persist_job_def prepared_ok_def)

lemma prepared_height: "prepared_ok t \<Longrightarrow> JInt (jint (po_lastValidBlockHeight t)) = po_lastValidBlockHeight t"
  by (cases "po_lastValidBlockHeight t") (simp_all add: prepared_ok_def)

lemma job_transaction_persisted: "prepared_ok t \<Longrightarrow> job_transaction (persist_job t j) = Some t"
  by (simp add: job_transaction_persist prepared_height)

lemma job_ok_persist: "prepared_ok t \<Longrightarrow> rj_generations j < 8 \<Longrightarrow> job_ok (persist_job t j)"
  using job_transaction_persisted [of t j] by (simp add: job_ok_def) (simp add: persist_job_def)

text \<open>What one job's turn does to the table, and what it submits.\<close>

definition job_sent_ok :: "relay_transport \<Rightarrow> RelayJob \<Rightarrow> PreparedObservationTransaction \<times> RelayJob list \<Rightarrow> bool" where
  "job_sent_ok tr job s = (jobs_inv (snd s) \<and> rt_eligible tr (rj_payload job) = Some True \<and>
     (\<exists>j\<in>set (snd s). rj_nullifier j = rj_nullifier job \<and> job_transaction j = Some (fst s)) \<and>
     (\<forall>q. job_transaction job = Some q \<longrightarrow> q = fst s \<or> replaceable tr job))"

lemma process_row:
  assumes inv: "jobs_inv jobs" and job: "job \<in> set jobs"
    and p: "process_job ch ed target tr now job jobs = (sent, jobs', ok)"
  shows "\<exists>f. row_update f \<and> job_ok (f job) \<and> jobs' = set_job (rj_nullifier job) f jobs \<and>
    (\<forall>s. sent = Some s \<longrightarrow> job_sent_ok tr job s)"
proof -
  have ok: "job_ok job" using inv job by (simp add: jobs_inv_def)
  from process_effect [of tr now job jobs ch ed target] consider
      (quiet) "quiet_effect now job jobs (sent, jobs', ok)" | (resend) "resend_effect tr now job jobs (sent, jobs', ok)"
    | (replace) "replace_effect tr now job jobs (sent, jobs', ok)" unfolding p relay_effect_def by blast
  then show ?thesis
  proof cases
    case quiet
    then obtain f where "f \<in> quiet_updates now" "sent = None" "jobs' = set_job (rj_nullifier job) f jobs"
      by (auto simp: quiet_effect_def)
    then show ?thesis using ok by (intro exI [of _ f]) (auto simp: quiet_updates_def)
  next
    case resend
    then obtain t f where r: "rt_eligible tr (rj_payload job) = Some True" "job_transaction job = Some t" "sent = Some (t, jobs)"
      "f \<in> {\<lambda>j. j, retry_job now}" "jobs' = set_job (rj_nullifier job) f jobs" unfolding resend_effect_def fst_conv snd_conv by blast
    then have "job_sent_ok tr job (t, jobs)" using inv job by (auto simp: job_sent_ok_def)
    with r ok show ?thesis by (intro exI [of _ f]) auto
  next
    case replace
    then obtain t f where r: "rt_eligible tr (rj_payload job) = Some True" "rj_generations job < 8" "prepared_ok t"
      "replaceable tr job" "sent = Some (t, set_job (rj_nullifier job) (persist_job t) jobs)"
      "f \<in> {\<lambda>j. j, retry_job now}" "jobs' = set_job (rj_nullifier job) (f \<circ> persist_job t) jobs"
      unfolding replace_effect_def fst_conv snd_conv by blast
    have ok': "job_ok (persist_job t job)" using r by (simp add: job_ok_persist)
    have "persist_job t job \<in> set (set_job (rj_nullifier job) (persist_job t) jobs)" using job by (auto simp: set_job_def)
    then have "job_sent_ok tr job (t, set_job (rj_nullifier job) (persist_job t) jobs)"
      using r jobs_inv_set_job [OF inv job, of "persist_job t"] ok' by (auto simp: job_sent_ok_def job_transaction_persisted
          intro!: bexI [of _ "persist_job t job"])
    with r ok' show ?thesis by (intro exI [of _ "f \<circ> persist_job t"]) auto
  qed
qed

lemma run_job_row:
  assumes inv: "jobs_inv jobs" and job: "job \<in> set jobs" and r: "run_job ch ed target env job jobs = (sent, jobs')"
  shows "jobs_inv jobs' \<and> (\<exists>f. row_update f \<and> jobs' = set_job (rj_nullifier job) f jobs) \<and>
    (\<forall>s. sent = Some s \<longrightarrow> job_sent_ok (fst env) job s \<and> authorized_job ch ed target job)"
proof -
  obtain mid ok where p: "process_job ch ed target (fst env) (snd env) job jobs = (sent, mid, ok)"
    and j: "jobs' = (if ok then mid else set_job (rj_nullifier job) (backoff_job (rj_attempts job) (snd env)) mid)"
    using r by (auto simp: run_job_def split: prod.splits bool.splits)
  from process_row [OF inv job p] obtain f where f: "row_update f" "job_ok (f job)" "mid = set_job (rj_nullifier job) f jobs"
    "\<forall>s. sent = Some s \<longrightarrow> job_sent_ok (fst env) job s" by blast
  let ?g = "if ok then f else backoff_job (rj_attempts job) (snd env) \<circ> f"
  have "jobs' = set_job (rj_nullifier job) ?g jobs" using j f(1,3) by (auto simp: set_job_twice row_update_def)
  moreover have "row_update ?g" "job_ok (?g job)" using f by auto
  moreover have "sent \<noteq> None \<Longrightarrow> authorized_job ch ed target job"
    using process_sent_authorized [of ch ed target "fst env" "snd env" job jobs] p by simp
  ultimately show ?thesis using jobs_inv_set_job [OF inv job] f(4) by auto
qed

section \<open>Runs\<close>

text \<open>The queue grows by validated observations; a live job takes its turn; a crash while its transaction
  is being submitted leaves the table the submission saw.\<close>

inductive relay_step :: "chain \<Rightarrow> ed25519 \<Rightarrow> relay_db \<Rightarrow> relay_db \<Rightarrow> bool" for ch ed where
  queue_step: "queueValidatedObservation ch ed True receipts p capacity (rb_jobs db) = Some jobs \<Longrightarrow>
    relay_step ch ed db (db\<lparr>rb_jobs := jobs\<rparr>)"
| turn_step: "job \<in> set (rb_jobs db) \<Longrightarrow> live job \<Longrightarrow> run_job ch ed (rb_target db) env job (rb_jobs db) = (sent, jobs) \<Longrightarrow>
    relay_step ch ed db (db\<lparr>rb_jobs := jobs\<rparr>)"
| turn_crash: "job \<in> set (rb_jobs db) \<Longrightarrow> live job \<Longrightarrow> run_job ch ed (rb_target db) env job (rb_jobs db) = (Some (t, at), jobs) \<Longrightarrow>
    relay_step ch ed db (db\<lparr>rb_jobs := at\<rparr>)"

inductive relay_run :: "chain \<Rightarrow> ed25519 \<Rightarrow> relay_db \<Rightarrow> relay_db \<Rightarrow> bool" for ch ed db0 where
  relay_start: "relay_run ch ed db0 db0"
| relay_next: "relay_run ch ed db0 db \<Longrightarrow> relay_step ch ed db db' \<Longrightarrow> relay_run ch ed db0 db'"

lemma relay_run_trans: "relay_run ch ed b c \<Longrightarrow> relay_run ch ed a b \<Longrightarrow> relay_run ch ed a c"
  by (induction rule: relay_run.induct) (auto intro: relay_next)

lemma queue_inv:
  assumes "queueValidatedObservation ch ed tx receipts p capacity jobs = Some jobs'" and "jobs_inv jobs"
  shows "jobs_inv jobs' \<and> set jobs \<subseteq> set jobs'"
  using assms by (auto simp: queueValidatedObservation_def Let_def jobs_inv_def job_ok_def split: if_splits)

text \<open>A finished job is never touched again, a job never disappears.\<close>

definition finished_kept :: "RelayJob list \<Rightarrow> RelayJob list \<Rightarrow> bool" where
  "finished_kept jobs jobs' = (\<forall>j\<in>set jobs. (\<not> live j \<longrightarrow> j \<in> set jobs') \<and> (\<exists>j'\<in>set jobs'. rj_nullifier j' = rj_nullifier j))"

lemma finished_kept_set_job:
  assumes "jobs_inv jobs" and "job \<in> set jobs" and "live job" and "row_update f"
  shows "finished_kept jobs (set_job (rj_nullifier job) f jobs)"
proof -
  have "\<not> live j \<Longrightarrow> j \<in> set jobs \<Longrightarrow> rj_nullifier j \<noteq> rj_nullifier job" for j
    using assms(1-3) by (auto simp: jobs_inv_def distinct_map dest: inj_onD)
  then have "\<not> live j \<Longrightarrow> j \<in> set jobs \<Longrightarrow> j \<in> set (set_job (rj_nullifier job) f jobs)" for j
    using set_job_other by blast
  moreover have "map rj_nullifier (set_job n f jobs) = map rj_nullifier jobs" for n
    using assms(4) by (simp add: set_job_def row_update_def)
  then have "rj_nullifier ` set (set_job n f jobs) = rj_nullifier ` set jobs" for n by (metis list.set_map)
  then have "j \<in> set jobs \<Longrightarrow> \<exists>j'\<in>set (set_job n f jobs). rj_nullifier j' = rj_nullifier j" for j n
    by (metis image_iff)
  ultimately show ?thesis by (simp add: finished_kept_def)
qed

lemma job_sent_row:
  assumes "jobs_inv jobs" and "job \<in> set jobs" and "run_job ch ed target env job jobs = (Some (t, at), jobs')"
  shows "\<exists>f. row_update f \<and> at = set_job (rj_nullifier job) f jobs"
proof -
  obtain mid ok where p: "process_job ch ed target (fst env) (snd env) job jobs = (Some (t, at), mid, ok)"
    using assms(3) by (auto simp: run_job_def split: prod.splits bool.splits)
  from process_effect [of "fst env" "snd env" job jobs ch ed target]
  have "at = jobs \<or> at = set_job (rj_nullifier job) (persist_job t) jobs" unfolding p
    by (auto simp: relay_effect_def quiet_effect_def resend_effect_def replace_effect_def)
  then show ?thesis by (metis row_updates(1,6) set_job_id)
qed

lemma relay_step_inv:
  "relay_step ch ed db db' \<Longrightarrow> jobs_inv (rb_jobs db) \<Longrightarrow>
     jobs_inv (rb_jobs db') \<and> finished_kept (rb_jobs db) (rb_jobs db') \<and> rb_target db' = rb_target db"
proof (induction rule: relay_step.induct)
  case (queue_step receipts p capacity db jobs)
  then show ?case using queue_inv by (fastforce simp: finished_kept_def)
next
  case (turn_step job db env sent jobs)
  with run_job_row [OF turn_step(4,1,3)] show ?case using finished_kept_set_job by auto
next
  case (turn_crash job db env t at jobs)
  with run_job_row [OF turn_crash(4,1,3)] job_sent_row [OF turn_crash(4,1,3)] show ?case
    using finished_kept_set_job by (auto simp: job_sent_ok_def)
qed

lemma finished_kept_trans: "finished_kept a b \<Longrightarrow> finished_kept b c \<Longrightarrow> finished_kept a c"
  unfolding finished_kept_def by metis

lemma relay_run_inv:
  "relay_run ch ed db0 db \<Longrightarrow> jobs_inv (rb_jobs db0) \<Longrightarrow>
     jobs_inv (rb_jobs db) \<and> finished_kept (rb_jobs db0) (rb_jobs db) \<and> rb_target db = rb_target db0"
proof (induction rule: relay_run.induct)
  case relay_start
  then show ?case by (auto simp: finished_kept_def)
next
  case (relay_next db db')
  then show ?case using relay_step_inv [OF relay_next(2)] finished_kept_trans by auto
qed

text \<open>A tick is a sequence of such turns: when a job's turn comes, the table still holds the row read at
  the start of the tick.\<close>

lemma run_jobs_steps:
  assumes "jobs_inv (rb_jobs db)" and "set due \<subseteq> set (rb_jobs db)" and "\<forall>j\<in>set due. live j" and "distinct (map rj_nullifier due)"
  shows "relay_run ch ed db (db\<lparr>rb_jobs := run_jobs ch ed (rb_target db) env due (rb_jobs db)\<rparr>)"
  using assms
proof (induction due arbitrary: db env)
  case Nil
  then show ?case by (simp add: relay_start)
next
  case (Cons job due)
  obtain sent jobs where r: "run_job ch ed (rb_target db) (env 0) job (rb_jobs db) = (sent, jobs)" by fastforce
  let ?db = "db\<lparr>rb_jobs := jobs\<rparr>"
  have job: "job \<in> set (rb_jobs db)" "live job" using Cons.prems by auto
  from run_job_row [OF Cons.prems(1) job(1) r] obtain f where f: "jobs_inv jobs" "jobs = set_job (rj_nullifier job) f (rb_jobs db)" by blast
  have "j \<in> set jobs" if "j \<in> set due" for j
  proof -
    have "rj_nullifier j \<noteq> rj_nullifier job" using Cons.prems(4) imageI [OF that, of rj_nullifier] by auto
    moreover have "j \<in> set (rb_jobs db)" using Cons.prems(2) that by auto
    ultimately show ?thesis unfolding f(2) by (intro set_job_other)
  qed
  then have "set due \<subseteq> set jobs" by blast
  with Cons.IH [of ?db "env \<circ> Suc"] Cons.prems f(1)
  have "relay_run ch ed ?db (?db\<lparr>rb_jobs := run_jobs ch ed (rb_target db) (env \<circ> Suc) due jobs\<rparr>)" by (simp add: comp_def)
  moreover have "relay_run ch ed db ?db" using turn_step [OF job r] by (blast intro: relay_start relay_next)
  ultimately have "relay_run ch ed db (?db\<lparr>rb_jobs := run_jobs ch ed (rb_target db) (env \<circ> Suc) due jobs\<rparr>)"
    by (rule relay_run_trans)
  then show ?case by (simp add: r)
qed

lemma due_jobs_live:
  assumes "jobs_inv jobs"
  shows "set (due_jobs now jobs) \<subseteq> set jobs \<and> (\<forall>j\<in>set (due_jobs now jobs). live j) \<and> distinct (map rj_nullifier (due_jobs now jobs))
    \<and> length (due_jobs now jobs) \<le> 16"
proof -
  have "distinct (map rj_nullifier (filter P jobs))" for P using assms by (simp add: jobs_inv_def distinct_map_filter)
  then have "distinct (map rj_nullifier (due_jobs now jobs))"
    unfolding due_jobs_def take_map [symmetric] by (rule distinct_take)
  then show ?thesis by (auto simp: due_jobs_def live_def dest!: in_set_takeD)
qed

section \<open>Properties\<close>

definition fresh_relay_db :: relay_db where
  "fresh_relay_db = \<lparr>rb_target = None, rb_transport = None, rb_owner = None, rb_jobs = []\<rparr>"

lemma openRelayer_fresh:
  "openRelayer policyTarget verifier transportTarget dead pid token fresh_relay_db = (db, True) \<Longrightarrow>
     rb_jobs db = [] \<and> rb_target db = Some (policyTarget, verifier)"
  by (auto simp: openRelayer_def initializeObservationRelay_def fresh_relay_db_def split: if_splits)


text \<open>C7. The relay submits a transaction only for a job whose payload matches the job, is signed by the
  configured verifier and was found eligible in the same turn; the submitted transaction is at that moment
  the one persisted for the job, and it differs from the one persisted before only if that one was missing,
  then expired, then missing again.\<close>

theorem relay_submissions_safe:
  assumes "openRelayer policyTarget verifier transportTarget dead pid token fresh_relay_db = (db0, True)"
    and "relay_run ch ed db0 db" and "job \<in> set (rb_jobs db)"
    and "run_job ch ed (rb_target db) (tr, now) job (rb_jobs db) = (Some (t, at), jobs)"
  shows "rp_verifier (rj_payload job) = verifier \<and> validPayload ch ed (rj_payload job) \<and>
    au_nullifier (rp_auth (rj_payload job)) = rj_nullifier job \<and>
    rt_eligible tr (rj_payload job) = Some True \<and>
    (\<exists>j\<in>set at. rj_nullifier j = rj_nullifier job \<and> job_transaction j = Some t) \<and>
    (\<forall>q. job_transaction job = Some q \<longrightarrow> q = t \<or> rt_inspect1 tr q (rj_payload job) = Some TxMissing \<and>
       rt_expired tr q = Some True \<and> rt_inspect2 tr q (rj_payload job) = Some TxMissing)"
proof -
  have inv: "jobs_inv (rb_jobs db)" and target: "rb_target db = Some (policyTarget, verifier)"
    using relay_run_inv [OF assms(2)] openRelayer_fresh [OF assms(1)] by (simp_all add: jobs_inv_def)
  from run_job_row [OF inv assms(3,4)] have "job_sent_ok tr job (t, at)" "authorized_job ch ed (rb_target db) job" by auto
  then show ?thesis by (auto simp: job_sent_ok_def authorized_job_def replaceable_def target Let_def)
qed

section \<open>A concrete job\<close>

definition accept_all :: ed25519 where
  "accept_all = \<lparr>ed_public = (\<lambda>s. s), ed_sign = (\<lambda>s m. zeros 64), ed_verify = (\<lambda>k m s. True)\<rparr>"

definition sample_payload :: ObservationRelayPayload where
  "sample_payload = \<lparr>
     rp_auth = sample_authorization (Some (hex_of_bytes (zeros 32))),
     rp_protocolID = hex_of_bytes (zeros 32), rp_deviceID = hex_of_bytes (zeros 32), rp_epoch = JInt 0,
     rp_proofBytes = hex_of_bytes (zeros 479 @ [2]), rp_verifier = ch_toBase58 sample_chain (zeros 32),
     rp_verifierSignature = hex_of_bytes (zeros 64)\<rparr>"

definition sample_job :: RelayJob where
  "sample_job = \<lparr>rj_nullifier = hex_of_bytes (zeros 32), rj_transcript_hash = hex_of_bytes (replicate 32 9),
     rj_payload = sample_payload, rj_status = Queued, rj_wire = None, rj_signature = None, rj_last_valid_height = None,
     rj_attempts = 0, rj_generations = 0, rj_retry_at = 0, rj_last_error = None\<rparr>"

definition sample_relay_transport :: relay_transport where
  "sample_relay_transport = \<lparr>rt_inspect1 = (\<lambda>_ _. Some TxMissing), rt_existing1 = (\<lambda>_. Some False), rt_expired = (\<lambda>_. Some False),
     rt_inspect2 = (\<lambda>_ _. Some TxMissing), rt_existing2 = (\<lambda>_. Some False), rt_eligible = (\<lambda>_. Some True),
     rt_prepare = (\<lambda>_. Some \<lparr>po_wire = ''w'', po_signature = ''s'', po_lastValidBlockHeight = JInt 9\<rparr>), rt_send = (\<lambda>_. Some ())\<rparr>"

lemma sample_payload_valid: "validPayload sample_chain accept_all sample_payload"
  by code_simp

definition sample_relay_db :: "RelayJob list \<Rightarrow> relay_db" where
  "sample_relay_db jobs = \<lparr>rb_target = Some (''p'', rp_verifier sample_payload), rb_transport = Some ''t'',
     rb_owner = Some (1, ''o''), rb_jobs = jobs\<rparr>"

lemma sample_relay_open:
  "openRelayer ''p'' (rp_verifier sample_payload) ''t'' (\<lambda>_. True) 1 ''o'' fresh_relay_db = (sample_relay_db [], True)"
  by (simp add: openRelayer_def initializeObservationRelay_def fresh_relay_db_def sample_relay_db_def)

lemma sample_relay_run: "relay_run sample_chain accept_all (sample_relay_db []) (sample_relay_db [sample_job])"
proof -
  have "queueValidatedObservation sample_chain accept_all True (\<lambda>_. Some (hex_of_bytes (zeros 32))) sample_payload 10
      (rb_jobs (sample_relay_db [])) = Some [sample_job]"
    using sample_payload_valid by (simp add: queueValidatedObservation_def sample_relay_db_def sample_job_def)
      (simp add: sample_payload_def sample_authorization_def)
  from relay_next [OF relay_start queue_step [OF this]] show ?thesis by (simp add: sample_relay_db_def)
qed

lemma sample_turn:
  "\<exists>at jobs. run_job sample_chain accept_all (rb_target (sample_relay_db [sample_job])) (sample_relay_transport, 0) sample_job
     (rb_jobs (sample_relay_db [sample_job])) = (Some (\<lparr>po_wire = ''w'', po_signature = ''s'', po_lastValidBlockHeight = JInt 9\<rparr>, at), jobs)"
proof -
  have "authorized_job sample_chain accept_all (rb_target (sample_relay_db [sample_job])) sample_job"
    using sample_payload_valid by (simp add: authorized_job_def sample_relay_db_def sample_job_def)
      (simp add: sample_payload_def sample_authorization_def)
  moreover have "job_transaction sample_job = None" by (simp add: job_transaction_def sample_job_def)
  moreover have "prepared_ok \<lparr>po_wire = ''w'', po_signature = ''s'', po_lastValidBlockHeight = JInt 9\<rparr>" by (simp add: prepared_ok_def)
  moreover have "rj_generations sample_job = 0" by (simp add: sample_job_def)
  ultimately show ?thesis
    by (simp add: run_job_def process_job_def submit_job_def broadcast_job_def send_job_def sample_relay_transport_def)
qed


theorem relay_submissions_safe_witness:
  "\<exists>at jobs t j. run_job sample_chain accept_all (rb_target (sample_relay_db [sample_job])) (sample_relay_transport, 0) sample_job
     (rb_jobs (sample_relay_db [sample_job])) = (Some (t, at), jobs) \<and> j \<in> set at \<and> job_transaction j = Some t"
proof -
  obtain at jobs t where t: "run_job sample_chain accept_all (rb_target (sample_relay_db [sample_job])) (sample_relay_transport, 0)
      sample_job (rb_jobs (sample_relay_db [sample_job])) = (Some (t, at), jobs)" using sample_turn by blast
  have "sample_job \<in> set (rb_jobs (sample_relay_db [sample_job]))" by (simp add: sample_relay_db_def)
  from relay_submissions_safe [OF sample_relay_open sample_relay_run this t] t show ?thesis by blast
qed

end
