(* ===== verification/Policy.thy ===== *)
theory Policy
  imports Inbox Enrollment Relay Payments
begin

text \<open>
  The observation policy of \<^verbatim>\<open>observation-policy.ts\<close> and the recorder of \<^verbatim>\<open>confidence-store.ts\<close> it
  calls.  The service shares its database file with the App Attest gate, the enrollment service and the
  relay, so that its state contains theirs.  A call of \<^verbatim>\<open>receive\<close> awaits twice, for the chain snapshot
  and for the proof; between the awaits anything may happen to the database.  The call is therefore three
  functions, one per stretch of code between awaits, and a step relation interleaves the stretches of many
  calls with each other and with everything else that shares the database.  SHA-256, Ed25519, Base58,
  Poseidon, the X.509 library and the encryption of confidence inputs are parameters; so are the answers of
  the chain source and of the proof verifier, and the clock.
\<close>

section \<open>State\<close>

datatype policy_error =
    PE_DEVICE_UNKNOWN | PE_DEV_SIG | PE_DEV_COUNTER | PE_RTT | PE_EPOCH | PE_ASSERTION | PE_ZK | PE_NULLIFIER | PE_RSSI
  | PE_dependency_unavailable | PE_capacity
  | PE_invalid_observation
  | PE_internal

record ValidationRow =
  vr_transcript_hash :: string
  vr_envelope_hash :: string
  vr_nullifier :: string
  vr_validated_at :: int

record ConfidenceRow =
  cf_transcript_hash :: string
  cf_target :: string
  cf_recipient :: string
  cf_sealed :: string

record policy_db =
  pd_gate :: gate_db
  pd_enroll :: enroll_db
  pd_target :: "string option"
  pd_validations :: "ValidationRow list"
  pd_counters :: "string \<rightharpoonup> int"
  pd_revocations :: "string \<rightharpoonup> int"
  pd_owners :: "string \<times> string \<rightharpoonup> string"
  pd_relay :: relay_db
  pd_confidence :: "ConfidenceRow list"

text \<open>The library calls of the service: \<open>lib_seal\<close> encrypts a confidence input (transcript and evidence)
  for a target and a hash.\<close>

record policy_lib =
  lib_x509 :: x509
  lib_chain :: chain
  lib_ed :: ed25519
  lib_poseidon :: "int list \<Rightarrow> int"
  lib_seal :: "string \<Rightarrow> string \<Rightarrow> string \<Rightarrow> string \<times> string option \<Rightarrow> string"

record policy_service =
  sp_attest :: AppAttestVerifier
  sp_target :: string
  sp_paymentScope :: "string option"
  sp_capacity :: int
  sp_relay :: "(ObservationSigner \<times> int) option"
  sp_recipient :: "string option"

text \<open>\<^verbatim>\<open>ConfidenceRecorder.initialize\<close> and \<^verbatim>\<open>record\<close>.\<close>

definition confidence_initialize :: "string \<Rightarrow> ConfidenceRow list \<Rightarrow> bool" where
  "confidence_initialize recipient rows = list_all (\<lambda>r. cf_recipient r = recipient) rows"

definition confidence_record ::
  "(string \<Rightarrow> string \<Rightarrow> string \<Rightarrow> string \<times> string option \<Rightarrow> string) \<Rightarrow> string \<Rightarrow> string \<Rightarrow> string \<Rightarrow> string \<times> string option \<Rightarrow>
     ConfidenceRow list \<Rightarrow> ConfidenceRow list option" where
  "confidence_record seal recipient target h input rows =
     (if h \<in> cf_transcript_hash ` set rows then None
      else Some (rows @ [\<lparr>cf_transcript_hash = h, cf_target = target, cf_recipient = recipient,
        cf_sealed = seal recipient target h input\<rparr>]))"

text \<open>The constructor, on a file whose enrollment and gate tables exist.  \<open>None\<close> is a construction that
  throws, with the database it leaves.\<close>

definition openPolicy ::
  "policy_lib \<Rightarrow> bool \<Rightarrow> AppAttestPolicy \<Rightarrow> string \<Rightarrow> string option \<Rightarrow> jsnum option \<Rightarrow> (ObservationSigner \<times> jsnum option) option \<Rightarrow>
     string option \<Rightarrow> policy_db \<Rightarrow> policy_db \<times> policy_service option" where
  "openPolicy lib production policy target scope capacity relay recipient db =
     (let capacity = (case capacity of None \<Rightarrow> JInt 100000 | Some c \<Rightarrow> c)
      in if target = [] \<or> \<not> int_in capacity 1 1000000 then (db, None)
         else case appAttestVerifier (lib_x509 lib) production policy of Inl _ \<Rightarrow> (db, None)
           | Inr attest \<Rightarrow>
               let relay = map_option (\<lambda>(s, c). (s, case c of None \<Rightarrow> capacity | Some n \<Rightarrow> n)) relay
               in if (case relay of None \<Rightarrow> False | Some (_, c) \<Rightarrow> \<not> int_in c 1 1000000) then (db, None)
                  else let stored = (case pd_target db of None \<Rightarrow> target | Some t \<Rightarrow> t); db = db\<lparr>pd_target := Some stored\<rparr>
                  in if stored \<noteq> target then (db, None)
                  else let (rdb, ok) = (case relay of None \<Rightarrow> (pd_relay db, True)
                         | Some (s, _) \<Rightarrow> initializeObservationRelay target (os_publicKey s) (pd_relay db));
                         db = db\<lparr>pd_relay := rdb\<rparr>
                       in if \<not> ok \<or> (case recipient of None \<Rightarrow> False | Some r \<Rightarrow> \<not> confidence_initialize r (pd_confidence db)) then (db, None)
                          else (db, Some \<lparr>sp_attest = attest, sp_target = target, sp_paymentScope = scope, sp_capacity = jint capacity,
                            sp_relay = map_option (\<lambda>(s, c). (s, jint c)) relay, sp_recipient = recipient\<rparr>))"

section \<open>Checks\<close>

definition deviceChallengeDigest :: "hash \<Rightarrow> ObservationTranscript \<Rightarrow> TranscriptChallenge \<Rightarrow> bytes" where
  "deviceChallengeDigest sha t c = sha (bytes_of_string ''Pathnod/challenge/v0'' @ tc_nonce c @ be_num 4 (jint (ot_epoch t)) @
     subarray 0 8 (ot_pseudonym t) @ be_num 8 (tc_deviceTimestamp c) @ be_num 4 (jint (tc_deviceCounter c)) @ ot_evidenceHash t)"

text \<open>Twice the median, so that the mean of two middle values stays an integer.\<close>

definition median_twice :: "int list \<Rightarrow> int" where
  "median_twice values =
     (let sorted = sort values; middle = length sorted div 2
      in if odd (length sorted) then 2 * sorted ! middle else sorted ! (middle - 1) + sorted ! middle)"

fun counters_increase :: "int \<Rightarrow> int list \<Rightarrow> bool" where
  "counters_increase previous [] = True"
| "counters_increase previous (c # cs) = (if c \<le> previous then False else counters_increase c cs)"

definition device_counter :: "string \<Rightarrow> policy_db \<Rightarrow> int" where
  "device_counter device db = (case pd_counters db device of None \<Rightarrow> -1 | Some c \<Rightarrow> c)"

definition checkCounters :: "ObservationTranscript \<Rightarrow> string \<Rightarrow> policy_db \<Rightarrow> bool" where
  "checkCounters t device db =
     counters_increase (device_counter device db) (map (jint \<circ> tc_deviceCounter) (ot_challenges t))"

definition checkTime :: "ObservationTranscript \<Rightarrow> jsnum \<Rightarrow> jsnum \<Rightarrow> policy_error + int" where
  "checkTime t epochSeconds now =
     (if \<not> int_in now 0 (2 ^ 53 - 1) \<or> \<not> int_in epochSeconds 1 0xffffffff then Inl PE_dependency_unavailable
      else if ot_observationTimeMilliseconds t < jint now - 600000 \<or> ot_observationTimeMilliseconds t > jint now + 600000 \<or>
         jint (ot_epoch t) \<noteq> ot_observationTimeMilliseconds t div (jint epochSeconds * 1000) then Inl PE_EPOCH
      else Inr (jint now))"

text \<open>\<^verbatim>\<open>#key\<close>: the key of an enrolled observer of class 1 that is not revoked.\<close>

definition policy_key :: "string \<Rightarrow> policy_db \<Rightarrow> VerifiedAppAttestKey option" where
  "policy_key keyID db =
     (if \<not> list_ex (\<lambda>e. er_key_id e = keyID \<and> er_observer_class e = 1) (en_enrollments (pd_enroll db)) \<or>
         pd_revocations db keyID \<noteq> None then None
      else case getKey keyID (pd_gate db) of Inr (Some k) \<Rightarrow> Some k | _ \<Rightarrow> None)"

definition previous :: "string \<Rightarrow> string \<Rightarrow> policy_db \<Rightarrow> policy_error + bool" where
  "previous h digest db =
     (case find (\<lambda>r. vr_transcript_hash r = h) (pd_validations db) of None \<Rightarrow> Inr False
      | Some r \<Rightarrow> if vr_envelope_hash r \<noteq> digest then Inl PE_NULLIFIER else Inr True)"

definition nullifier_used :: "string \<Rightarrow> policy_db \<Rightarrow> bool" where
  "nullifier_used n db = list_ex (\<lambda>r. vr_nullifier r = n) (pd_validations db)"

record policy_device =
  dv_key :: bytes
  dv_curve :: jsnum
  dv_capabilities :: int

record policy_snapshot =
  ss_device :: "policy_device option"
  ss_epochSeconds :: jsnum
  ss_minimumRSSI :: jsnum
  ss_roots :: "string list"
  ss_nullifierUsed :: bool
  ss_verifier :: "string option"
  ss_policyVersion :: "jsnum option"

definition revoke :: "string \<Rightarrow> int \<Rightarrow> policy_db \<Rightarrow> policy_db" where
  "revoke keyID now db =
     (if pd_revocations db keyID \<noteq> None then db else db\<lparr>pd_revocations := (pd_revocations db)(keyID \<mapsto> now)\<rparr>)"

section \<open>Receiving an observation\<close>

text \<open>What a call knows after parsing.\<close>

record receipt_context =
  rc_envelope :: ObservationEnvelope
  rc_hash :: string
  rc_match :: bool
  rc_digest :: string
  rc_transcript :: ObservationTranscript

text \<open>The end of a call is an error or the receipt, which carries the transcript hash.\<close>

datatype 'a progress = Done "policy_error + string" | Continue 'a

definition receive_start :: "policy_lib \<Rightarrow> jsval \<Rightarrow> policy_db \<Rightarrow> receipt_context progress" where
  "receive_start lib input db =
     (let sha = ch_sha256 (lib_chain lib)
      in case parseObservationEnvelope sha (lib_poseidon lib) input True of
        None \<Rightarrow> Done (Inl PE_invalid_observation)
      | Some (envelope, h, publicInputsMatch) \<Rightarrow>
          let digest = envelope_digest sha envelope
          in case previous h digest db of
            Inl e \<Rightarrow> Done (Inl e)
          | Inr True \<Rightarrow> Done (Inr h)
          | Inr False \<Rightarrow>
              (case decodeObservationTranscript (b64_dec (oe_transcript envelope)) (JInt 0) of
                 None \<Rightarrow> Done (Inl PE_internal)
               | Some t \<Rightarrow> Continue \<lparr>rc_envelope = envelope, rc_hash = h, rc_match = publicInputsMatch,
                   rc_digest = digest, rc_transcript = t\<rparr>))"

definition device_known :: "policy_lib \<Rightarrow> policy_snapshot \<Rightarrow> ObservationTranscript \<Rightarrow> bool" where
  "device_known lib s t =
     (case ss_device s of None \<Rightarrow> False
      | Some d \<Rightarrow> dv_curve d = ot_curve t \<and> dv_key d = ot_publicKey t \<and>
          ch_sha256 (lib_chain lib) (bytes_of_string ''Pathnod/device/v0'' @ ot_publicKey t) = ot_deviceID t)"

definition device_signed :: "policy_lib \<Rightarrow> ObservationTranscript \<Rightarrow> bool" where
  "device_signed lib t = (ot_curve t = JInt 1 \<and>
     list_all (\<lambda>c. ed_verify (lib_ed lib) (ot_publicKey t) (deviceChallengeDigest (ch_sha256 (lib_chain lib)) t c) (tc_signature c))
       (ot_challenges t))"

definition counter_enabled :: "policy_snapshot \<Rightarrow> bool" where
  "counter_enabled s = (case ss_device s of None \<Rightarrow> False | Some d \<Rightarrow> (dv_capabilities d AND 2) \<noteq> 0)"

text \<open>After the snapshot: \<open>snapshot\<close> is \<open>Inl\<close> the policy error or other failure of the source.  The result
  carries the key read here and the verified assertion.\<close>

definition receive_checked ::
  "policy_lib \<Rightarrow> policy_service \<Rightarrow> receipt_context \<Rightarrow> policy_error option + policy_snapshot \<Rightarrow> jsnum \<Rightarrow> policy_db \<Rightarrow>
     (policy_snapshot \<times> VerifiedAppAttestKey \<times> VerifiedAppAttestKey) progress" where
  "receive_checked lib svc rc snapshot now db =
     (case snapshot of
        Inl (Some e) \<Rightarrow> Done (Inl e)
      | Inl None \<Rightarrow> Done (Inl PE_dependency_unavailable)
      | Inr s \<Rightarrow>
          let t = rc_transcript rc; device = hex_of_bytes (ot_deviceID t); envelope = rc_envelope rc
          in case previous (rc_hash rc) (rc_digest rc) db of
            Inl e \<Rightarrow> Done (Inl e)
          | Inr True \<Rightarrow> Done (Inr (rc_hash rc))
          | Inr False \<Rightarrow>
              if \<not> device_known lib s t then Done (Inl PE_DEVICE_UNKNOWN)
              else if \<not> device_signed lib t then Done (Inl PE_DEV_SIG)
              else if counter_enabled s \<and> \<not> checkCounters t device db then Done (Inl PE_DEV_COUNTER)
              else if median_twice (map (jint \<circ> tc_roundTripMilliseconds) (ot_challenges t)) > 800 then Done (Inl PE_RTT)
              else if \<not> int_in (ss_minimumRSSI s) (-127) 0 then Done (Inl PE_dependency_unavailable)
              else case checkTime t (ss_epochSeconds s) now of Inl e \<Rightarrow> Done (Inl e)
              | Inr _ \<Rightarrow>
                  (case policy_key (oe_key_id envelope) db of None \<Rightarrow> Done (Inl PE_ASSERTION)
                   | Some key \<Rightarrow>
                       if ot_observerClass t \<noteq> JInt 1 then Done (Inl PE_ASSERTION)
                       else case verifyAssertion (lib_x509 lib) (sp_attest svc) key (b64_dec (oe_assertion envelope))
                           (bytes_of_hex (rc_hash rc)) True of Inl _ \<Rightarrow> Done (Inl PE_ASSERTION)
                         | Inr asserted \<Rightarrow>
                             if \<not> rc_match rc \<or> length (ss_roots s) > 4 \<or> oe_public envelope ! 0 \<notin> set (ss_roots s)
                             then Done (Inl PE_ZK) else Continue (s, key, asserted)))"

definition rssi_weak :: "policy_snapshot \<Rightarrow> ObservationTranscript \<Rightarrow> bool" where
  "rssi_weak s t =
     (let samples = map jint (tl_rssiSamples (ot_local t))
      in length samples < 5 \<or> median_twice samples < 2 * jint (ss_minimumRSSI s))"

text \<open>The authorization to relay, before it is signed: \<open>Inr None\<close> without a relay.\<close>

definition relay_payload ::
  "policy_service \<Rightarrow> receipt_context \<Rightarrow> policy_snapshot \<Rightarrow> policy_error + ObservationRelayPayload option" where
  "relay_payload svc rc s =
     (let t = rc_transcript rc
      in case sp_relay svc of None \<Rightarrow> Inr None
        | Some (signer, _) \<Rightarrow>
            if ss_verifier s \<noteq> Some (os_publicKey signer) then Inl PE_dependency_unavailable
            else case ss_policyVersion s of None \<Rightarrow> Inl PE_dependency_unavailable
              | Some version \<Rightarrow>
                  if \<not> int_in version 1 0xffffffff then Inl PE_dependency_unavailable
                  else case relayProofBytes (proof_value (rc_envelope rc)) (public_value (rc_envelope rc)) of
                    None \<Rightarrow> Inl PE_internal
                  | Some proof \<Rightarrow> Inr (Some \<lparr>
                      rp_auth = \<lparr>au_transcriptHash = rc_hash rc, au_nullifier = hex_of_bytes (ot_nullifier t),
                        au_pseudonym = hex_of_bytes (ot_pseudonym t), au_observerClass = ot_observerClass t,
                        au_policyVersion = version, au_evidenceHash = Some (hex_of_bytes (ot_evidenceHash t))\<rparr>,
                      rp_protocolID = hex_of_bytes (ot_protocolID t), rp_deviceID = hex_of_bytes (ot_deviceID t),
                      rp_epoch = ot_epoch t, rp_proofBytes = hex_of_bytes proof, rp_verifier = os_publicKey signer,
                      rp_verifierSignature = []\<rparr>))"

definition payment_scope :: "policy_service \<Rightarrow> string" where
  "payment_scope svc = (case sp_paymentScope svc of None \<Rightarrow> sp_target svc | Some p \<Rightarrow> p)"

definition receipts :: "policy_db \<Rightarrow> string \<Rightarrow> string option" where
  "receipts db h = map_option vr_nullifier (find (\<lambda>r. vr_transcript_hash r = h) (pd_validations db))"

text \<open>Signing and queueing inside the transaction.\<close>

definition queue_relay ::
  "policy_lib \<Rightarrow> policy_service \<Rightarrow> ObservationRelayPayload option \<Rightarrow> policy_db \<Rightarrow> policy_error + policy_db" where
  "queue_relay lib svc payload db =
     (case (payload, sp_relay svc) of
        (Some p, Some (signer, capacity)) \<Rightarrow>
          ebind (of_opt PE_internal (signer_sign (lib_chain lib) (lib_ed lib) signer (rp_auth p))) (\<lambda>signature.
          ebind (of_opt PE_internal (queueValidatedObservation (lib_chain lib) (lib_ed lib) True (receipts db)
            (p\<lparr>rp_verifierSignature := signature\<rparr>) capacity (rb_jobs (pd_relay db)))) (\<lambda>jobs.
          Inr (db\<lparr>pd_relay := (pd_relay db)\<lparr>rb_jobs := jobs\<rparr>\<rparr>)))
      | _ \<Rightarrow> Inr db)"

definition record_confidence :: "policy_lib \<Rightarrow> policy_service \<Rightarrow> receipt_context \<Rightarrow> policy_db \<Rightarrow> policy_error + policy_db" where
  "record_confidence lib svc rc db =
     (case sp_recipient svc of None \<Rightarrow> Inr db
      | Some r \<Rightarrow> ebind (of_opt PE_internal (confidence_record (lib_seal lib) r (sp_target svc) (rc_hash rc)
          (oe_transcript (rc_envelope rc), oe_evidence (rc_envelope rc)) (pd_confidence db))) (\<lambda>rows.
          Inr (db\<lparr>pd_confidence := rows\<rparr>)))"

definition claim_owner :: "policy_service \<Rightarrow> receipt_context \<Rightarrow> policy_db \<Rightarrow> policy_error + policy_db" where
  "claim_owner svc rc db =
     (let slot = (payment_scope svc, hex_of_bytes (ot_pseudonym (rc_transcript rc))); keyID = oe_key_id (rc_envelope rc)
      in case pd_owners db slot of
        None \<Rightarrow> Inr (db\<lparr>pd_owners := (pd_owners db)(slot \<mapsto> keyID)\<rparr>)
      | Some owner \<Rightarrow> if owner \<noteq> keyID then Inl PE_ASSERTION else Inr db)"

text \<open>The writes: the key's counter, the device's counter, the validation.\<close>

definition write_validation ::
  "receipt_context \<Rightarrow> policy_snapshot \<Rightarrow> VerifiedAppAttestKey \<Rightarrow> VerifiedAppAttestKey \<Rightarrow> int \<Rightarrow> policy_db \<Rightarrow> policy_db" where
  "write_validation rc s key asserted now db =
     (let t = rc_transcript rc
      in db\<lparr>pd_gate := update_counter (oe_key_id (rc_envelope rc)) (ak_counter key) asserted (pd_gate db),
        pd_counters := (if counter_enabled s
          then (pd_counters db)(hex_of_bytes (ot_deviceID t) \<mapsto> jint (tc_deviceCounter (ot_challenges t ! 2))) else pd_counters db),
        pd_validations := pd_validations db @ [\<lparr>vr_transcript_hash = rc_hash rc, vr_envelope_hash = rc_digest rc,
          vr_nullifier = hex_of_bytes (ot_nullifier t), vr_validated_at = now\<rparr>]\<rparr>)"

definition receive_transaction ::
  "policy_lib \<Rightarrow> policy_service \<Rightarrow> receipt_context \<Rightarrow> policy_snapshot \<Rightarrow> VerifiedAppAttestKey \<Rightarrow> VerifiedAppAttestKey \<Rightarrow>
     ObservationRelayPayload option \<Rightarrow> int \<Rightarrow> policy_db \<Rightarrow> policy_error + policy_db" where
  "receive_transaction lib svc rc s key asserted payload now db =
     (let t = rc_transcript rc; keyID = oe_key_id (rc_envelope rc)
      in if nullifier_used (hex_of_bytes (ot_nullifier t)) db then Inl PE_NULLIFIER
         else if (case policy_key keyID db of None \<Rightarrow> True
              | Some current \<Rightarrow> ak_counter current \<noteq> ak_counter key \<or> ak_publicKeyPem current \<noteq> ak_publicKeyPem key) then Inl PE_ASSERTION
         else if counter_enabled s \<and> \<not> checkCounters t (hex_of_bytes (ot_deviceID t)) db then Inl PE_DEV_COUNTER
         else if int (length (pd_validations db)) \<ge> sp_capacity svc then Inl PE_capacity
         else if (case sp_relay svc of None \<Rightarrow> False | Some (_, c) \<Rightarrow> int (length (rb_jobs (pd_relay db))) \<ge> c) then Inl PE_capacity
         else if length (filter (counter_hit keyID (ak_counter key)) (gd_keys (pd_gate db))) \<noteq> 1 then Inl PE_ASSERTION
         else ebind (record_confidence lib svc rc (write_validation rc s key asserted now db)) (\<lambda>db.
              ebind (claim_owner svc rc db) (queue_relay lib svc payload)))"

text \<open>After the proof: \<open>valid\<close> is \<open>None\<close> when the verifier throws.  The transaction follows without an await,
  so that its second look for an earlier receipt finds what the first one found.  A failed transaction leaves
  the database.\<close>

definition receive_commit ::
  "policy_lib \<Rightarrow> policy_service \<Rightarrow> receipt_context \<Rightarrow> policy_snapshot \<times> VerifiedAppAttestKey \<times> VerifiedAppAttestKey \<Rightarrow>
     bool option \<Rightarrow> jsnum \<Rightarrow> policy_db \<Rightarrow> policy_db \<times> (policy_error + string)" where
  "receive_commit lib svc rc checked valid now db =
     (case checked of (s, key, asserted) \<Rightarrow>
        let t = rc_transcript rc
        in case valid of None \<Rightarrow> (db, Inl PE_dependency_unavailable)
           | Some ok \<Rightarrow>
               (case previous (rc_hash rc) (rc_digest rc) db of
                  Inl e \<Rightarrow> (db, Inl e)
                | Inr True \<Rightarrow> (db, Inr (rc_hash rc))
                | Inr False \<Rightarrow>
                    if \<not> ok then (db, Inl PE_ZK)
                    else if ss_nullifierUsed s \<or> nullifier_used (hex_of_bytes (ot_nullifier t)) db then (db, Inl PE_NULLIFIER)
                    else if rssi_weak s t then (db, Inl PE_RSSI)
                    else case ebind (checkTime t (ss_epochSeconds s) now) (\<lambda>now.
                        ebind (relay_payload svc rc s) (\<lambda>payload.
                        receive_transaction lib svc rc s key asserted payload now db)) of
                      Inl e \<Rightarrow> (db, Inl e)
                    | Inr db' \<Rightarrow> (db', Inr (rc_hash rc))))"

definition relayStatus :: "policy_service \<Rightarrow> string \<Rightarrow> policy_db \<Rightarrow> (relay_status \<times> string option \<times> relay_error option \<times> bool) option option" where
  "relayStatus svc h db =
     (if \<not> is_hex 64 h then None
      else if sp_relay svc = None then Some None
      else Some (map_option (\<lambda>j. (rj_status j, rj_signature j, rj_last_error j, rj_status j = Confirmed))
        (find (\<lambda>j. rj_transcript_hash j = h) (rb_jobs (pd_relay db)))))"

section \<open>Claims\<close>

record claim_request =
  cq_pseudonym :: string
  cq_key_id :: string
  cq_assertion :: string

text \<open>\<open>claim\<close> is the source's answer, \<open>None\<close> when it throws; what follows has no await until the
  signature is committed, so that the key read again inside the transaction is the key read before it.  The
  message that the source prepares afterwards is not part of the result.\<close>

definition authorizeClaim ::
  "policy_lib \<Rightarrow> policy_service \<Rightarrow> claim_request \<Rightarrow> ClaimAuthorization option \<Rightarrow> policy_db \<Rightarrow>
     policy_db \<times> (policy_error + ClaimAuthorization \<times> string \<times> string)" where
  "authorizeClaim lib svc input claim db =
     (case sp_relay svc of None \<Rightarrow> (db, Inl PE_dependency_unavailable)
      | Some (signer, _) \<Rightarrow>
          (case claim of None \<Rightarrow> (db, Inl PE_internal)
           | Some authorization \<Rightarrow>
               (case policy_key (cq_key_id input) db of None \<Rightarrow> (db, Inl PE_ASSERTION)
                | Some key \<Rightarrow>
                    if pd_owners db (payment_scope svc, cq_pseudonym input) \<noteq> Some (cq_key_id input) \<or>
                       \<not> b64_pattern (cq_assertion input) \<or> length (cq_assertion input) > 16384 then (db, Inl PE_ASSERTION)
                    else case claimDigest (lib_chain lib) authorization of None \<Rightarrow> (db, Inl PE_ASSERTION)
                    | Some digest \<Rightarrow>
                        (case verifyAssertion (lib_x509 lib) (sp_attest svc) key (b64_dec (cq_assertion input)) digest True of
                           Inl _ \<Rightarrow> (db, Inl PE_ASSERTION)
                         | Inr asserted \<Rightarrow>
                             if length (filter (counter_hit (cq_key_id input) (ak_counter key)) (gd_keys (pd_gate db))) \<noteq> 1
                             then (db, Inl PE_ASSERTION)
                             else case signClaimDigest (lib_ed lib) signer digest of None \<Rightarrow> (db, Inl PE_internal)
                               | Some signature \<Rightarrow>
                                   (db\<lparr>pd_gate := update_counter (cq_key_id input) (ak_counter key) asserted (pd_gate db)\<rparr>,
                                    Inr (authorization, os_publicKey signer, signature))))))"

section \<open>What each stretch establishes\<close>

lemma previous_cases:
  "previous h d db = Inr False \<longleftrightarrow> h \<notin> vr_transcript_hash ` set (pd_validations db)"
  "previous h d db = Inr True \<Longrightarrow> h \<in> vr_transcript_hash ` set (pd_validations db)"
  by (auto simp: previous_def find_None_iff split: option.splits if_splits dest!: find_SomeD)

lemma receive_start_Continue:
  assumes "receive_start lib input db = Continue rc"
  shows "parseObservationEnvelope (ch_sha256 (lib_chain lib)) (lib_poseidon lib) input True =
      Some (rc_envelope rc, rc_hash rc, rc_match rc) \<and> rc_digest rc = envelope_digest (ch_sha256 (lib_chain lib)) (rc_envelope rc) \<and>
    decodeObservationTranscript (b64_dec (oe_transcript (rc_envelope rc))) (JInt 0) = Some (rc_transcript rc)"
  using assms by (auto simp: receive_start_def Let_def split: option.splits sum.splits bool.splits)

text \<open>The checks between the two awaits, over the database they ran on.\<close>

definition checks_passed ::
  "policy_lib \<Rightarrow> policy_service \<Rightarrow> receipt_context \<Rightarrow> policy_snapshot \<Rightarrow> VerifiedAppAttestKey \<Rightarrow> VerifiedAppAttestKey \<Rightarrow> jsnum \<Rightarrow> policy_db \<Rightarrow> bool" where
  "checks_passed lib svc rc s key asserted now db =
     (let t = rc_transcript rc
      in device_known lib s t \<and> device_signed lib t \<and>
         (counter_enabled s \<longrightarrow> checkCounters t (hex_of_bytes (ot_deviceID t)) db) \<and>
         median_twice (map (jint \<circ> tc_roundTripMilliseconds) (ot_challenges t)) \<le> 800 \<and> int_in (ss_minimumRSSI s) (-127) 0 \<and>
         checkTime t (ss_epochSeconds s) now = Inr (jint now) \<and>
         policy_key (oe_key_id (rc_envelope rc)) db = Some key \<and> ot_observerClass t = JInt 1 \<and>
         verifyAssertion (lib_x509 lib) (sp_attest svc) key (b64_dec (oe_assertion (rc_envelope rc))) (bytes_of_hex (rc_hash rc)) True =
           Inr asserted \<and>
         rc_match rc \<and> length (ss_roots s) \<le> 4 \<and> oe_public (rc_envelope rc) ! 0 \<in> set (ss_roots s))"

lemma checkTime_Inr: "checkTime t es now = Inr x \<Longrightarrow> x = jint now"
  by (auto simp: checkTime_def split: if_splits)

lemma receive_checked_Continue:
  assumes "receive_checked lib svc rc snapshot now db = Continue (s, key, asserted)"
  shows "snapshot = Inr s \<and> checks_passed lib svc rc s key asserted now db"
proof -
  from assms obtain s' where s: "snapshot = Inr s'" by (auto simp: receive_checked_def split: sum.splits option.splits)
  from assms show ?thesis unfolding s receive_checked_def Let_def checks_passed_def
    by (auto split: sum.splits option.splits bool.splits if_splits dest: checkTime_Inr)
qed

lemma receive_commit_new:
  assumes "receive_commit lib svc rc (s, key, asserted) valid now db = (db', Inr h)"
    and "h \<notin> vr_transcript_hash ` set (pd_validations db)"
  obtains payload where "valid = Some True" "h = rc_hash rc" "\<not> ss_nullifierUsed s" "\<not> rssi_weak s (rc_transcript rc)"
    "checkTime (rc_transcript rc) (ss_epochSeconds s) now = Inr (jint now)" "relay_payload svc rc s = Inr payload"
    "receive_transaction lib svc rc s key asserted payload (jint now) db = Inr db'"
proof -
  from assms have "valid \<noteq> None" "h = rc_hash rc" by (auto simp: receive_commit_def Let_def split: option.splits sum.splits bool.splits if_splits)
  then have pr: "previous (rc_hash rc) (rc_digest rc) db = Inr False" using assms(2) by (simp add: previous_cases)
  with assms(1) have "valid = Some True" "\<not> ss_nullifierUsed s" "\<not> rssi_weak s (rc_transcript rc)"
    "\<exists>n payload. checkTime (rc_transcript rc) (ss_epochSeconds s) now = Inr n \<and> relay_payload svc rc s = Inr payload \<and>
       receive_transaction lib svc rc s key asserted payload n db = Inr db'"
    by (auto simp: receive_commit_def Let_def ebind_eq_Inr ebind_eq_Inl split: option.splits if_splits sum.splits)
  with that \<open>h = rc_hash rc\<close> show thesis by (metis checkTime_Inr)
qed

lemma receive_commit_other:
  assumes "receive_commit lib svc rc c valid now db = (db', res)" and "db' \<noteq> db"
  shows "\<exists>h. res = Inr h \<and> h \<notin> vr_transcript_hash ` set (pd_validations db)"
proof -
  obtain s key asserted where c: "c = (s, key, asserted)" by (cases c)
  with assms have "previous (rc_hash rc) (rc_digest rc) db = Inr False" "res = Inr (rc_hash rc)"
    by (auto simp: receive_commit_def Let_def split: option.splits if_splits sum.splits bool.splits)
  then show ?thesis by (simp add: previous_cases)
qed

text \<open>What a committed transaction found and what it wrote.\<close>

definition transaction_found ::
  "policy_service \<Rightarrow> receipt_context \<Rightarrow> policy_snapshot \<Rightarrow> VerifiedAppAttestKey \<Rightarrow> policy_db \<Rightarrow> bool" where
  "transaction_found svc rc s key db =
     (let t = rc_transcript rc; keyID = oe_key_id (rc_envelope rc)
      in \<not> nullifier_used (hex_of_bytes (ot_nullifier t)) db \<and>
         (\<exists>current. policy_key keyID db = Some current \<and> ak_counter current = ak_counter key \<and> ak_publicKeyPem current = ak_publicKeyPem key) \<and>
         (counter_enabled s \<longrightarrow> checkCounters t (hex_of_bytes (ot_deviceID t)) db) \<and>
         int (length (pd_validations db)) < sp_capacity svc \<and>
         length (filter (counter_hit keyID (ak_counter key)) (gd_keys (pd_gate db))) = 1)"

definition jobs_queued ::
  "policy_lib \<Rightarrow> policy_service \<Rightarrow> ObservationRelayPayload option \<Rightarrow> policy_db \<Rightarrow> policy_db \<Rightarrow> bool" where
  "jobs_queued lib svc payload db db' =
     (case (payload, sp_relay svc) of
        (Some p, Some (signer, capacity)) \<Rightarrow> (\<exists>signature. signer_sign (lib_chain lib) (lib_ed lib) signer (rp_auth p) = Some signature \<and>
          queueValidatedObservation (lib_chain lib) (lib_ed lib) True (receipts db') (p\<lparr>rp_verifierSignature := signature\<rparr>) capacity
            (rb_jobs (pd_relay db)) = Some (rb_jobs (pd_relay db')))
      | _ \<Rightarrow> rb_jobs (pd_relay db') = rb_jobs (pd_relay db))"

lemma receipts_relay [simp]: "receipts (db\<lparr>pd_relay := r\<rparr>) = receipts db"
  by (simp add: receipts_def fun_eq_iff)

lemma queue_relay_Inr:
  assumes "queue_relay lib svc payload db = Inr db'"
  shows "jobs_queued lib svc payload db db' \<and> db' = db\<lparr>pd_relay := (pd_relay db)\<lparr>rb_jobs := rb_jobs (pd_relay db')\<rparr>\<rparr>"
  using assms by (auto simp: queue_relay_def jobs_queued_def ebind_eq_Inr split: option.splits prod.splits)

lemma record_confidence_Inr:
  "record_confidence lib svc rc db = Inr db' \<Longrightarrow> \<exists>rows. db' = db\<lparr>pd_confidence := rows\<rparr>"
  by (auto simp: record_confidence_def ebind_eq_Inr split: option.splits intro: exI [of _ "pd_confidence db"])

lemma claim_owner_Inr:
  assumes "claim_owner svc rc db = Inr db'"
  shows "\<exists>owners. db' = db\<lparr>pd_owners := owners\<rparr> \<and> pd_owners db \<subseteq>\<^sub>m owners \<and>
    owners (payment_scope svc, hex_of_bytes (ot_pseudonym (rc_transcript rc))) = Some (oe_key_id (rc_envelope rc))"
proof -
  let ?slot = "(payment_scope svc, hex_of_bytes (ot_pseudonym (rc_transcript rc)))"
  show ?thesis
  proof (cases "pd_owners db ?slot")
    case None
    with assms show ?thesis
      by (intro exI [of _ "(pd_owners db)(?slot \<mapsto> oe_key_id (rc_envelope rc))"]) (auto simp: claim_owner_def Let_def map_le_def)
  next
    case (Some k)
    with assms show ?thesis by (intro exI [of _ "pd_owners db"]) (auto simp: claim_owner_def Let_def split: if_splits)
  qed
qed

lemma receive_transaction_Inr:
  assumes "receive_transaction lib svc rc s key asserted payload now db = Inr db'"
  shows "transaction_found svc rc s key db \<and>
    (\<exists>rows owners jobs. db' = (write_validation rc s key asserted now db)
       \<lparr>pd_confidence := rows, pd_owners := owners, pd_relay := (pd_relay db)\<lparr>rb_jobs := jobs\<rparr>\<rparr> \<and> pd_owners db \<subseteq>\<^sub>m owners \<and>
       owners (payment_scope svc, hex_of_bytes (ot_pseudonym (rc_transcript rc))) = Some (oe_key_id (rc_envelope rc))) \<and>
    jobs_queued lib svc payload db db'"
proof -
  have found: "transaction_found svc rc s key db"
    using assms by (auto simp: receive_transaction_def transaction_found_def Let_def split: if_splits option.splits)
  from assms obtain d1 d2 where d: "record_confidence lib svc rc (write_validation rc s key asserted now db) = Inr d1"
    "claim_owner svc rc d1 = Inr d2" "queue_relay lib svc payload d2 = Inr db'"
    by (auto simp: receive_transaction_def Let_def ebind_eq_Inr split: if_splits)
  from record_confidence_Inr [OF d(1)] obtain rows where r: "d1 = (write_validation rc s key asserted now db)\<lparr>pd_confidence := rows\<rparr>" by blast
  from claim_owner_Inr [OF d(2)] obtain owners where o: "d2 = d1\<lparr>pd_owners := owners\<rparr>" "pd_owners d1 \<subseteq>\<^sub>m owners"
    "owners (payment_scope svc, hex_of_bytes (ot_pseudonym (rc_transcript rc))) = Some (oe_key_id (rc_envelope rc))" by blast
  from queue_relay_Inr [OF d(3)] have q: "jobs_queued lib svc payload d2 db'"
    "db' = d2\<lparr>pd_relay := (pd_relay d2)\<lparr>rb_jobs := rb_jobs (pd_relay db')\<rparr>\<rparr>" by auto
  have w: "pd_relay (write_validation rc s key asserted now db) = pd_relay db" "pd_owners (write_validation rc s key asserted now db) = pd_owners db"
    by (simp_all add: write_validation_def Let_def)
  have e: "pd_relay d2 = pd_relay db" using w by (simp add: o(1) r)
  have "jobs_queued lib svc payload db db'" using q(1) unfolding jobs_queued_def e .
  moreover have "db' = (write_validation rc s key asserted now db)
       \<lparr>pd_confidence := rows, pd_owners := owners, pd_relay := (pd_relay db)\<lparr>rb_jobs := rb_jobs (pd_relay db')\<rparr>\<rparr>"
    using q(2) w by (simp add: o(1) r)
  ultimately show ?thesis using found o(2,3) w by (auto simp: r)
qed

lemma counters_increase_last:
  "counters_increase p cs \<Longrightarrow> cs \<noteq> [] \<Longrightarrow> p < last cs"
  by (induction p cs rule: counters_increase.induct) (force split: if_splits)+

section \<open>Interleaved calls\<close>

datatype session =
    AwaitSnapshot receipt_context
  | AwaitProof receipt_context "policy_snapshot \<times> VerifiedAppAttestKey \<times> VerifiedAppAttestKey"

text \<open>One step of the service and of everything that shares its file: a call arrives, resumes after an await or
  ends early; a claim is authorized; a key is revoked; the gate moves; the enrollment tables change in any
  way; a relay job takes its turn, or the relay crashes in it.\<close>

inductive policy_step :: "policy_lib \<Rightarrow> policy_service \<Rightarrow> policy_db \<times> session list \<Rightarrow> policy_db \<times> session list \<Rightarrow> bool" for lib svc where
  arrive: "receive_start lib input db = Continue rc \<Longrightarrow> policy_step lib svc (db, ss) (db, ss @ [AwaitSnapshot rc])"
| resume: "receive_checked lib svc rc snapshot now db = Continue c \<Longrightarrow>
    policy_step lib svc (db, xs @ AwaitSnapshot rc # ys) (db, xs @ AwaitProof rc c # ys)"
| end_early: "policy_step lib svc (db, xs @ x # ys) (db, xs @ ys)"
| commit: "receive_commit lib svc rc c valid now db = (db', res) \<Longrightarrow> policy_step lib svc (db, xs @ AwaitProof rc c # ys) (db', xs @ ys)"
| claim: "policy_step lib svc (db, ss) (fst (authorizeClaim lib svc input answer db), ss)"
| revoke_key: "policy_step lib svc (db, ss) (revoke k now db, ss)"
| gate_moves: "gate_step lb gate (pd_gate db) g \<Longrightarrow> policy_step lib svc (db, ss) (db\<lparr>pd_gate := g\<rparr>, ss)"
| enroll_moves: "policy_step lib svc (db, ss) (db\<lparr>pd_enroll := e\<rparr>, ss)"
| relay_moves: "job \<in> set (rb_jobs (pd_relay db)) \<Longrightarrow> live job \<Longrightarrow>
    run_job ch ed (rb_target (pd_relay db)) env job (rb_jobs (pd_relay db)) = (sent, jobs) \<Longrightarrow>
    after = jobs \<or> (\<exists>t. sent = Some (t, after)) \<Longrightarrow>
    policy_step lib svc (db, ss) (db\<lparr>pd_relay := (pd_relay db)\<lparr>rb_jobs := after\<rparr>\<rparr>, ss)"

inductive policy_run :: "policy_lib \<Rightarrow> policy_service \<Rightarrow> policy_db \<times> session list \<Rightarrow> policy_db \<times> session list \<Rightarrow> bool" for lib svc st0 where
  policy_start: "policy_run lib svc st0 st0"
| policy_next: "policy_run lib svc st0 st \<Longrightarrow> policy_step lib svc st st' \<Longrightarrow> policy_run lib svc st0 st'"

text \<open>A waiting call has passed what comes before its await.\<close>

definition started :: "policy_lib \<Rightarrow> receipt_context \<Rightarrow> bool" where
  "started lib rc = (\<exists>input db. receive_start lib input db = Continue rc)"

fun session_ok :: "policy_lib \<Rightarrow> policy_service \<Rightarrow> session \<Rightarrow> bool" where
  "session_ok lib svc (AwaitSnapshot rc) = started lib rc"
| "session_ok lib svc (AwaitProof rc (s, key, asserted)) =
     (started lib rc \<and> (\<exists>now db. checks_passed lib svc rc s key asserted now db))"

text \<open>One validation per transcript and per nullifier, within the capacity; with a relay, exactly one job per
  validation.\<close>

definition job_keys :: "RelayJob list \<Rightarrow> (string \<times> string) set" where
  "job_keys jobs = (\<lambda>j. (rj_transcript_hash j, rj_nullifier j)) ` set jobs"

definition validation_keys :: "ValidationRow list \<Rightarrow> (string \<times> string) set" where
  "validation_keys rows = (\<lambda>r. (vr_transcript_hash r, vr_nullifier r)) ` set rows"

definition policy_inv :: "policy_service \<Rightarrow> policy_db \<Rightarrow> bool" where
  "policy_inv svc db = (distinct (map vr_transcript_hash (pd_validations db)) \<and> distinct (map vr_nullifier (pd_validations db)) \<and>
     int (length (pd_validations db)) \<le> sp_capacity svc \<and> jobs_inv (rb_jobs (pd_relay db)) \<and>
     (sp_relay svc \<noteq> None \<longrightarrow> job_keys (rb_jobs (pd_relay db)) = validation_keys (pd_validations db)))"

text \<open>Nothing recorded is taken back: counters only grow, validations, owners and revocations stay.\<close>

definition policy_advance :: "policy_db \<Rightarrow> policy_db \<Rightarrow> bool" where
  "policy_advance db db' = (keys_advance (pd_gate db) (pd_gate db') \<and> set (pd_validations db) \<subseteq> set (pd_validations db') \<and>
     (\<forall>d c. pd_counters db d = Some c \<longrightarrow> (\<exists>c'\<ge>c. pd_counters db' d = Some c')) \<and>
     pd_owners db \<subseteq>\<^sub>m pd_owners db' \<and> pd_revocations db \<subseteq>\<^sub>m pd_revocations db')"

lemma policy_advance_refl [simp]: "policy_advance db db"
  by (simp add: policy_advance_def keys_advance_refl)

lemma policy_advance_trans: "policy_advance a b \<Longrightarrow> policy_advance b c \<Longrightarrow> policy_advance a c"
  unfolding policy_advance_def by (auto intro: keys_advance_trans map_le_trans) (meson order_trans)

lemma asserted_counter:
  assumes "verifyAssertion lb vf key ob ch direct = Inr k"
  shows "ak_counter key < ak_counter k"
  using assms by (rule assertion_accepted_parts) simp

lemma started_transcript:
  assumes "started lib rc"
  shows "validateObservationTranscript (rc_transcript rc) (JInt 0) \<and> length (ot_challenges (rc_transcript rc)) = 3"
  using assms receive_start_Continue decode_Some by (fastforce simp: started_def validateObservationTranscript_def)

lemma last_counter:
  assumes "started lib rc" and "checkCounters (rc_transcript rc) device db"
  shows "device_counter device db < jint (tc_deviceCounter (ot_challenges (rc_transcript rc) ! 2))"
proof -
  have l: "length (ot_challenges (rc_transcript rc)) = 3" using started_transcript [OF assms(1)] by simp
  then have "last (map (jint \<circ> tc_deviceCounter) (ot_challenges (rc_transcript rc))) =
      jint (tc_deviceCounter (ot_challenges (rc_transcript rc) ! 2))"
    by (subst last_conv_nth) auto
  moreover have "map (jint \<circ> tc_deviceCounter) (ot_challenges (rc_transcript rc)) \<noteq> []" using l by auto
  ultimately show ?thesis using assms(2) counters_increase_last by (metis checkCounters_def)
qed

lemma commit_advance:
  assumes "session_ok lib svc (AwaitProof rc (s, key, asserted))"
    and "receive_transaction lib svc rc s key asserted payload now db = Inr db'"
  shows "policy_advance db db'"
proof -
  from receive_transaction_Inr [OF assms(2)] obtain rows owners jobs where found: "transaction_found svc rc s key db"
    and db': "db' = (write_validation rc s key asserted now db)
       \<lparr>pd_confidence := rows, pd_owners := owners, pd_relay := (pd_relay db)\<lparr>rb_jobs := jobs\<rparr>\<rparr>" "pd_owners db \<subseteq>\<^sub>m owners" by blast
  from assms(1) have st: "started lib rc" and c: "ak_counter key < ak_counter asserted"
    by (auto simp: checks_passed_def Let_def dest: asserted_counter)
  have "keys_advance (pd_gate db) (pd_gate db')"
    using advance_update c by (simp add: db' write_validation_def Let_def)
  moreover have "\<exists>c'\<ge>c. pd_counters db' d = Some c'" if "pd_counters db d = Some c" for d c
  proof (cases "counter_enabled s \<and> d = hex_of_bytes (ot_deviceID (rc_transcript rc))")
    case True
    then have "checkCounters (rc_transcript rc) d db" using found by (simp add: transaction_found_def Let_def)
    from last_counter [OF st this] that have "c \<le> jint (tc_deviceCounter (ot_challenges (rc_transcript rc) ! 2))"
      by (simp add: device_counter_def)
    with True show ?thesis by (simp add: db' write_validation_def Let_def)
  next
    case False
    with that show ?thesis by (auto simp: db' write_validation_def Let_def)
  qed
  ultimately show ?thesis using db'(2) by (auto simp: policy_advance_def db'(1) write_validation_def Let_def)
qed

lemma queue_keys:
  assumes "queueValidatedObservation ch ed True rs p capacity jobs = Some jobs'"
  shows "job_keys jobs' = insert (au_transcriptHash (rp_auth p), au_nullifier (rp_auth p)) (job_keys jobs)"
  using assms by (auto simp: queueValidatedObservation_def Let_def job_keys_def split: if_splits)

lemma set_job_keys: "row_update f \<Longrightarrow> job_keys (set_job n f jobs) = job_keys jobs"
proof -
  assume "row_update f"
  then have "map (\<lambda>j. (rj_transcript_hash j, rj_nullifier j)) (set_job n f jobs) = map (\<lambda>j. (rj_transcript_hash j, rj_nullifier j)) jobs"
    by (simp add: set_job_def row_update_def)
  then show ?thesis unfolding job_keys_def by (metis list.set_map)
qed

lemma jobs_queued_effect:
  assumes "relay_payload svc rc s = Inr payload" and "jobs_queued lib svc payload db db'" and "jobs_inv (rb_jobs (pd_relay db))"
  shows "jobs_inv (rb_jobs (pd_relay db')) \<and> (sp_relay svc \<noteq> None \<longrightarrow> job_keys (rb_jobs (pd_relay db')) =
    insert (rc_hash rc, hex_of_bytes (ot_nullifier (rc_transcript rc))) (job_keys (rb_jobs (pd_relay db))))"
proof (cases "sp_relay svc")
  case None
  with assms show ?thesis by (auto simp: jobs_queued_def relay_payload_def Let_def)
next
  case (Some r)
  obtain signer capacity where r: "r = (signer, capacity)" by (cases r)
  obtain p where p: "payload = Some p" "au_transcriptHash (rp_auth p) = rc_hash rc"
    "au_nullifier (rp_auth p) = hex_of_bytes (ot_nullifier (rc_transcript rc))"
    using assms(1) Some r by (auto simp: relay_payload_def Let_def split: if_splits option.splits)
  obtain signature where "queueValidatedObservation (lib_chain lib) (lib_ed lib) True (receipts db') (p\<lparr>rp_verifierSignature := signature\<rparr>)
      capacity (rb_jobs (pd_relay db)) = Some (rb_jobs (pd_relay db'))"
    using assms(2) Some r p(1) by (auto simp: jobs_queued_def)
  with queue_inv [OF this assms(3)] queue_keys [OF this] p show ?thesis by auto
qed

lemma commit_inv:
  assumes "policy_inv svc db" and "relay_payload svc rc s = Inr payload" and "rc_hash rc \<notin> vr_transcript_hash ` set (pd_validations db)"
    and "receive_transaction lib svc rc s key asserted payload now db = Inr db'"
  shows "policy_inv svc db'"
proof -
  from receive_transaction_Inr [OF assms(4)] obtain rows owners jobs where found: "transaction_found svc rc s key db"
    and db': "db' = (write_validation rc s key asserted now db)
       \<lparr>pd_confidence := rows, pd_owners := owners, pd_relay := (pd_relay db)\<lparr>rb_jobs := jobs\<rparr>\<rparr>"
    and q: "jobs_queued lib svc payload db db'" by blast
  let ?row = "\<lparr>vr_transcript_hash = rc_hash rc, vr_envelope_hash = rc_digest rc,
    vr_nullifier = hex_of_bytes (ot_nullifier (rc_transcript rc)), vr_validated_at = now\<rparr>"
  have v: "pd_validations db' = pd_validations db @ [?row]" by (simp add: db' write_validation_def Let_def)
  have "vr_nullifier ?row \<notin> vr_nullifier ` set (pd_validations db)" "int (length (pd_validations db)) < sp_capacity svc"
    using found by (auto simp: transaction_found_def Let_def nullifier_used_def list_ex_iff)
  with assms(1,3) jobs_queued_effect [OF assms(2) q] show ?thesis
    by (auto simp: policy_inv_def v validation_keys_def)
qed

lemma claim_effect:
  "policy_advance db (fst (authorizeClaim lib svc input answer db)) \<and>
   (policy_inv svc db \<longrightarrow> policy_inv svc (fst (authorizeClaim lib svc input answer db)))"
proof -
  have upd: "policy_advance db (db\<lparr>pd_gate := update_counter k (ak_counter key) v (pd_gate db)\<rparr>) \<and>
      (policy_inv svc db \<longrightarrow> policy_inv svc (db\<lparr>pd_gate := update_counter k (ak_counter key) v (pd_gate db)\<rparr>))"
    if "verifyAssertion (lib_x509 lib) (sp_attest svc) key ob d True = Inr v" for k key v ob d
    using asserted_counter [OF that] by (auto simp: policy_advance_def policy_inv_def advance_update)
  show ?thesis
  proof (cases "fst (authorizeClaim lib svc input answer db) = db")
    case False
    then obtain key ob d v where "verifyAssertion (lib_x509 lib) (sp_attest svc) key ob d True = Inr v"
      "fst (authorizeClaim lib svc input answer db) =
        db\<lparr>pd_gate := update_counter (cq_key_id input) (ak_counter key) v (pd_gate db)\<rparr>"
      by (auto simp: authorizeClaim_def split: option.splits sum.splits if_splits)
    with upd show ?thesis by metis
  qed simp
qed

lemma relay_turn_effect:
  assumes "jobs_inv jobs" and "job \<in> set jobs" and "run_job ch ed target env job jobs = (sent, jobs')"
    and "after = jobs' \<or> (\<exists>t. sent = Some (t, after))"
  shows "jobs_inv after \<and> job_keys after = job_keys jobs"
proof (cases "after = jobs'")
  case True
  with run_job_row [OF assms(1-3)] set_job_keys show ?thesis by auto
next
  case False
  then obtain t where t: "sent = Some (t, after)" using assms(4) by blast
  have "jobs_inv after" using run_job_row [OF assms(1-3)] t by (auto simp: job_sent_ok_def)
  moreover have "job_keys after = job_keys jobs" using job_sent_row [OF assms(1,2)] assms(3) t set_job_keys by metis
  ultimately show ?thesis by blast
qed

definition policy_state_ok :: "policy_lib \<Rightarrow> policy_service \<Rightarrow> policy_db \<times> session list \<Rightarrow> bool" where
  "policy_state_ok lib svc st = (policy_inv svc (fst st) \<and> (\<forall>x\<in>set (snd st). session_ok lib svc x))"

lemma policy_step_ok:
  "policy_step lib svc st st' \<Longrightarrow> policy_state_ok lib svc st \<Longrightarrow> policy_state_ok lib svc st' \<and> policy_advance (fst st) (fst st')"
proof (induction rule: policy_step.induct)
  case (arrive input db rc ss)
  then show ?case by (auto simp: policy_state_ok_def started_def)
next
  case (resume rc snapshot now db c xs ys)
  obtain s key asserted where c: "c = (s, key, asserted)" by (cases c)
  from receive_checked_Continue [OF resume(1) [unfolded c]] have "checks_passed lib svc rc s key asserted now db" by simp
  with resume(2) c show ?case by (auto simp: policy_state_ok_def)
next
  case (end_early db xs x ys)
  then show ?case by (auto simp: policy_state_ok_def)
next
  case (commit rc c valid now db db' res xs ys)
  obtain s key asserted where c: "c = (s, key, asserted)" by (cases c)
  have ok: "session_ok lib svc (AwaitProof rc (s, key, asserted))" "policy_inv svc db" "\<forall>x\<in>set (xs @ ys). session_ok lib svc x"
    using commit(2) c by (auto simp: policy_state_ok_def)
  show ?case
  proof (cases "db' = db")
    case True
    with ok show ?thesis by (auto simp: policy_state_ok_def)
  next
    case False
    from receive_commit_other [OF commit(1) False] obtain h where h: "res = Inr h" "h \<notin> vr_transcript_hash ` set (pd_validations db)" by blast
    obtain payload where p: "h = rc_hash rc" "relay_payload svc rc s = Inr payload"
      "receive_transaction lib svc rc s key asserted payload (jint now) db = Inr db'"
      using receive_commit_new [OF commit(1) [unfolded c h(1)] h(2)] by metis
    from commit_advance [OF ok(1) p(3)] commit_inv [OF ok(2) p(2) h(2) [unfolded p(1)] p(3)] ok(3) show ?thesis
      by (simp add: policy_state_ok_def)
  qed
next
  case (claim db ss input answer)
  then show ?case using claim_effect [of db lib svc input answer] by (auto simp: policy_state_ok_def)
next
  case (revoke_key db ss k now)
  then show ?case by (auto simp: policy_state_ok_def policy_inv_def revoke_def policy_advance_def keys_advance_refl map_le_def)
next
  case (gate_moves lb gate db g ss)
  then show ?case using advance_step [OF gate_moves(1)] by (auto simp: policy_state_ok_def policy_inv_def policy_advance_def)
next
  case (enroll_moves db ss e)
  then show ?case by (auto simp: policy_state_ok_def policy_inv_def policy_advance_def keys_advance_refl)
next
  case (relay_moves job db ch ed env sent jobs "after" ss)
  have "jobs_inv (rb_jobs (pd_relay db))" using relay_moves(5) by (simp add: policy_state_ok_def policy_inv_def)
  from relay_turn_effect [OF this relay_moves(1,3,4)] relay_moves(5) show ?case
    by (auto simp: policy_state_ok_def policy_inv_def policy_advance_def keys_advance_refl)
qed

lemma policy_run_ok:
  "policy_run lib svc st0 st \<Longrightarrow> policy_state_ok lib svc st0 \<Longrightarrow> policy_state_ok lib svc st \<and> policy_advance (fst st0) (fst st)"
proof (induction rule: policy_run.induct)
  case (policy_next st st')
  then show ?case using policy_step_ok [OF policy_next(2)] policy_advance_trans by blast
qed simp

section \<open>Properties\<close>

text \<open>A file with enrollment and gate tables on which the policy and the relay have not run.\<close>

definition fresh_policy_db :: "gate_db \<Rightarrow> enroll_db \<Rightarrow> policy_db" where
  "fresh_policy_db g e = \<lparr>pd_gate = g, pd_enroll = e, pd_target = None, pd_validations = [], pd_counters = Map.empty,
     pd_revocations = Map.empty, pd_owners = Map.empty, pd_relay = fresh_relay_db, pd_confidence = []\<rparr>"

lemma openPolicy_fresh:
  assumes "openPolicy lib production policy target scope capacity relay recipient (fresh_policy_db g e) = (db, Some svc)"
  shows "policy_state_ok lib svc (db, [])"
proof -
  have r: "rb_jobs (fst (initializeObservationRelay t v fresh_relay_db)) = []" for t v
    by (simp add: initializeObservationRelay_def fresh_relay_db_def)
  from assms have "pd_validations db = []" "rb_jobs (pd_relay db) = []" "0 < sp_capacity svc"
    using r by (auto simp: openPolicy_def fresh_policy_db_def Let_def fresh_relay_db_def initializeObservationRelay_def
        split: if_splits sum.splits option.splits prod.splits)
  then show ?thesis by (simp add: policy_state_ok_def policy_inv_def jobs_inv_def job_keys_def validation_keys_def)
qed


lemma queue_new_job:
  "queueValidatedObservation ch ed True rs p capacity jobs = Some jobs' \<Longrightarrow>
     \<exists>j\<in>set jobs'. rj_transcript_hash j = au_transcriptHash (rp_auth p) \<and> rj_payload j = p \<and> validPayload ch ed p"
  by (auto simp: queueValidatedObservation_def Let_def split: if_splits)

lemma queued_job_valid:
  assumes "relay_payload svc rc s = Inr payload" and "jobs_queued lib svc payload db db'" and "sp_relay svc \<noteq> None"
  shows "\<exists>j\<in>set (rb_jobs (pd_relay db')). rj_transcript_hash j = rc_hash rc \<and> validPayload (lib_chain lib) (lib_ed lib) (rj_payload j)"
proof -
  obtain signer capacity where r: "sp_relay svc = Some (signer, capacity)" using assms(3) by auto
  obtain p where p: "payload = Some p" "au_transcriptHash (rp_auth p) = rc_hash rc"
    using assms(1) r by (auto simp: relay_payload_def Let_def split: if_splits option.splits)
  obtain signature where "queueValidatedObservation (lib_chain lib) (lib_ed lib) True (receipts db') (p\<lparr>rp_verifierSignature := signature\<rparr>)
      capacity (rb_jobs (pd_relay db)) = Some (rb_jobs (pd_relay db'))"
    using assms(2) r p(1) by (auto simp: jobs_queued_def)
  from queue_new_job [OF this] p(2) show ?thesis by auto
qed

lemma counter_hit_updated:
  assumes "length (filter (counter_hit k c) (gd_keys g)) = 1"
  shows "\<exists>r\<in>set (gd_keys (update_counter k c v g)). kr_key_id r = k \<and> kr_counter r = ak_counter v"
proof -
  from assms have "filter (counter_hit k c) (gd_keys g) \<noteq> []" by auto
  then obtain r where r: "r \<in> set (gd_keys g)" "counter_hit k c r" by (auto simp: filter_empty_conv)
  then show ?thesis by (intro bexI [of _ "r\<lparr>kr_counter := ak_counter v, kr_bundle_version := ak_bundleVersion v\<rparr>"])
      (auto simp: update_counter_def counter_hit_def image_iff)
qed


section \<open>A concrete observation\<close>

definition demo_lib :: policy_lib where
  "demo_lib = \<lparr>lib_x509 = sample_x509, lib_chain = sample_chain\<lparr>ch_sha256 := \<lambda>_. zeros 32\<rparr>, lib_ed = accept_all,
     lib_poseidon = (\<lambda>_. 0), lib_seal = (\<lambda>_ _ _ _. [])\<rparr>"

definition demo_transcript :: ObservationTranscript where
  "demo_transcript = sample_transcript\<lparr>ot_deviceID := zeros 32\<rparr>"

definition demo_value :: jsval where
  "demo_value = JObj [(''transcript'', JStr (b64_enc (transcript_bytes demo_transcript))),
     (''assertion'', JStr (b64_enc sample_assertion)), (''key_id'', JStr (b64_enc (zeros 32))),
     (''zk'', JObj [(''proof'', JObj [(''pi_a'', JArr [JStr ''1'', JStr ''2'', JStr ''1'']),
         (''pi_b'', JArr [JArr [JStr ''1'', JStr ''2''], JArr [JStr ''3'', JStr ''4''], JArr [JStr ''1'', JStr ''0'']]),
         (''pi_c'', JArr [JStr ''1'', JStr ''2'', JStr ''1'']), (''protocol'', JStr ''groth16''), (''curve'', JStr ''bn128'')]),
       (''public'', JArr (map JStr (''0'' # expected_inputs (\<lambda>_. 0) demo_transcript)))])]"

definition demo_gate_db :: gate_db where
  "demo_gate_db = \<lparr>gd_challenges = [], gd_keys = [\<lparr>kr_key_id = b64_enc (zeros 32), kr_public_key_pem = ''pem'',
     kr_app_id = ''ABCDEFGHIJ.app'', kr_environment = ''production'', kr_counter = 3, kr_validation_category = None,
     kr_bundle_version = None\<rparr>]\<rparr>"

definition demo_enroll_db :: enroll_db where
  "demo_enroll_db = fresh_enroll_db\<lparr>en_enrollments := [\<lparr>er_key_id = b64_enc (zeros 32), er_commitment = [],
     er_observer_class = 1, er_leaf_index = 0, er_leaf = []\<rparr>]\<rparr>"

definition demo_signer :: ObservationSigner where
  "demo_signer = \<lparr>os_publicKey = ch_toBase58 sample_chain (zeros 32), os_seed = zeros 32\<rparr>"

definition demo_service :: policy_service where
  "demo_service = \<lparr>sp_attest = \<lparr>av_policy = sample_policy, av_rpID = zeros 32\<rparr>, sp_target = ''t'', sp_paymentScope = None,
     sp_capacity = 100000, sp_relay = Some (demo_signer, 100000), sp_recipient = Some ''r''\<rparr>"

definition demo_db :: policy_db where
  "demo_db = (fresh_policy_db demo_gate_db demo_enroll_db)\<lparr>pd_target := Some ''t'',
     pd_relay := fresh_relay_db\<lparr>rb_target := Some (''t'', os_publicKey demo_signer)\<rparr>\<rparr>"

definition demo_snapshot :: policy_snapshot where
  "demo_snapshot = \<lparr>ss_device = Some \<lparr>dv_key = replicate 32 3, dv_curve = JInt 1, dv_capabilities = 2\<rparr>, ss_epochSeconds = JInt 60,
     ss_minimumRSSI = JInt (-100), ss_roots = [''0''], ss_nullifierUsed = False, ss_verifier = Some (os_publicKey demo_signer),
     ss_policyVersion = Some (JInt 7)\<rparr>"

lemma demo_open:
  "openPolicy demo_lib True sample_policy ''t'' None None (Some (demo_signer, None)) (Some ''r'')
     (fresh_policy_db demo_gate_db demo_enroll_db) = (demo_db, Some demo_service)"
  by (simp add: openPolicy_def appAttestVerifier_def sample_policy_def app_id_pattern_def demo_lib_def sample_x509_def
      demo_db_def demo_service_def fresh_policy_db_def fresh_relay_db_def initializeObservationRelay_def confidence_initialize_def
      list_all_iff Let_def)

text \<open>The stretches of the call on this input.\<close>

lemma js_bytes_enc:
  assumes "b \<noteq> []" and "length b \<le> limit"
  shows "js_bytes (JStr (b64_enc b)) limit False = Some b"
proof -
  have "(length b + 2) div 3 * 4 \<le> (limit + 2) div 3 * 4" using assms(2) by (simp add: div_le_mono)
  moreover have "b64_enc b \<noteq> []" using assms(1) length_b64_enc [of b] by (cases b) auto
  ultimately show ?thesis using assms by (auto simp: js_bytes_def Let_def length_b64_enc simp del: b64_enc.simps)
qed

definition demo_envelope :: ObservationEnvelope where
  "demo_envelope = \<lparr>oe_transcript = b64_enc (transcript_bytes demo_transcript), oe_assertion = b64_enc sample_assertion,
     oe_key_id = b64_enc (zeros 32), oe_pi_a = [''1'', ''2'', ''1''], oe_pi_b = [[''1'', ''2''], [''3'', ''4''], [''1'', ''0'']],
     oe_pi_c = [''1'', ''2'', ''1''], oe_public = [''0'', ''0'', ''0'', ''5'', ''0'', ''0'', ''1''], oe_evidence = None\<rparr>"

definition demo_context :: receipt_context where
  "demo_context = \<lparr>rc_envelope = demo_envelope, rc_hash = hex_of_bytes (zeros 32), rc_match = True,
     rc_digest = hex_of_bytes (zeros 32), rc_transcript = demo_transcript\<rparr>"

lemma demo_transcript_valid: "validateObservationTranscript demo_transcript (JInt 0)"
  by (simp add: demo_transcript_def sample_transcript_def sample_challenge_def validateObservationTranscript_def
      challenge_ok_def local_ok_def field_ok_def u64_ok_def all_zero_def BN254_MODULUS_def
      zeros_def [of 6] replicate_eq_replicate list_all_iff)

lemma demo_transcript_bytes: "transcript_bytes demo_transcript \<noteq> [] \<and> length (transcript_bytes demo_transcript) = 596"
  using length_transcript_bytes [OF demo_transcript_valid] by (auto simp: demo_transcript_def sample_transcript_def)

lemma sample_assertion_bytes: "sample_assertion \<noteq> [] \<and> length sample_assertion \<le> 16384"
  by (simp add: sample_assertion_def cbor_eval)

lemma demo_inputs: "expected_inputs (\<lambda>_. 0) demo_transcript = [''0'', ''0'', ''5'', ''0'', ''0'', ''1'']"
  by code_simp

lemma demo_parse:
  "parseObservationEnvelope (\<lambda>_. zeros 32) (\<lambda>_. 0) demo_value True = Some (demo_envelope, hex_of_bytes (zeros 32), True)"
proof -
  have b: "js_bytes (JStr (b64_enc (transcript_bytes demo_transcript))) 611 False = Some (transcript_bytes demo_transcript)"
    "js_bytes (JStr (b64_enc sample_assertion)) 16384 False = Some sample_assertion"
    using js_bytes_enc [of "transcript_bytes demo_transcript" 611] js_bytes_enc [of sample_assertion 16384]
      demo_transcript_bytes sample_assertion_bytes by (auto simp del: b64_enc.simps)
  have d: "decodeObservationTranscript (transcript_bytes demo_transcript) (JInt 0) = Some demo_transcript"
    by (rule decode_transcript_bytes [OF demo_transcript_valid])
  have k: "parse_key_id (JStr (b64_enc (zeros 32))) = Some (b64_enc (zeros 32))"
    using length_b64_enc [of "zeros 32"] by (auto simp: parse_key_id_def simp del: b64_enc.simps)
  have "ot_evidenceHash demo_transcript = observationEvidenceHash (\<lambda>_. zeros 32) None"
    by (simp add: demo_transcript_def sample_transcript_def observationEvidenceHash_def)
  then show ?thesis
    by (simp add: parseObservationEnvelope_def demo_value_def js_record_def b d k parse_evidence_def demo_inputs sample_decimals
        parse_proof_def js_point_def demo_envelope_def Let_def BN254_MODULUS_def BN254_BASE_FIELD_def del: b64_enc.simps)
qed

lemma demo_started: "receive_start demo_lib demo_value demo_db = Continue demo_context"
proof -
  have "decodeObservationTranscript (b64_dec (oe_transcript demo_envelope)) (JInt 0) = Some demo_transcript"
    using decode_transcript_bytes [OF demo_transcript_valid] by (simp add: demo_envelope_def del: b64_enc.simps)
  then show ?thesis
    by (simp add: receive_start_def demo_lib_def demo_parse previous_def demo_db_def fresh_policy_db_def envelope_digest_def
        demo_context_def Let_def)
qed


definition demo_key :: "int \<Rightarrow> VerifiedAppAttestKey" where
  "demo_key n = (sample_key n)\<lparr>ak_appID := ''ABCDEFGHIJ.app'', ak_environment := Production\<rparr>"

lemma demo_asserted:
  "verifyAssertion sample_x509 \<lparr>av_policy = sample_policy, av_rpID = zeros 32\<rparr> (demo_key 3) sample_assertion (zeros 32) True =
     Inr (demo_key 5)"
proof -
  have p: "parseAuthenticatorData (zeros 32 @ [0] @ be_num 4 5) False = Some \<lparr>ad_rpID = zeros 32, ad_flags = 0, ad_counter = 5,
      ad_credentialID = None, ad_coseKey = None, ad_extensions = None\<rparr>"
    by (simp add: parseAuthenticatorData_def parseExtensions_def nth_append offset_simps)
  show ?thesis
    by (simp add: verifyAssertion_def checkChallenge_def sample_key_def demo_key_def sample_policy_def decodeKeyID_enc
        sample_assertion_decoded as_map_def requireCborMap_def p [simplified] extensionValues_def category_allowed_def
        checkBundleVersion_def sample_x509_def)
qed

lemma demo_policy_key: "policy_key (b64_enc (zeros 32)) demo_db = Some (demo_key 3)"
  by (simp add: policy_key_def demo_db_def fresh_policy_db_def demo_enroll_db_def demo_gate_db_def getKey_def demo_key_def sample_key_def
      del: b64_enc.simps)

lemma demo_time: "checkTime demo_transcript (JInt 60) (JInt 300000) = Inr 300000"
  by (simp add: checkTime_def demo_transcript_def sample_transcript_def)

lemma demo_device:
  "device_known demo_lib demo_snapshot demo_transcript \<and> device_signed demo_lib demo_transcript \<and> counter_enabled demo_snapshot \<and>
   checkCounters demo_transcript d demo_db \<and> ot_observerClass demo_transcript = JInt 1 \<and> \<not> rssi_weak demo_snapshot demo_transcript \<and>
   \<not> 800 < median_twice (map (jint \<circ> tc_roundTripMilliseconds) (ot_challenges demo_transcript))"
  by (simp add: device_known_def device_signed_def counter_enabled_def checkCounters_def device_counter_def rssi_weak_def median_twice_def
      demo_transcript_def demo_snapshot_def demo_lib_def sample_transcript_def sample_challenge_def accept_all_def demo_db_def
      fresh_policy_db_def Let_def)

lemma demo_checked:
  "receive_checked demo_lib demo_service demo_context (Inr demo_snapshot) (JInt 300000) demo_db =
     Continue (demo_snapshot, demo_key 3, demo_key 5)"
proof -
  have f: "rc_transcript demo_context = demo_transcript" "rc_envelope demo_context = demo_envelope" "rc_match demo_context"
      "rc_hash demo_context = hex_of_bytes (zeros 32)" "rc_digest demo_context = hex_of_bytes (zeros 32)"
      "oe_key_id demo_envelope = b64_enc (zeros 32)" "b64_dec (oe_assertion demo_envelope) = sample_assertion"
      "oe_public demo_envelope ! 0 = ''0''"
    by (simp_all add: demo_context_def demo_envelope_def del: b64_enc.simps)
  have s: "ss_epochSeconds demo_snapshot = JInt 60" "ss_minimumRSSI demo_snapshot = JInt (-100)" "ss_roots demo_snapshot = [''0'']"
    "lib_x509 demo_lib = sample_x509" "sp_attest demo_service = \<lparr>av_policy = sample_policy, av_rpID = zeros 32\<rparr>"
    by (simp_all add: demo_snapshot_def demo_lib_def demo_service_def)
  have "previous h d demo_db = Inr False" for h d by (simp add: previous_def demo_db_def fresh_policy_db_def)
  with demo_device demo_asserted show ?thesis
    by (simp add: receive_checked_def f s demo_policy_key demo_time del: b64_enc.simps)
qed


definition demo_proof :: bytes where
  "demo_proof = the (relayProofBytes
     (JObj [(''pi_a'', JArr [JStr ''1'', JStr ''2'', JStr ''1'']),
        (''pi_b'', JArr [JArr [JStr ''1'', JStr ''2''], JArr [JStr ''3'', JStr ''4''], JArr [JStr ''1'', JStr ''0'']]),
        (''pi_c'', JArr [JStr ''1'', JStr ''2'', JStr ''1'']), (''protocol'', JStr ''groth16''), (''curve'', JStr ''bn128'')])
     (JArr (map JStr [''0'', ''0'', ''0'', ''5'', ''0'', ''0'', ''1''])))"

definition demo_payload :: "string \<Rightarrow> ObservationRelayPayload" where
  "demo_payload signature = \<lparr>rp_auth = \<lparr>au_transcriptHash = hex_of_bytes (zeros 32), au_nullifier = hex_of_bytes (zeros 32),
       au_pseudonym = hex_of_bytes (zeros 32), au_observerClass = JInt 1, au_policyVersion = JInt 7,
       au_evidenceHash = Some (hex_of_bytes (zeros 32))\<rparr>,
     rp_protocolID = hex_of_bytes (replicate 32 1), rp_deviceID = hex_of_bytes (zeros 32), rp_epoch = JInt 5,
     rp_proofBytes = hex_of_bytes demo_proof, rp_verifier = os_publicKey demo_signer, rp_verifierSignature = signature\<rparr>"

lemma demo_proof_Some: "relayProofBytes (proof_value demo_envelope) (public_value demo_envelope) = Some demo_proof"
proof -
  obtain h where "relayProofBytes (proof_value demo_envelope) (public_value demo_envelope) = Some h"
    using parse_accepted [OF demo_parse] relayProofBytes_shape [of demo_envelope] by metis
  then show ?thesis by (simp add: demo_proof_def proof_value_def public_value_def demo_envelope_def)
qed

lemma demo_payload_valid: "validPayload (lib_chain demo_lib) (lib_ed demo_lib) (demo_payload (hex_of_bytes (zeros 64)))"
  by code_simp

lemma demo_sign: "signer_sign (lib_chain demo_lib) (lib_ed demo_lib) demo_signer (rp_auth (demo_payload [])) = Some (hex_of_bytes (zeros 64))"
  by code_simp

lemma demo_relay_payload: "relay_payload demo_service demo_context demo_snapshot = Inr (Some (demo_payload []))"
  using demo_proof_Some
  by (simp add: relay_payload_def demo_service_def demo_context_def demo_snapshot_def demo_payload_def Let_def)
    (simp add: demo_transcript_def sample_transcript_def)

lemma demo_committed:
  "\<exists>db'. receive_commit demo_lib demo_service demo_context (demo_snapshot, demo_key 3, demo_key 5) (Some True) (JInt 300000) demo_db =
     (db', Inr (hex_of_bytes (zeros 32)))"
proof -
  have f: "rc_transcript demo_context = demo_transcript" "rc_envelope demo_context = demo_envelope"
      "rc_hash demo_context = hex_of_bytes (zeros 32)" "oe_key_id demo_envelope = b64_enc (zeros 32)"
      "ot_nullifier demo_transcript = zeros 32"
    by (simp_all add: demo_context_def demo_envelope_def demo_transcript_def sample_transcript_def del: b64_enc.simps)
  have s: "ss_epochSeconds demo_snapshot = JInt 60" "\<not> ss_nullifierUsed demo_snapshot" "sp_relay demo_service = Some (demo_signer, 100000)"
      "sp_capacity demo_service = 100000"
    by (simp_all add: demo_snapshot_def demo_service_def)
  have d: "pd_validations demo_db = []" "rb_jobs (pd_relay demo_db) = []" "pd_confidence demo_db = []" "pd_owners demo_db = Map.empty"
      "gd_keys (pd_gate demo_db) = gd_keys demo_gate_db"
    by (simp_all add: demo_db_def fresh_policy_db_def fresh_relay_db_def)
  let ?w = "write_validation demo_context demo_snapshot (demo_key 3) (demo_key 5) 300000 demo_db"
  obtain db1 where c: "record_confidence demo_lib demo_service demo_context ?w = Inr db1" "pd_validations db1 = pd_validations ?w"
      "pd_owners db1 = Map.empty" "rb_jobs (pd_relay db1) = []"
    by (auto simp: record_confidence_def confidence_record_def demo_service_def write_validation_def Let_def d)
  obtain db2 where o: "claim_owner demo_service demo_context db1 = Inr db2" "pd_validations db2 = pd_validations ?w" "rb_jobs (pd_relay db2) = []"
    by (auto simp: claim_owner_def c Let_def)
  have r: "receipts db2 (hex_of_bytes (zeros 32)) = Some (hex_of_bytes (zeros 32))"
    by (simp add: receipts_def o write_validation_def Let_def d f)
  obtain db3 where q: "queue_relay demo_lib demo_service (Some (demo_payload [])) db2 = Inr db3"
    using demo_payload_valid r
    by (simp add: queue_relay_def s demo_sign queueValidatedObservation_def o Let_def) (simp add: demo_payload_def)
  have "receive_transaction demo_lib demo_service demo_context demo_snapshot (demo_key 3) (demo_key 5) (Some (demo_payload [])) 300000 demo_db
      = Inr db3"
    using demo_device demo_policy_key
    by (simp add: receive_transaction_def f s d nullifier_used_def c o q Let_def)
      (simp add: demo_gate_db_def counter_hit_def demo_key_def sample_key_def del: b64_enc.simps)
  then show ?thesis
    using demo_device by (simp add: receive_commit_def previous_cases previous_def d f s demo_time demo_relay_payload nullifier_used_def)
qed

lemma demo_run:
  "policy_run demo_lib demo_service (demo_db, []) (demo_db, [AwaitProof demo_context (demo_snapshot, demo_key 3, demo_key 5)])"
proof -
  have "policy_step demo_lib demo_service (demo_db, []) (demo_db, [AwaitSnapshot demo_context])"
    using policy_step.arrive [OF demo_started, of _ "[]"] by simp
  moreover have "policy_step demo_lib demo_service (demo_db, [AwaitSnapshot demo_context])
      (demo_db, [AwaitProof demo_context (demo_snapshot, demo_key 3, demo_key 5)])"
    using policy_step.resume [OF demo_checked, of "[]" "[]"] by simp
  ultimately show ?thesis by (meson policy_run.intros)
qed



end
