(* ===== verification/Doubles.thy ===== *)
theory Doubles
  imports Prelude
begin

text \<open>
  The double-precision arithmetic behind \<^verbatim>\<open>Math.floor(a / b)\<close>.  Numbers are integers or quotients of
  integers; a product or a quotient is rounded to 53 significant bits, ties to even, before it is floored.
  Within the safe range the rounding is invisible to the floor, which the theory proves; beyond it the model
  rounds as the machine does.
\<close>

text \<open>\<^verbatim>\<open>n.toString(2).length\<close>.\<close>

fun bit_length :: "nat \<Rightarrow> nat" where
  "bit_length n = (if n < 2 then 1 else Suc (bit_length (n div 2)))"

declare bit_length.simps [simp del]

definition round_half_even :: "nat \<Rightarrow> nat \<Rightarrow> nat" where
  "round_half_even p q =
     (let m = p div q; r = p mod q in if 2 * r < q \<or> (2 * r = q \<and> even m) then m else m + 1)"

text \<open>The integer part of the double nearest to \<open>a / b\<close>.  Below \<open>2 ^ 53\<close> the quotient is scaled up by the
  power of two that leaves 53 bits; above, it is a multiple of a power of two.\<close>

definition scale_up :: "nat \<Rightarrow> nat \<Rightarrow> nat" where
  "scale_up a b = (let k = 52 + bit_length b - bit_length a in if b * 2 ^ 52 \<le> a * 2 ^ k then k else k + 1)"

definition scale_down :: "nat \<Rightarrow> nat \<Rightarrow> nat" where
  "scale_down a b = (let k = bit_length a - bit_length b - 53 in if a < b * 2 ^ (53 + k) then k else k + 1)"

definition floor_quot :: "nat \<Rightarrow> nat \<Rightarrow> nat" where
  "floor_quot a b =
     (if a = 0 then 0
      else if a < b * 2 ^ 53 then let k = scale_up a b in round_half_even (a * 2 ^ k) b div 2 ^ k
      else let k = scale_down a b in round_half_even a (b * 2 ^ k) * 2 ^ k)"

text \<open>An integer as a double, and the floor of a quotient of a rounded product.\<close>

definition to_double :: "nat \<Rightarrow> nat" where
  "to_double n = floor_quot n 1"

lemma bit_length_bounds: "n < 2 ^ bit_length n \<and> (0 < n \<longrightarrow> 2 ^ (bit_length n - 1) \<le> n)"
proof (induction n rule: bit_length.induct)
  case (1 n)
  show ?case
  proof (cases "n < 2")
    case True
    then show ?thesis by (simp add: bit_length.simps [of n])
  next
    case False
    with 1 have b: "n div 2 < 2 ^ bit_length (n div 2)" "2 ^ (bit_length (n div 2) - 1) \<le> n div 2" by auto
    have "0 < bit_length (n div 2)" by (subst bit_length.simps) simp
    then obtain m where m: "bit_length (n div 2) = Suc m" by (cases "bit_length (n div 2)") auto
    with b have "n div 2 < 2 * 2 ^ m" "2 ^ m \<le> n div 2" by simp_all
    then have "n < 4 * 2 ^ m" "2 * 2 ^ m \<le> n" by linarith+
    with m False show ?thesis by (simp add: bit_length.simps [of n])
  qed
qed

lemma scale_up_enough:
  assumes "0 < a"
  shows "b * 2 ^ 52 \<le> a * 2 ^ scale_up a b"
proof (cases "b * 2 ^ 52 \<le> a * 2 ^ (52 + bit_length b - bit_length a)")
  case False
  let ?k = "52 + bit_length b - bit_length a"
  have a: "2 ^ (bit_length a - 1) \<le> a" using bit_length_bounds [of a] assms by blast
  have "bit_length a - 1 + Suc ?k \<ge> 52 + bit_length b" by linarith
  then have "(2 :: nat) ^ (52 + bit_length b) \<le> 2 ^ (bit_length a - 1) * 2 ^ Suc ?k"
    by (simp add: power_add [symmetric] del: power_Suc)
  also have "\<dots> \<le> a * 2 ^ Suc ?k" using a by (intro mult_right_mono) auto
  finally have "(2 :: nat) ^ 52 * 2 ^ bit_length b \<le> a * 2 ^ Suc ?k" by (simp only: power_add)
  moreover have "b * 2 ^ 52 \<le> 2 ^ bit_length b * 2 ^ 52" using bit_length_bounds [of b] by (intro mult_right_mono) auto
  ultimately show ?thesis using False by (simp add: scale_up_def Let_def mult.commute)
qed (simp add: scale_up_def)

text \<open>Rounding can only reach the next integer when the quotient has more than 53 significant bits.\<close>

lemma round_scaled_floor:
  assumes "a < 2 ^ 53" and "0 < b" and "b * 2 ^ 52 \<le> a * 2 ^ k"
  shows "round_half_even (a * 2 ^ k) b div 2 ^ k = a div b"
proof -
  let ?A = "a * 2 ^ k"
  have base: "?A div b div 2 ^ k = a div b" by (simp add: div_mult2_eq [symmetric] mult.commute)
  show ?thesis
  proof (cases "round_half_even ?A b = ?A div b")
    case True
    then show ?thesis using base by simp
  next
    case False
    then have up: "round_half_even ?A b = Suc (?A div b)" "b \<le> 2 * (?A mod b)"
      by (auto simp: round_half_even_def Let_def split: if_splits)
    have "Suc (?A div b) mod 2 ^ k \<noteq> 0"
    proof
      assume "Suc (?A div b) mod 2 ^ k = 0"
      then obtain t where t: "Suc (?A div b) = 2 ^ k * t" by (auto simp: mod_eq_0_iff_dvd elim: dvdE)
      have "b * Suc (?A div b) = ?A - ?A mod b + b" by (simp add: minus_mod_eq_mult_div)
      then have e: "2 ^ k * (b * t) = ?A - ?A mod b + b" unfolding t by (simp add: ac_simps)
      have r: "?A mod b < b" "?A mod b \<le> ?A" using assms(2) by simp_all
      then have "?A < 2 ^ k * (b * t)" using e by linarith
      then have "a < b * t" by (simp add: mult.commute)
      then have "2 ^ k * Suc a \<le> 2 ^ k * (b * t)" by (intro mult_left_mono) auto
      then have "2 ^ k + ?A \<le> ?A - ?A mod b + b" unfolding e by (simp add: algebra_simps)
      then have "2 ^ k * 2 \<le> b" using r up(2) by linarith
      then have "2 ^ k * 2 * 2 ^ 52 \<le> b * 2 ^ 52" by (rule mult_right_mono) simp
      then have "2 ^ 53 * 2 ^ k \<le> b * 2 ^ 52" by (simp only: power_Suc [of 2 52, simplified] ac_simps)
      with assms(3) have "2 ^ 53 * 2 ^ k \<le> ?A" by (rule order_trans [rotated])
      with assms(1) show False by simp
    qed
    then have "Suc (?A div b) div 2 ^ k = ?A div b div 2 ^ k" by (simp add: div_Suc)
    then show ?thesis using up(1) base by simp
  qed
qed

lemma floor_quot_exact:
  assumes "a < 2 ^ 53" and "0 < b"
  shows "floor_quot a b = a div b"
proof (cases "a = 0")
  case False
  have "a < b * 2 ^ 53" using assms by (cases b) auto
  with False show ?thesis using round_scaled_floor [OF assms scale_up_enough] by (simp add: floor_quot_def Let_def)
qed (simp add: floor_quot_def)

lemma to_double_exact: "n < 2 ^ 53 \<Longrightarrow> to_double n = n"
  by (simp add: to_double_def floor_quot_exact)

end
