(* ===== verification/Json_Parse.thy ===== *)
theory Json_Parse
  imports Json Doubles
begin

text \<open>
  \<^verbatim>\<open>JSON.parse\<close> on UTF-8 text.  A number is rounded to the nearest double and kept when it is an
  integer; an object keeps the last of equal keys, and enumerates keys that are array indices first, as
  JavaScript objects do.  The parser runs on fuel, twice the length of its input, and the theory shows that
  this is enough: what the printer of the theory \<^verbatim>\<open>Json\<close> prints parses back to the value.
\<close>

section \<open>Numbers\<close>

definition all_digits :: "string \<Rightarrow> bool" where
  "all_digits s = (s \<noteq> [] \<and> list_all is_digit s)"

text \<open>The double nearest to \<open>a / b\<close>: zero below the smallest positive one, no integer when it overflows.\<close>

definition underflow_scale :: nat where "underflow_scale = 2 ^ 1075"
definition overflow_bound :: nat where "overflow_bound = 2 ^ 1024 - 2 ^ 970"

definition js_quotient :: "nat \<Rightarrow> nat \<Rightarrow> jsnum" where
  "js_quotient a b =
     (if a * underflow_scale \<le> b then JInt 0
      else if b * overflow_bound \<le> a then JFrac
      else if b * 2 ^ 53 \<le> a then JInt (int (floor_quot a b))
      else let k = scale_up a b; m = round_half_even (a * 2 ^ k) b
           in if m mod 2 ^ k = 0 then JInt (int (m div 2 ^ k)) else JFrac)"

fun js_minus :: "jsnum \<Rightarrow> jsnum" where
  "js_minus (JInt i) = JInt (- i)"
| "js_minus JFrac = JFrac"

text \<open>An exponent: \<open>None\<close> when it is malformed.\<close>

definition jp_exponent :: "string \<Rightarrow> (int \<times> string) option" where
  "jp_exponent s =
     (case s of c # r \<Rightarrow>
        if c \<in> set ''eE'' then
          let (neg, r) = (case r of d # t \<Rightarrow> if d = CHR ''-'' then (True, t) else if d = CHR ''+'' then (False, t) else (False, r) | [] \<Rightarrow> (False, r));
              ds = takeWhile is_digit r
          in if ds = [] then None else Some (if neg then - int (dec_val_acc 0 ds) else int (dec_val_acc 0 ds), dropWhile is_digit r)
        else Some (0, s)
      | [] \<Rightarrow> Some (0, s))"

definition jp_fraction :: "string \<Rightarrow> (string \<times> string) option" where
  "jp_fraction s =
     (case s of c # r \<Rightarrow>
        if c = CHR ''.'' then let ds = takeWhile is_digit r in if ds = [] then None else Some (ds, dropWhile is_digit r)
        else Some ([], s)
      | [] \<Rightarrow> Some ([], s))"

definition jp_unsigned :: "string \<Rightarrow> (jsnum \<times> string) option" where
  "jp_unsigned s =
     (let ds = takeWhile is_digit s
      in if ds = [] then None
         else let (ip, r) = (if hd ds = CHR ''0'' then (''0'', tl s) else (ds, dropWhile is_digit s))
         in do {
           (fp, r) \<leftarrow> jp_fraction r;
           (e, r) \<leftarrow> jp_exponent r;
           let m = dec_val_acc 0 (ip @ fp);
           let e = e - int (length fp);
           Some (if e < 0 then js_quotient m (10 ^ nat (- e)) else js_quotient (m * 10 ^ nat e) 1, r) })"

definition jp_number :: "string \<Rightarrow> (jsnum \<times> string) option" where
  "jp_number s =
     (case s of c # r \<Rightarrow> if c = CHR ''-'' then map_option (\<lambda>(n, r). (js_minus n, r)) (jp_unsigned r) else jp_unsigned s
      | [] \<Rightarrow> None)"

section \<open>Strings\<close>

definition hex_digit_value :: "char \<Rightarrow> nat option" where
  "hex_digit_value c =
     (if is_hex_char c then Some (hex_value c)
      else if c \<in> set ''ABCDEF'' then Some (of_char c - 55) else None)"

definition hex_unit :: "char \<Rightarrow> char \<Rightarrow> char \<Rightarrow> char \<Rightarrow> nat option" where
  "hex_unit a b c d = do {
     a \<leftarrow> hex_digit_value a; b \<leftarrow> hex_digit_value b; c \<leftarrow> hex_digit_value c; d \<leftarrow> hex_digit_value d;
     Some (((a * 16 + b) * 16 + c) * 16 + d) }"

text \<open>The UTF-8 bytes of a code point; a lone surrogate keeps its three-byte form.\<close>

definition utf8 :: "nat \<Rightarrow> string" where
  "utf8 n = map char_of
     (if n < 0x80 then [n]
      else if n < 0x800 then [0xC0 + n div 64, 0x80 + n mod 64]
      else if n < 0x10000 then [0xE0 + n div 4096, 0x80 + n div 64 mod 64, 0x80 + n mod 64]
      else [0xF0 + n div 262144, 0x80 + n div 4096 mod 64, 0x80 + n div 64 mod 64, 0x80 + n mod 64])"

definition short_escape :: "char \<Rightarrow> char option" where
  "short_escape c = map_of [(quote, quote), (backslash, backslash), (CHR ''/'', CHR ''/''), (CHR ''b'', CHR 0x08),
     (CHR ''f'', CHR 0x0C), (CHR ''n'', CHR 0x0A), (CHR ''r'', CHR 0x0D), (CHR ''t'', CHR 0x09)] c"

text \<open>A low surrogate that follows, as an escape.\<close>

definition low_surrogate :: "string \<Rightarrow> nat option" where
  "low_surrogate s =
     (case s of e # u # a # b # c # d # _ \<Rightarrow>
        if e = backslash \<and> u = CHR ''u'' then
          (case hex_unit a b c d of None \<Rightarrow> None | Some n \<Rightarrow> if 0xDC00 \<le> n \<and> n < 0xE000 then Some n else None)
        else None
      | _ \<Rightarrow> None)"

definition push :: "string \<Rightarrow> (string \<times> string) option \<Rightarrow> (string \<times> string) option" where
  "push t p = map_option (\<lambda>(s, r). (t @ s, r)) p"

function jp_chars :: "string \<Rightarrow> (string \<times> string) option" where
  "jp_chars [] = None"
| "jp_chars (c # r) =
     (if c = quote then Some ([], r)
      else if c = backslash then
        (case r of [] \<Rightarrow> None
         | e # r1 \<Rightarrow>
             if e = CHR ''u'' then
               (case r1 of x1 # x2 # x3 # x4 # r2 \<Rightarrow>
                  (case hex_unit x1 x2 x3 x4 of None \<Rightarrow> None
                   | Some n \<Rightarrow>
                       (case low_surrogate r2 of
                          Some m \<Rightarrow> if 0xD800 \<le> n \<and> n < 0xDC00
                            then push (utf8 (0x10000 + (n - 0xD800) * 1024 + (m - 0xDC00))) (jp_chars (drop 6 r2))
                            else push (utf8 n) (jp_chars r2)
                        | None \<Rightarrow> push (utf8 n) (jp_chars r2)))
                | _ \<Rightarrow> None)
             else (case short_escape e of None \<Rightarrow> None | Some ch \<Rightarrow> push [ch] (jp_chars r1)))
      else if of_char c < (32 :: nat) then None
      else push [c] (jp_chars r))"
  by pat_completeness auto
termination by (relation "measure length") auto

section \<open>Values\<close>

definition json_space :: "char \<Rightarrow> bool" where
  "json_space c = (c = CHR '' '' \<or> c = CHR 0x09 \<or> c = CHR 0x0A \<or> c = CHR 0x0D)"

definition skip_ws :: "string \<Rightarrow> string" where
  "skip_ws s = dropWhile json_space s"

text \<open>Array indices are the decimals below \<open>2 ^ 32 - 1\<close>.\<close>

definition index_key :: "string \<Rightarrow> bool" where
  "index_key k = (is_decimal k \<and> dec_val k < 2 ^ 32 - 1)"

definition enumeration_order :: "(string \<times> 'a) list \<Rightarrow> (string \<times> 'a) list" where
  "enumeration_order fs = sort_key (dec_val \<circ> fst) (filter (index_key \<circ> fst) fs) @ filter (Not \<circ> index_key \<circ> fst) fs"

fun put_field :: "string \<Rightarrow> 'a \<Rightarrow> (string \<times> 'a) list \<Rightarrow> (string \<times> 'a) list" where
  "put_field k v [] = [(k, v)]"
| "put_field k v ((k', w) # fs) = (if k = k' then (k, v) # fs else (k', w) # put_field k v fs)"

definition object_of :: "(string \<times> jsval) list \<Rightarrow> jsval" where
  "object_of ms = JObj (enumeration_order (fold (\<lambda>(k, v). put_field k v) ms []))"

definition jp_literal :: "string \<Rightarrow> (jsval \<times> string) option" where
  "jp_literal s =
     (if take 4 s = ''null'' then Some (JNull, drop 4 s)
      else if take 4 s = ''true'' then Some (JBool True, drop 4 s)
      else if take 5 s = ''false'' then Some (JBool False, drop 5 s)
      else map_option (\<lambda>(n, r). (JNum n, r)) (jp_number s))"

fun jp_value :: "nat \<Rightarrow> string \<Rightarrow> (jsval \<times> string) option"
  and jp_elements :: "nat \<Rightarrow> string \<Rightarrow> (jsval list \<times> string) option"
  and jp_members :: "nat \<Rightarrow> string \<Rightarrow> ((string \<times> jsval) list \<times> string) option" where
  "jp_value 0 s = None"
| "jp_value (Suc n) s =
     (case skip_ws s of [] \<Rightarrow> None
      | c # r \<Rightarrow>
          if c = quote then map_option (\<lambda>(t, r). (JStr t, r)) (jp_chars r)
          else if c = CHR ''['' then
            (case skip_ws r of d # r' \<Rightarrow> if d = CHR '']'' then Some (JArr [], r')
                 else map_option (\<lambda>(vs, r). (JArr vs, r)) (jp_elements n r)
             | [] \<Rightarrow> None)
          else if c = CHR ''{'' then
            (case skip_ws r of d # r' \<Rightarrow> if d = CHR ''}'' then Some (JObj [], r')
                 else map_option (\<lambda>(ms, r). (object_of ms, r)) (jp_members n r)
             | [] \<Rightarrow> None)
          else jp_literal (c # r))"
| "jp_elements 0 s = None"
| "jp_elements (Suc n) s =
     (case jp_value n s of None \<Rightarrow> None
      | Some (v, r) \<Rightarrow>
          (case skip_ws r of [] \<Rightarrow> None
           | c # r' \<Rightarrow> if c = CHR '']'' then Some ([v], r')
               else if c = CHR '','' then map_option (\<lambda>(vs, r). (v # vs, r)) (jp_elements n r')
               else None))"
| "jp_members 0 s = None"
| "jp_members (Suc n) s =
     (case skip_ws s of [] \<Rightarrow> None
      | q # r0 \<Rightarrow> if q \<noteq> quote then None else
          (case jp_chars r0 of None \<Rightarrow> None
           | Some (k, r1) \<Rightarrow>
               (case skip_ws r1 of [] \<Rightarrow> None
                | c # r2 \<Rightarrow> if c \<noteq> CHR '':'' then None else
                    (case jp_value n r2 of None \<Rightarrow> None
                     | Some (v, r3) \<Rightarrow>
                         (case skip_ws r3 of [] \<Rightarrow> None
                          | d # r4 \<Rightarrow> if d = CHR ''}'' then Some ([(k, v)], r4)
                              else if d = CHR '','' then map_option (\<lambda>(ms, r). ((k, v) # ms, r)) (jp_members n r4)
                              else None)))))"

definition json_parse :: "string \<Rightarrow> jsval option" where
  "json_parse s =
     (case jp_value (2 * length s + 2) s of None \<Rightarrow> None
      | Some (v, r) \<Rightarrow> if skip_ws r = [] then Some v else None)"


section \<open>The fuel is enough\<close>

text \<open>Every part consumes input.\<close>

lemma jp_chars_less: "jp_chars s = Some (t, r) \<Longrightarrow> length r < length s"
proof (induction s arbitrary: t r rule: jp_chars.induct)
  case (2 c s)
  then show ?case
    by (fastforce simp: push_def split: if_splits list.splits option.splits)
qed simp

lemma jp_fraction_le: "jp_fraction s = Some (t, r) \<Longrightarrow> length r \<le> length s"
  by (auto simp: jp_fraction_def Let_def length_dropWhile_le le_SucI split: list.splits if_splits)

lemma jp_exponent_le: "jp_exponent s = Some (t, r) \<Longrightarrow> length r \<le> length s"
  by (auto simp: jp_exponent_def Let_def length_dropWhile_le le_SucI split: list.splits if_splits)

lemma jp_unsigned_less: "jp_unsigned s = Some (n, r) \<Longrightarrow> length r < length s"
proof -
  assume a: "jp_unsigned s = Some (n, r)"
  then have ds: "takeWhile is_digit s \<noteq> []" by (auto simp: jp_unsigned_def Let_def)
  then have "length (dropWhile is_digit s) < length s" "length (tl s) < length s"
    by (cases s; simp add: length_dropWhile_le le_imp_less_Suc split: if_splits)+
  with a ds show ?thesis
    by (auto simp: jp_unsigned_def Let_def Option.bind_eq_Some_conv split: if_splits dest!: jp_fraction_le jp_exponent_le)
qed

lemma jp_literal_less: "jp_literal s = Some (v, r) \<Longrightarrow> length r < length s"
proof (cases s)
  case (Cons c t)
  assume "jp_literal s = Some (v, r)"
  then show ?thesis unfolding Cons
    by (auto simp: jp_literal_def jp_number_def split: if_splits dest!: jp_unsigned_less)
qed (simp add: jp_literal_def jp_number_def)

lemma skip_ws_Cons: "skip_ws s = c # r \<Longrightarrow> length r < length s"
  using length_dropWhile_le [of json_space s] by (simp add: skip_ws_def)

lemma jp_less:
  "jp_value n s = Some (v, r) \<Longrightarrow> length r < length s"
  "jp_elements n s = Some (vs, r) \<Longrightarrow> length r < length s"
  "jp_members n s = Some (ms, r) \<Longrightarrow> length r < length s"
proof (induction n s and n s and n s arbitrary: v r and vs r and ms r rule: jp_value_jp_elements_jp_members.induct)
  case (2 n s)
  then show ?case
    by (auto split: list.splits if_splits dest!: skip_ws_Cons jp_chars_less jp_literal_less) (meson less_trans | fastforce)+
next
  case (4 n s)
  from 4(3) obtain v r1 where v: "jp_value n s = Some (v, r1)" by (auto split: option.splits)
  from 4(3) v obtain c r2 where c: "skip_ws r1 = c # r2" by (auto split: list.splits)
  have "length r2 < length s" using 4(1) [OF v] skip_ws_Cons [OF c] by simp
  moreover have "r = r2 \<or> (\<exists>us. jp_elements n r2 = Some (us, r))" using 4(3) v c by (auto split: if_splits)
  moreover have "length r < length r2" if "jp_elements n r2 = Some (us, r)" "r \<noteq> r2" for us
    using 4(2) [OF v refl c] 4(3) v c that by (auto split: if_splits)
  ultimately show ?case by (cases "r = r2") (auto intro: less_trans)
next
  case (6 n s)
  from 6(3) obtain q r0 where q: "skip_ws s = q # r0" "q = quote" by (auto split: list.splits if_splits)
  from 6(3) q obtain k r1 where k: "jp_chars r0 = Some (k, r1)" by (auto split: option.splits)
  from 6(3) q k obtain c r2 where c: "skip_ws r1 = c # r2" "c = CHR '':''" by (auto split: list.splits if_splits)
  from 6(3) q k c obtain v r3 where v: "jp_value n r2 = Some (v, r3)" by (auto split: option.splits)
  from 6(3) q k c v obtain d r4 where d: "skip_ws r3 = d # r4" by (auto split: list.splits)
  have "\<not> q \<noteq> quote" "\<not> c \<noteq> CHR '':''" using q c by simp_all
  note ih = 6(1) [OF q(1) this(1) k refl c(1) this(2) v] 6(2) [OF q(1) this(1) k refl c(1) this(2) v refl d]
  have l: "length r4 < length s"
    using ih(1) skip_ws_Cons [OF q(1)] jp_chars_less [OF k] skip_ws_Cons [OF c(1)] skip_ws_Cons [OF d] by simp
  have "r = r4 \<or> (\<exists>us. jp_members n r4 = Some (us, r)) \<and> length r < length r4"
    using 6(3) q k c v d ih(2) by (auto split: if_splits)
  with l show ?case by auto
qed auto

lemma jp_fuel:
  "2 * length s < n \<Longrightarrow> jp_value (Suc n) s = jp_value n s"
  "2 * length s + 1 < n \<Longrightarrow> jp_elements (Suc n) s = jp_elements n s"
  "2 * length s + 1 < n \<Longrightarrow> jp_members (Suc n) s = jp_members n s"
proof (induction n s and n s and n s rule: jp_value_jp_elements_jp_members.induct)
  case (2 n s)
  show ?case
  proof (cases "skip_ws s")
    case (Cons c r)
    have l: "2 * length r + 1 < n" using skip_ws_Cons [OF Cons] 2(3) by simp
    have "jp_elements (Suc n) r = jp_elements n r" if "c = CHR ''[''" "skip_ws r = d # t" "d \<noteq> CHR '']''" for d t
      using 2(1) [OF Cons _ _ that(2)] that l by (simp add: quote_def)
    moreover have "jp_members (Suc n) r = jp_members n r" if "c = CHR ''{''" "skip_ws r = d # t" "d \<noteq> CHR ''}''" for d t
      using 2(2) [OF Cons _ _ _ that(2)] that l by (simp add: quote_def)
    ultimately show ?thesis unfolding jp_value.simps(2) Cons by (simp split: list.splits)
  qed simp
next
  case (4 n s)
  have v: "jp_value (Suc n) s = jp_value n s" using 4(1,3) by simp
  show ?case
  proof (cases "jp_value n s")
    case (Some p)
    obtain v r1 where p: "p = (v, r1)" by (cases p)
    have "jp_elements (Suc n) r2 = jp_elements n r2" if "skip_ws r1 = CHR '','' # r2" for r2
      using 4(2) [OF Some p [symmetric] that] jp_less(1) [OF Some [unfolded p]] skip_ws_Cons [OF that] 4(3) by simp
    then show ?thesis unfolding jp_elements.simps(2) v Some p by (simp split: list.splits)
  next
    case None
    then show ?thesis unfolding jp_elements.simps(2) v by simp
  qed
next
  case (6 n s)
  have v: "jp_value (Suc n) r2 = jp_value n r2" if "skip_ws s = quote # r0" "jp_chars r0 = Some (k, r1)" "skip_ws r1 = CHR '':'' # r2" for r0 k r1 r2
    using 6(1) [OF that(1) _ that(2) refl that(3)] skip_ws_Cons [OF that(1)] jp_chars_less [OF that(2)] skip_ws_Cons [OF that(3)] 6(3)
    by simp
  have m: "jp_members (Suc n) r4 = jp_members n r4"
    if "skip_ws s = quote # r0" "jp_chars r0 = Some (k, r1)" "skip_ws r1 = CHR '':'' # r2" "jp_value n r2 = Some (w, r3)" "skip_ws r3 = CHR '','' # r4"
    for r0 k r1 r2 w r3 r4
    using 6(2) [OF that(1) _ that(2) refl that(3) _ that(4) refl that(5)] skip_ws_Cons [OF that(1)] jp_chars_less [OF that(2)]
      skip_ws_Cons [OF that(3)] jp_less(1) [OF that(4)] skip_ws_Cons [OF that(5)] 6(3) by simp
  show ?case unfolding jp_members.simps(2) [of "Suc n" s] jp_members.simps(2) [of n s]
    by (auto simp: v m simp del: jp_value.simps jp_elements.simps jp_members.simps split: list.splits option.splits)
qed auto

text \<open>With more fuel the parser gives the same answer: a failure is a syntax error.\<close>

lemma json_parse_fuel: "2 * length s < n \<Longrightarrow> jp_value (n + k) s = jp_value n s"
proof (induction k)
  case (Suc k)
  then show ?case using jp_fuel(1) [of s "n + k"] by (simp del: jp_value.simps)
qed simp

section \<open>Reading back what the printer prints\<close>

fun js_of_json :: "json \<Rightarrow> jsval" where
  "js_of_json JsonNull = JNull"
| "js_of_json (JsonBool b) = JBool b"
| "js_of_json (JsonInt i) = JNum (JInt i)"
| "js_of_json (JsonStr s) = JStr s"
| "js_of_json (JsonArr vs) = JArr (map js_of_json vs)"
| "js_of_json (JsonObj fs) = JObj (map (\<lambda>(k, v). (k, js_of_json v)) fs)"

text \<open>Safe integers, and objects with distinct keys none of which is an array index.\<close>

fun json_ok :: "json \<Rightarrow> bool" where
  "json_ok (JsonInt i) = (\<bar>i\<bar> < 2 ^ 53)"
| "json_ok (JsonArr vs) = list_all json_ok vs"
| "json_ok (JsonObj fs) = (distinct (map fst fs) \<and> list_all (\<lambda>(k, v). \<not> index_key k \<and> json_ok v) fs)"
| "json_ok _ = True"

lemma double_range: "2 ^ 53 \<le> overflow_bound" "2 \<le> underflow_scale"
  by (simp_all add: overflow_bound_def underflow_scale_def)

lemma js_quotient_int:
  assumes "n < 2 ^ 53"
  shows "js_quotient n 1 = JInt (int n)"
proof (cases "n = 0")
  case False
  have "\<not> overflow_bound \<le> n" using assms double_range(1) by linarith
  moreover have "1 * 2 \<le> n * underflow_scale" using False double_range(2) by (intro mult_le_mono) auto
  moreover have "round_half_even (n * 2 ^ k) 1 = n * 2 ^ k" for k by (simp add: round_half_even_def)
  ultimately show ?thesis using assms by (simp add: js_quotient_def Let_def)
qed (simp add: js_quotient_def)

lemma takeWhile_digits:
  "list_all is_digit ds \<Longrightarrow> r = [] \<or> \<not> is_digit (hd r) \<Longrightarrow> takeWhile is_digit (ds @ r) = ds \<and> dropWhile is_digit (ds @ r) = r"
  by (induction ds) (cases r; simp)+

lemma stop_number: "stop r \<Longrightarrow> (r = [] \<or> \<not> is_digit (hd r)) \<and> jp_fraction r = Some ([], r) \<and> jp_exponent r = Some (0, r)"
  by (cases r) (auto simp: stop_def is_digit_def dec_digits_def jp_fraction_def jp_exponent_def)

lemma jp_unsigned_str:
  assumes "n < 2 ^ 53" and "stop r"
  shows "jp_unsigned (dec_str_nat n @ r) = Some (JInt (int n), r)"
proof -
  note d = dec_str_nat_digits [of n] and s = stop_number [OF assms(2)]
  have t: "takeWhile is_digit (dec_str_nat n @ r) = dec_str_nat n" "dropWhile is_digit (dec_str_nat n @ r) = r"
    using takeWhile_digits [of "dec_str_nat n" r] d s by auto
  show ?thesis
  proof (cases "n = 0")
    case True
    then have "dec_str_nat n = ''0''" by (simp add: dec_str_nat.simps dec_digits_facts)
    with t s True show ?thesis using js_quotient_int [of 0] by (simp add: jp_unsigned_def dec_value_0)
  next
    case False
    with d have "hd (dec_str_nat n) \<noteq> CHR ''0''" "dec_str_nat n \<noteq> []" by auto
    with t s js_quotient_int [OF assms(1)] show ?thesis by (simp add: jp_unsigned_def dec_val_acc_str)
  qed
qed

lemma jp_number_str:
  assumes "\<bar>i\<bar> < 2 ^ 53" and "stop r"
  shows "jp_number (dec_str i @ r) = Some (JInt i, r)"
proof (cases "i < 0")
  case True
  then have "nat (- i) < 2 ^ 53" using assms(1) by (simp add: nat_less_iff)
  from jp_unsigned_str [OF this assms(2)] True show ?thesis by (simp add: jp_number_def dec_str_def)
next
  case False
  then have n: "nat i < 2 ^ 53" using assms(1) by (simp add: nat_less_iff)
  have "dec_str_nat (nat i) \<noteq> []" "hd (dec_str_nat (nat i)) \<noteq> CHR ''-''"
    using dec_str_nat_digits [of "nat i"] by (cases "dec_str_nat (nat i)"; auto simp: is_digit_def dec_digits_def)+
  then obtain c t where "dec_str_nat (nat i) = c # t" "c \<noteq> CHR ''-''" by (cases "dec_str_nat (nat i)") auto
  with jp_unsigned_str [OF n assms(2)] False show ?thesis by (simp add: jp_number_def dec_str_def)
qed

lemma hex_unit_small: "n < 32 \<Longrightarrow> hex_unit CHR ''0'' CHR ''0'' (hex_char (n div 16)) (hex_char (n mod 16)) = Some n"
proof -
  assume n: "n < 32"
  have "hex_digit_value (hex_char m) = Some m" if "m < 16" for m using that by (simp add: hex_digit_value_def)
  moreover have "hex_digit_value CHR ''0'' = Some 0" by (simp add: hex_digit_value_def is_hex_char_def hex_value_def hex_digits_def)
  ultimately show ?thesis using n by (simp add: hex_unit_def)
qed

lemma control_chars:
  "of_char c = (8 :: nat) \<longleftrightarrow> c = CHR 0x08" "of_char c = (9 :: nat) \<longleftrightarrow> c = CHR 0x09" "of_char c = (10 :: nat) \<longleftrightarrow> c = CHR 0x0A"
  "of_char c = (12 :: nat) \<longleftrightarrow> c = CHR 0x0C" "of_char c = (13 :: nat) \<longleftrightarrow> c = CHR 0x0D"
  using of_char_eq [of c "CHR 0x08"] of_char_eq [of c "CHR 0x09"] of_char_eq [of c "CHR 0x0A"] of_char_eq [of c "CHR 0x0C"]
    of_char_eq [of c "CHR 0x0D"] by simp_all

lemma jp_chars_escape: "jp_chars (json_escape c @ r) = push [c] (jp_chars r)"
proof (cases "c = quote \<or> c = backslash \<or> c \<in> {CHR 0x08, CHR 0x09, CHR 0x0A, CHR 0x0C, CHR 0x0D}")
  case True
  then show ?thesis by (auto simp: json_escape_def short_escape_def quote_def backslash_def)
next
  case c: False
  show ?thesis
  proof (cases "of_char c < (32 :: nat)")
    case True
    then have "json_escape c = [backslash, CHR ''u'', CHR ''0'', CHR ''0'', hex_char (of_char c div 16), hex_char (of_char c mod 16)]"
      using c by (simp add: json_escape_def control_chars)
    moreover have "utf8 (of_char c) = [c]" using True by (simp add: utf8_def)
    ultimately show ?thesis using True hex_unit_small [OF True] c
      by (cases "low_surrogate r") (simp_all add: quote_def backslash_def)
  next
    case False
    then show ?thesis using c by (simp add: json_escape_def control_chars)
  qed
qed

lemma jp_chars_str: "jp_chars (concat (map json_escape s) @ quote # r) = Some (s, r)"
  by (induction s) (simp_all add: jp_chars_escape push_def del: jp_chars.simps(2), simp)

lemma skip_ws_keep: "\<not> json_space c \<Longrightarrow> skip_ws (c # r) = c # r"
  by (simp add: skip_ws_def)

lemma skip_ws_punct [simp]:
  "skip_ws (CHR '','' # r) = CHR '','' # r" "skip_ws (CHR '']'' # r) = CHR '']'' # r" "skip_ws (CHR ''}'' # r) = CHR ''}'' # r"
  "skip_ws (CHR '':'' # r) = CHR '':'' # r" "skip_ws (CHR ''['' # r) = CHR ''['' # r" "skip_ws (CHR ''{'' # r) = CHR ''{'' # r"
  "skip_ws (quote # r) = quote # r" "skip_ws [] = []"
  by (simp_all add: skip_ws_def json_space_def quote_def)

lemma skip_ws_str [simp]: "skip_ws (json_str s @ r) = json_str s @ r"
  by (simp add: json_str_def)

lemma number_starts:
  obtains c t where "dec_str i = c # t" "number_char c" "\<not> json_space c" "c \<noteq> quote" "c \<notin> set ''[{ntf''"
proof -
  obtain c t where c: "dec_str i = c # t" "number_char c" using dec_str_chars [of i] by (cases "dec_str i") auto
  then have "\<not> json_space c" "c \<noteq> quote" "c \<notin> set ''[{ntf''"
    by (auto simp: number_char_def is_digit_def dec_digits_def json_space_def quote_def)
  with c that show thesis by blast
qed

lemma skip_ws_stringify [simp]: "skip_ws (stringify v @ r) = stringify v @ r"
proof (cases v)
  case (JsonInt i)
  then show ?thesis using number_starts [of i] by (metis append_Cons skip_ws_keep stringify.simps(3))
qed (auto simp: skip_ws_def json_space_def json_str_def quote_def)

lemma jp_literal_number:
  assumes "\<bar>i\<bar> < 2 ^ 53" and "stop r"
  shows "jp_literal (dec_str i @ r) = Some (JNum (JInt i), r)"
proof -
  obtain c t where c: "dec_str i = c # t" "c \<notin> set ''[{ntf''" using number_starts [of i] by metis
  with jp_number_str [OF assms] show ?thesis by (auto simp: jp_literal_def)
qed

lemma put_field_new: "k \<notin> fst ` set fs \<Longrightarrow> put_field k v fs = fs @ [(k, v)]"
  by (induction fs) auto

lemma put_fields_distinct:
  "distinct (map fst (acc @ ms)) \<Longrightarrow> fold (\<lambda>(k, v). put_field k v) ms acc = acc @ ms"
proof (induction ms arbitrary: acc)
  case (Cons m ms)
  obtain k v where m: "m = (k, v)" by (cases m)
  with Cons.prems have "put_field k v acc = acc @ [m]" by (simp add: put_field_new)
  with Cons m show ?case by simp
qed simp

lemma object_of_plain:
  assumes "distinct (map fst ms)" and "\<forall>m\<in>set ms. \<not> index_key (fst m)"
  shows "object_of ms = JObj ms"
proof -
  have "filter (index_key \<circ> fst) ms = []" "filter (Not \<circ> index_key \<circ> fst) ms = ms" using assms(2) by (auto simp: filter_empty_conv)
  with put_fields_distinct [of "[]" ms] assms(1) show ?thesis by (simp add: object_of_def enumeration_order_def)
qed

definition reads_back :: "json \<Rightarrow> bool" where
  "reads_back v = (\<forall>n r. stop r \<and> 2 * length (stringify v) \<le> n \<longrightarrow> jp_value n (stringify v @ r) = Some (js_of_json v, r))"

lemma jp_elements_back:
  assumes "\<forall>v\<in>set vs. reads_back v" and "vs \<noteq> []" and "2 * length (commas (map stringify vs)) + 1 \<le> n"
  shows "jp_elements n (commas (map stringify vs) @ CHR '']'' # r) = Some (map js_of_json vs, r)"
  using assms
proof (induction vs arbitrary: n)
  case (Cons v vs)
  then obtain m where n: "n = Suc m" by (cases n) auto
  have v: "jp_value m (stringify v @ u) = Some (js_of_json v, u)" if "stop u" for u
    using Cons.prems n that by (auto simp: reads_back_def commas_Cons split: if_splits)
  show ?case
  proof (cases "vs = []")
    case True
    then show ?thesis using v [of "CHR '']'' # r"] n by simp
  next
    case False
    have "jp_elements m (commas (map stringify vs) @ CHR '']'' # r) = Some (map js_of_json vs, r)"
      using Cons.IH [OF _ False, of m] Cons.prems n False by (auto simp: commas_Cons)
    with v [of "CHR '','' # commas (map stringify vs) @ CHR '']'' # r"] n False show ?thesis by (simp add: commas_Cons)
  qed
qed simp

lemma jp_members_back:
  assumes "\<forall>f\<in>set fs. reads_back (snd f)" and "fs \<noteq> []"
    and "2 * length (commas (map (\<lambda>(k, v). json_str k @ '':'' @ stringify v) fs)) + 1 \<le> n"
  shows "jp_members n (commas (map (\<lambda>(k, v). json_str k @ '':'' @ stringify v) fs) @ CHR ''}'' # r) =
    Some (map (\<lambda>(k, v). (k, js_of_json v)) fs, r)"
  using assms
proof (induction fs arbitrary: n)
  case (Cons f fs)
  let ?p = "\<lambda>(k, v). json_str k @ '':'' @ stringify v"
  obtain k v where f: "f = (k, v)" by (cases f)
  from Cons.prems obtain m where n: "n = Suc m" by (cases n) auto
  have v: "jp_value m (stringify v @ u) = Some (js_of_json v, u)" if "stop u" for u
    using Cons.prems n that f by (auto simp: reads_back_def commas_Cons split: if_splits)
  have k: "jp_chars (concat (map json_escape k) @ quote # u) = Some (k, u)" for u by (rule jp_chars_str)
  show ?case
  proof (cases "fs = []")
    case True
    then show ?thesis using v [of "CHR ''}'' # r"] k n f by (simp add: json_str_def)
  next
    case False
    have "jp_members m (commas (map ?p fs) @ CHR ''}'' # r) = Some (map (\<lambda>(k, v). (k, js_of_json v)) fs, r)"
      using Cons.IH [OF _ False, of m] Cons.prems n False by (auto simp: commas_Cons f)
    with v [of "CHR '','' # commas (map ?p fs) @ CHR ''}'' # r"] k n False f show ?thesis by (simp add: commas_Cons json_str_def)
  qed
qed simp

lemma first_not_close:
  assumes "\<And>x. starts_value (p x)" and "xs \<noteq> []" and "\<And>x u. skip_ws (p x @ u) = p x @ u" and "close \<in> set '']}''"
  obtains d t where "skip_ws (commas (map p xs) @ u) = d # t" "d \<noteq> close"
proof -
  obtain x ys where xs: "xs = x # ys" using assms(2) by (cases xs) auto
  obtain d t where "p x = d # t" "d \<notin> set '',]}''" using assms(1) [of x] by (cases "p x") (auto simp: starts_value_def)
  then show thesis using that [of d] assms(3) [of x "(if ys = [] then [] else CHR '','' # commas (map p ys)) @ u"] assms(4)
    by (auto simp: xs commas_Cons)
qed

lemma jp_value_word:
  assumes "t \<in> {''null'', ''true'', ''false''}" and "0 < n"
  shows "jp_value n (t @ r) = jp_literal (t @ r)"
proof -
  obtain m where "n = Suc m" using assms(2) by (cases n) auto
  with assms(1) show ?thesis by (auto simp: skip_ws_def json_space_def quote_def)
qed

lemma stringify_reads_back: "json_ok v \<Longrightarrow> reads_back v"
proof (induction v)
  case JsonNull
  then show ?case using jp_value_word [of "''null''"] by (simp add: reads_back_def jp_literal_def)
next
  case (JsonBool b)
  then show ?case using jp_value_word [of "if b then ''true'' else ''false''"]
    by (cases b) (simp_all add: reads_back_def jp_literal_def)
next
  case (JsonInt i)
  obtain c t where c: "dec_str i = c # t" "\<not> json_space c" "c \<noteq> quote" "c \<notin> set ''[{ntf''" using number_starts [of i] by metis
  have "jp_value n (dec_str i @ r) = Some (JNum (JInt i), r)" if st: "stop r" and len: "2 * length (dec_str i) \<le> n" for n r
  proof -
    obtain m where "n = Suc m" using len c by (cases n) auto
    then show ?thesis using c jp_literal_number [OF _ st, of i] JsonInt by (simp add: skip_ws_keep)
  qed
  then show ?case by (simp add: reads_back_def)
next
  case (JsonStr s)
  have "jp_value n (json_str s @ r) = Some (JStr s, r)" if len: "2 * length (json_str s) \<le> n" for n r
  proof -
    obtain m where "n = Suc m" using len by (cases n) (auto simp: json_str_def)
    then show ?thesis using jp_chars_str by (simp add: json_str_def)
  qed
  then show ?case by (simp add: reads_back_def)
next
  case (JsonArr vs)
  have rb: "\<forall>v\<in>set vs. reads_back v" using JsonArr by (auto simp: list_all_iff)
  show ?case unfolding reads_back_def
  proof (intro allI impI)
    fix n r assume a: "stop r \<and> 2 * length (stringify (JsonArr vs)) \<le> n"
    then obtain m where m: "n = Suc m" "2 * length (commas (map stringify vs)) + 1 \<le> m" by (cases n) auto
    show "jp_value n (stringify (JsonArr vs) @ r) = Some (js_of_json (JsonArr vs), r)"
    proof (cases "vs = []")
      case True
      then show ?thesis using m by (simp add: quote_def)
    next
      case False
      obtain d t where "skip_ws (commas (map stringify vs) @ CHR '']'' # r) = d # t" "d \<noteq> CHR '']''"
        by (rule first_not_close [of stringify vs "CHR '']''" "CHR '']'' # r"]) (use stringify_head False in auto)
      then show ?thesis using m jp_elements_back [OF rb False m(2)] by (simp add: quote_def)
    qed
  qed
next
  case (JsonObj fs)
  let ?p = "\<lambda>(k, v). json_str k @ '':'' @ stringify v"
  have rb: "\<forall>f\<in>set fs. reads_back (snd f)"
  proof
    fix f assume f: "f \<in> set fs"
    obtain k v where kv: "f = (k, v)" by (cases f)
    have "json_ok v" using JsonObj.prems f kv by (auto simp: list_all_iff)
    with JsonObj.IH [OF f] kv show "reads_back (snd f)" by (auto simp: Basic_BNFs.snds.simps)
  qed
  have ob: "object_of (map (\<lambda>(k, v). (k, js_of_json v)) fs) = JObj (map (\<lambda>(k, v). (k, js_of_json v)) fs)"
    using JsonObj.prems by (intro object_of_plain) (auto simp: list_all_iff comp_def case_prod_beta')
  show ?case unfolding reads_back_def
  proof (intro allI impI)
    fix n r assume a: "stop r \<and> 2 * length (stringify (JsonObj fs)) \<le> n"
    then obtain m where m: "n = Suc m" "2 * length (commas (map ?p fs)) + 1 \<le> m" by (cases n) auto
    show "jp_value n (stringify (JsonObj fs) @ r) = Some (js_of_json (JsonObj fs), r)"
    proof (cases "fs = []")
      case True
      then show ?thesis using m by (simp add: quote_def)
    next
      case False
      have "starts_value (?p f)" "skip_ws (?p f @ u) = ?p f @ u" for f u
        by (cases f; simp add: starts_value_def json_str_def quote_def skip_ws_def json_space_def)+
      then obtain d t where "skip_ws (commas (map ?p fs) @ CHR ''}'' # r) = d # t" "d \<noteq> CHR ''}''"
        using False by (auto intro: first_not_close [of ?p fs "CHR ''}''" "CHR ''}'' # r"])
      then show ?thesis using m jp_members_back [OF rb False m(2)] ob by (simp add: quote_def)
    qed
  qed
qed

text \<open>Printing and parsing are inverse on what the services store.\<close>

lemma json_parse_stringify: "json_ok v \<Longrightarrow> json_parse (stringify v) = Some (js_of_json v)"
  using stringify_reads_back [of v] by (auto simp: reads_back_def json_parse_def dest!: spec [of _ "2 * length (stringify v) + 2"] spec [of _ "[]"])

end
