(* ===== verification/Canonical.thy ===== *)
theory Canonical
  imports Json_Parse "HOL-Library.Multiset" "HOL-Library.List_Lexorder" "HOL-Library.Char_ord"
begin

text \<open>
  The canonical text of confidence reports (\<^verbatim>\<open>canonicalConfidenceBytes\<close>, \<^verbatim>\<open>digest\<close> and
  \<^verbatim>\<open>confidenceCommitment\<close> of \<^verbatim>\<open>confidence.ts\<close>).  Keys are compared by their bytes, which for the ASCII keys
  of reports is JavaScript's order; \<^verbatim>\<open>Object.fromEntries\<close> enumerates array indices first.  The theory shows
  that two values have the same canonical text exactly when they differ at most in the order of object keys.
\<close>

section \<open>Canonical text\<close>

fun canonical :: "jsval \<Rightarrow> json option" where
  "canonical JNull = Some JsonNull"
| "canonical (JStr s) = Some (JsonStr s)"
| "canonical (JBool b) = Some (JsonBool b)"
| "canonical (JNum n) = (if int_in n (- (2 ^ 53 - 1)) (2 ^ 53 - 1) then Some (JsonInt (jint n)) else None)"
| "canonical (JArr vs) = map_option JsonArr (those (map canonical vs))"
| "canonical (JObj fs) = map_option (\<lambda>gs. JsonObj (enumeration_order (sort_key fst gs)))
     (those (map (\<lambda>(k, v). map_option (Pair k) (canonical v)) fs))"
| "canonical JUndef = None"

definition canonicalConfidenceBytes :: "jsval \<Rightarrow> bytes option" where
  "canonicalConfidenceBytes v = map_option (bytes_of_string \<circ> stringify) (canonical v)"

definition confidence_digest :: "hash \<Rightarrow> string \<Rightarrow> jsval \<Rightarrow> string option" where
  "confidence_digest sha domain v = map_option (\<lambda>b. hex_of_bytes (sha (bytes_of_string domain @ b))) (canonicalConfidenceBytes v)"

definition confidenceCommitment :: "hash \<Rightarrow> jsval \<Rightarrow> string option" where
  "confidenceCommitment sha report = confidence_digest sha ''Pathnod/confidence/v0'' report"

section \<open>Values up to the order of keys\<close>

inductive js_equiv :: "jsval \<Rightarrow> jsval \<Rightarrow> bool" where
  equiv_null: "js_equiv JNull JNull"
| equiv_str: "js_equiv (JStr s) (JStr s)"
| equiv_bool: "js_equiv (JBool b) (JBool b)"
| equiv_num: "js_equiv (JNum n) (JNum n)"
| equiv_arr: "list_all2 js_equiv vs ws \<Longrightarrow> js_equiv (JArr vs) (JArr ws)"
| equiv_obj: "list_all2 (\<lambda>f g. fst f = fst g \<and> js_equiv (snd f) (snd g)) fs gs \<Longrightarrow> mset gs = mset hs \<Longrightarrow> js_equiv (JObj fs) (JObj hs)"
  monos list_all2_mono

text \<open>Objects have distinct keys.\<close>

fun js_object_ok :: "jsval \<Rightarrow> bool" where
  "js_object_ok (JArr vs) = list_all js_object_ok vs"
| "js_object_ok (JObj fs) = (distinct (map fst fs) \<and> list_all (\<lambda>(k, v). js_object_ok v) fs)"
| "js_object_ok _ = True"

lemma distinct_singleton_list: "set l = {k} \<Longrightarrow> distinct l \<Longrightarrow> l = [k]"
  by (cases l; cases "tl l") auto

lemma sort_key_unique:
  assumes "mset xs = mset ys" and "distinct (map f xs)"
  shows "sort_key f xs = sort_key f ys"
proof -
  have d: "distinct xs" "inj_on f (set xs)" using assms(2) by (auto simp: distinct_map)
  have e: "set ys = set xs" "distinct ys" using assms(1) d(1) by (metis mset_eq_setD, metis mset_eq_imp_distinct_iff)
  have single: "filter (\<lambda>x. f k = f x) zs = [k]" if "k \<in> set zs" "set zs = set xs" "distinct zs" for k zs
  proof -
    have "set (filter (\<lambda>x. f k = f x) zs) = {k}" using that d(2) by (auto dest: inj_onD)
    moreover have "distinct (filter (\<lambda>x. f k = f x) zs)" using that by simp
    ultimately show ?thesis by (rule distinct_singleton_list)
  qed
  show ?thesis
  proof (rule properties_for_sort_key)
    show "mset (sort_key f ys) = mset xs" using assms(1) by simp
    show "sorted (map f (sort_key f ys))" by simp
    show "\<And>k. k \<in> set (sort_key f ys) \<Longrightarrow> filter (\<lambda>x. f k = f x) (sort_key f ys) = filter (\<lambda>x. f k = f x) xs"
      using e d single by simp
  qed
qed

lemma mset_enumeration_order: "mset (enumeration_order fs) = mset fs"
proof -
  have "mset (filter P fs) + mset (filter (\<lambda>x. \<not> P x) fs) = mset fs" for P by (induction fs) auto
  then show ?thesis by (simp add: enumeration_order_def comp_def)
qed

lemma those_fields:
  "those (map (\<lambda>(k, v). map_option (Pair k) (canonical v)) fs) = Some gs \<longleftrightarrow>
     list_all2 (\<lambda>f g. fst f = fst g \<and> canonical (snd f) = Some (snd g)) fs gs"
proof (induction fs arbitrary: gs)
  case (Cons f fs)
  then show ?case by (cases f; cases gs) (auto simp del: map_option_eq_Some split: option.splits)
qed auto

lemma canonical_obj_fields:
  "canonical (JObj fs) = Some c \<longleftrightarrow> (\<exists>gs. c = JsonObj (enumeration_order (sort_key fst gs)) \<and>
     list_all2 (\<lambda>f g. fst f = fst g \<and> canonical (snd f) = Some (snd g)) fs gs)"
  by (auto simp: those_fields)

lemma canonical_equiv: "js_equiv v w \<Longrightarrow> js_object_ok v \<Longrightarrow> canonical v = Some c \<Longrightarrow> canonical w = Some c"
proof (induction arbitrary: c rule: js_equiv.induct)
  case (equiv_arr vs ws)
  then obtain cs where cs: "c = JsonArr cs" "map canonical vs = map Some cs" by (auto simp: those_Some)
  have "map canonical ws = map Some cs"
    using equiv_arr cs(2) by (auto simp: list_all2_conv_all_nth list_eq_iff_nth_eq list_all_length)
  with cs(1) show ?case by (simp add: those_Some)
next
  case (equiv_obj fs gs hs)
  obtain cs where c: "c = JsonObj (enumeration_order (sort_key fst cs))"
    and cs: "list_all2 (\<lambda>f g. fst f = fst g \<and> canonical (snd f) = Some (snd g)) fs cs"
    using equiv_obj.prems(2) canonical_obj_fields by blast
  have gs: "list_all2 (\<lambda>f g. fst f = fst g \<and> canonical (snd f) = Some (snd g)) gs cs"
    using equiv_obj.IH(1) equiv_obj.prems(1) cs by (auto simp: list_all2_conv_all_nth list_all_length case_prod_beta)
  obtain ds where ds: "list_all2 (\<lambda>f g. fst f = fst g \<and> canonical (snd f) = Some (snd g)) hs ds" "mset ds = mset cs"
    using list_all2_reorder_left_invariance [OF gs equiv_obj.hyps [symmetric]] by blast
  have "map fst fs = map fst cs" using cs by (auto simp: list_all2_conv_all_nth list_eq_iff_nth_eq)
  then have "distinct (map fst cs)" using equiv_obj.prems(1) by simp
  from sort_key_unique [OF ds(2) [symmetric] this] have "c = JsonObj (enumeration_order (sort_key fst ds))" by (simp add: c)
  with ds(1) canonical_obj_fields show ?case by blast
qed auto

lemma list_all2_compose: "list_all2 P xs zs \<Longrightarrow> list_all2 Q ys zs \<Longrightarrow> (\<And>x y z. x \<in> set xs \<Longrightarrow> P x z \<Longrightarrow> Q y z \<Longrightarrow> R x y) \<Longrightarrow> list_all2 R xs ys"
  by (auto simp: list_all2_conv_all_nth)

lemma canonical_Some_equiv: "canonical v = Some c \<Longrightarrow> canonical w = Some c \<Longrightarrow> js_equiv v w"
proof (induction v arbitrary: w c)
  case JUndef
  then show ?case by simp
next
  case JNull
  then show ?case by (cases w) (auto split: if_splits intro: js_equiv.intros)
next
  case (JBool b)
  then show ?case by (cases w) (auto split: if_splits intro: js_equiv.intros)
next
  case (JNum n)
  then show ?case
  proof (cases w)
    case (JNum m)
    with JNum.prems have "n = m" by (cases n; cases m) (auto split: if_splits)
    with JNum show ?thesis by (auto intro: js_equiv.intros)
  qed (auto split: if_splits)
next
  case (JStr s)
  then show ?case by (cases w) (auto split: if_splits intro: js_equiv.intros)
next
  case (JArr vs)
  then obtain cs where cs: "c = JsonArr cs" "map canonical vs = map Some cs" by (auto simp: those_Some)
  with JArr.prems obtain ws where w: "w = JArr ws" "map canonical ws = map Some cs"
    by (cases w) (auto simp: those_Some split: if_splits)
  have "list_all2 js_equiv vs ws"
    using cs(2) w(2) JArr.IH by (auto simp: list_all2_conv_all_nth list_eq_iff_nth_eq)
  then show ?case unfolding w(1) by (rule equiv_arr)
next
  case (JObj fs)
  obtain cs where c: "c = JsonObj (enumeration_order (sort_key fst cs))"
    and cs: "list_all2 (\<lambda>f g. fst f = fst g \<and> canonical (snd f) = Some (snd g)) fs cs"
    using JObj.prems(1) canonical_obj_fields by blast
  obtain hs where w: "w = JObj hs" using JObj.prems(2) c by (cases w) (auto split: if_splits)
  obtain ds where d: "c = JsonObj (enumeration_order (sort_key fst ds))"
    and ds: "list_all2 (\<lambda>f g. fst f = fst g \<and> canonical (snd f) = Some (snd g)) hs ds"
    using JObj.prems(2) canonical_obj_fields w by blast
  have "mset ds = mset cs" using c d by (metis json.inject(5) mset_enumeration_order mset_sort)
  then obtain gs where gs: "list_all2 (\<lambda>g f. fst f = fst g \<and> canonical (snd f) = Some (snd g)) cs gs" "mset gs = mset hs"
    using list_all2_reorder_left_invariance [of "\<lambda>g f. fst f = fst g \<and> canonical (snd f) = Some (snd g)" ds hs cs] ds
    by (auto simp: list_all2_conv_all_nth)
  have ih: "js_equiv (snd f) u" if "f \<in> set fs" "canonical (snd f) = Some b" "canonical u = Some b" for f u b
    using JObj.IH [OF that(1), of "snd f"] that(2,3) by (cases f) (auto simp: Basic_BNFs.snds.simps)
  have "list_all2 (\<lambda>f g. fst f = fst g \<and> js_equiv (snd f) (snd g)) fs gs"
    using cs gs(1) ih by (auto simp: list_all2_conv_all_nth)
  then show ?case unfolding w using gs(2) by (rule equiv_obj)
qed

section \<open>Properties\<close>

text \<open>C40. The text a confidence commitment hashes is a canonical form: two values with distinct keys have the same
  canonical text exactly when they are the same value up to the order of object keys, at every depth, provided
  the text exists, which needs safe integers and nothing undefined.\<close>

theorem canonical_text_iff_equivalent:
  assumes "js_object_ok v" and "js_object_ok w" and "canonicalConfidenceBytes v \<noteq> None"
  shows "canonicalConfidenceBytes v = canonicalConfidenceBytes w \<longleftrightarrow> js_equiv v w"
proof
  assume "canonicalConfidenceBytes v = canonicalConfidenceBytes w"
  then obtain c d where "canonical v = Some c" "canonical w = Some d" "bytes_of_string (stringify c) = bytes_of_string (stringify d)"
    using assms(3) by (auto simp: canonicalConfidenceBytes_def)
  then show "js_equiv v w" using canonical_Some_equiv by (simp add: bytes_of_string_inject stringify_inject)
next
  assume "js_equiv v w"
  moreover obtain c where "canonical v = Some c" using assms(3) by (auto simp: canonicalConfidenceBytes_def)
  ultimately show "canonicalConfidenceBytes v = canonicalConfidenceBytes w"
    using canonical_equiv assms(1) by (simp add: canonicalConfidenceBytes_def)
qed

theorem canonical_text_iff_equivalent_witness:
  "canonicalConfidenceBytes (JObj [(''b'', JNum (JInt 1)), (''a'', JArr [JNull])]) =
   canonicalConfidenceBytes (JObj [(''a'', JArr [JNull]), (''b'', JNum (JInt 1))])"
proof -
  let ?v = "JObj [(''b'', JNum (JInt 1)), (''a'', JArr [JNull])]"
  let ?w = "JObj [(''a'', JArr [JNull]), (''b'', JNum (JInt 1))]"
  have "js_equiv ?v ?w"
    by (rule equiv_obj [where gs = "[(''b'', JNum (JInt 1)), (''a'', JArr [JNull])]"]) (auto intro!: js_equiv.intros)
  then show ?thesis using canonical_text_iff_equivalent [of ?v ?w] by (simp add: canonicalConfidenceBytes_def)
qed

text \<open>Array indices are enumerated first and by their number, not in lexicographic order.\<close>

lemma canonical_index_order:
  "canonicalConfidenceBytes (JObj [(''10'', JNull), (''9'', JNull)]) =
     Some (bytes_of_string (stringify (JsonObj [(''9'', JsonNull), (''10'', JsonNull)])))"
  by (simp add: canonicalConfidenceBytes_def enumeration_order_def index_key_def is_decimal_def is_digit_def dec_digits_def
      dec_val_def dec_value_def)

end
