(* ===== verification/Grouping.thy ===== *)
theory Grouping
  imports Main
begin

text \<open>
  The union-find forest with which \<^verbatim>\<open>computeConfidence\<close> fuses pseudonyms that observe together
  (\<^verbatim>\<open>confidence.ts\<close>).  The parent map is the state; \<^verbatim>\<open>find\<close> follows parents and compresses the path.  The
  recursion has no structural bound, so that it is a partial function and its termination is proved: from the
  discrete forest, every call returns, and the classes are the connected components of the pairs merged.
\<close>

section \<open>The forest\<close>

partial_function (option) uf_find :: "('k \<rightharpoonup> 'k) \<Rightarrow> 'k \<Rightarrow> (('k \<rightharpoonup> 'k) \<times> 'k) option" where
  "uf_find parent p =
     (case parent p of None \<Rightarrow> None
      | Some root \<Rightarrow> if root = p then Some (parent, p)
          else Option.bind (uf_find parent root) (\<lambda>(parent, result). Some (parent(p \<mapsto> result), result)))"

declare uf_find.simps [code]

text \<open>\<^verbatim>\<open>parent.set(find(b), find(a))\<close>: the arguments from left to right.\<close>

definition uf_union :: "'k \<Rightarrow> 'k \<Rightarrow> ('k \<rightharpoonup> 'k) \<Rightarrow> ('k \<rightharpoonup> 'k) option" where
  "uf_union a b parent =
     Option.bind (uf_find parent b) (\<lambda>(parent, rb).
     Option.bind (uf_find parent a) (\<lambda>(parent, ra). Some (parent(rb \<mapsto> ra))))"

fun pairs_of :: "'k list \<Rightarrow> ('k \<times> 'k) list" where
  "pairs_of [] = []"
| "pairs_of (x # xs) = map (Pair x) xs @ pairs_of xs"

fun merge_pairs :: "('k \<Rightarrow> 'k \<Rightarrow> bool) \<Rightarrow> ('k \<times> 'k) list \<Rightarrow> ('k \<rightharpoonup> 'k) \<Rightarrow> ('k \<rightharpoonup> 'k) option" where
  "merge_pairs close [] parent = Some parent"
| "merge_pairs close ((a, b) # ps) parent =
     Option.bind (if close a b then uf_union a b parent else Some parent) (merge_pairs close ps)"

definition discrete :: "'k list \<Rightarrow> 'k \<rightharpoonup> 'k" where
  "discrete ks = (\<lambda>p. if p \<in> set ks then Some p else None)"

section \<open>Roots\<close>

inductive root_of :: "('k \<rightharpoonup> 'k) \<Rightarrow> 'k \<Rightarrow> 'k \<Rightarrow> bool" for m where
  at_root: "m p = Some p \<Longrightarrow> root_of m p p"
| at_child: "m p = Some q \<Longrightarrow> q \<noteq> p \<Longrightarrow> root_of m q r \<Longrightarrow> root_of m p r"

inductive_cases root_ofE: "root_of m p r"

definition forest :: "('k \<rightharpoonup> 'k) \<Rightarrow> bool" where
  "forest m = (\<forall>p\<in>dom m. \<exists>r. root_of m p r)"

lemma root_of_fun: "root_of m p r \<Longrightarrow> root_of m p s \<Longrightarrow> r = s"
proof (induction rule: root_of.induct)
  case (at_root p)
  then show ?case by (auto elim: root_ofE)
next
  case (at_child p q r)
  from at_child.prems at_child.hyps(1,2) have "root_of m q s" by (auto elim: root_ofE)
  then show ?case by (rule at_child.IH)
qed

lemma root_is_root: "root_of m p r \<Longrightarrow> m r = Some r"
  by (induction rule: root_of.induct) auto

lemma root_of_dom: "root_of m p r \<Longrightarrow> p \<in> dom m"
  by (auto elim: root_ofE)

text \<open>Compression leaves every root, and linking one root under another renames it.\<close>

lemma root_of_compress: "root_of m x y \<Longrightarrow> root_of m p r \<Longrightarrow> root_of (m(p \<mapsto> r)) x y"
proof (induction rule: root_of.induct)
  case (at_root x)
  show ?case
  proof (cases "x = p")
    case True
    then have "r = x" using at_root root_of.at_root root_of_fun by metis
    then show ?thesis using True by (intro root_of.at_root) simp
  qed (use at_root in \<open>auto intro: root_of.at_root\<close>)
next
  case (at_child x q y)
  show ?case
  proof (cases "x = p")
    case True
    have r: "r = y" using at_child.prems root_of.at_child [OF at_child.hyps] True root_of_fun by metis
    have "m y = Some y" using root_is_root [OF at_child.hyps(3)] .
    moreover have "y \<noteq> p" using calculation at_child.hyps(1,2) True by auto
    ultimately have "root_of (m(p \<mapsto> y)) y y" by (intro root_of.at_root) simp
    moreover have "(m(p \<mapsto> y)) p = Some y" by simp
    ultimately show ?thesis unfolding r True using \<open>y \<noteq> p\<close> by (blast intro: root_of.at_child)
  qed (use at_child in \<open>auto intro: root_of.at_child\<close>)
qed

lemma root_of_link:
  assumes "m ra = Some ra" and "m rb = Some rb"
  shows "root_of m x y \<Longrightarrow> root_of (m(rb \<mapsto> ra)) x (if y = rb then ra else y)"
proof (induction rule: root_of.induct)
  case (at_root x)
  show ?case
  proof (cases "x = rb \<and> ra \<noteq> rb")
    case True
    have "root_of (m(rb \<mapsto> ra)) ra ra" using True assms(1) by (intro root_of.at_root) auto
    moreover have "(m(rb \<mapsto> ra)) rb = Some ra" by simp
    ultimately have "root_of (m(rb \<mapsto> ra)) rb ra" using True by (blast intro: root_of.at_child)
    with True show ?thesis by (simp del: fun_upd_apply)
  qed (use at_root in \<open>auto intro: root_of.at_root\<close>)
next
  case (at_child x q y)
  have "x \<noteq> rb" using at_child.hyps(1,2) assms(2) by auto
  with at_child show ?case by (auto intro: root_of.at_child)
qed

definition same_roots :: "('k \<rightharpoonup> 'k) \<Rightarrow> ('k \<rightharpoonup> 'k) \<Rightarrow> bool" where
  "same_roots m m' = (dom m' = dom m \<and> (\<forall>x y. root_of m' x y \<longleftrightarrow> root_of m x y))"

lemma same_roots_trans: "same_roots a b \<Longrightarrow> same_roots b c \<Longrightarrow> same_roots a c"
  by (simp add: same_roots_def)

lemma same_roots_compress:
  assumes "forest m" and "root_of m p r"
  shows "same_roots m (m(p \<mapsto> r))"
proof -
  have d: "dom (m(p \<mapsto> r)) = dom m" using root_of_dom [OF assms(2)] by auto
  have "root_of m x y" if xy: "root_of (m(p \<mapsto> r)) x y" for x y
  proof -
    obtain z where z: "root_of m x z" using root_of_dom [OF xy] d assms(1) by (auto simp: forest_def)
    then show ?thesis using root_of_fun [OF xy root_of_compress [OF z assms(2)]] by simp
  qed
  with d root_of_compress [OF _ assms(2)] show ?thesis by (auto simp: same_roots_def)
qed

lemma forest_same: "same_roots m m' \<Longrightarrow> forest m \<Longrightarrow> forest m'"
  by (auto simp: same_roots_def forest_def)

text \<open>\<^verbatim>\<open>find\<close> returns, with the root, and moves no root.\<close>

lemma uf_find_root:
  "root_of m p r \<Longrightarrow> forest m \<Longrightarrow> \<exists>m'. uf_find m p = Some (m', r) \<and> same_roots m m'"
proof (induction rule: root_of.induct)
  case (at_root p)
  then show ?case by (subst uf_find.simps) (simp add: same_roots_def)
next
  case (at_child p q r)
  then obtain m' where m': "uf_find m q = Some (m', r)" "same_roots m m'" by blast
  have "root_of m' p r" using root_of.at_child [OF at_child.hyps] m'(2) by (simp add: same_roots_def)
  then have "same_roots m (m'(p \<mapsto> r))"
    using same_roots_compress same_roots_trans m'(2) forest_same at_child.prems by metis
  then show ?case using m'(1) at_child.hyps(1,2) by (subst uf_find.simps) simp
qed

text \<open>Two members are in one class when they have one root.\<close>

definition same_class :: "('k \<rightharpoonup> 'k) \<Rightarrow> 'k \<Rightarrow> 'k \<Rightarrow> bool" where
  "same_class m x y = (\<exists>r. root_of m x r \<and> root_of m y r)"

lemma same_class_iff:
  assumes "root_of m x rx" and "root_of m y ry"
  shows "same_class m x y \<longleftrightarrow> rx = ry"
  using assms by (auto simp: same_class_def dest: root_of_fun)

lemma uf_union_classes:
  assumes "forest m" and "a \<in> dom m" and "b \<in> dom m"
  shows "\<exists>m'. uf_union a b m = Some m' \<and> forest m' \<and> dom m' = dom m \<and>
    (\<forall>x\<in>dom m. \<forall>y\<in>dom m. same_class m' x y \<longleftrightarrow> same_class m x y \<or> same_class m x a \<and> same_class m b y \<or> same_class m x b \<and> same_class m a y)"
proof -
  obtain ra rb where r: "root_of m a ra" "root_of m b rb" using assms unfolding forest_def by meson
  obtain m1 where m1: "uf_find m b = Some (m1, rb)" "same_roots m m1" using uf_find_root [OF r(2) assms(1)] by blast
  have a1: "root_of m1 a ra" using m1(2) r(1) by (simp add: same_roots_def)
  obtain m2 where m2: "uf_find m1 a = Some (m2, ra)" "same_roots m1 m2"
    using uf_find_root [OF a1 forest_same [OF m1(2) assms(1)]] by blast
  have s: "same_roots m m2" using same_roots_trans [OF m1(2) m2(2)] .
  then have d: "dom m2 = dom m" and ro: "root_of m2 x y \<longleftrightarrow> root_of m x y" for x y by (auto simp: same_roots_def)
  have rr: "m2 ra = Some ra" "m2 rb = Some rb" using root_is_root r ro by metis+
  let ?m = "m2(rb \<mapsto> ra)"
  have link: "root_of ?m x (if y = rb then ra else y)" if "root_of m x y" for x y using root_of_link [OF rr] that ro by blast
  have dm: "dom ?m = dom m" using rr d by auto
  have f: "forest ?m" using link assms(1) dm unfolding forest_def by blast
  have "same_class ?m x y \<longleftrightarrow> same_class m x y \<or> same_class m x a \<and> same_class m b y \<or> same_class m x b \<and> same_class m a y"
    if dxy: "x \<in> dom m" "y \<in> dom m" for x y
  proof -
    obtain rx ry where xy: "root_of m x rx" "root_of m y ry" using dxy assms(1) unfolding forest_def by meson
    have "same_class ?m x y \<longleftrightarrow> (if rx = rb then ra else rx) = (if ry = rb then ra else ry)"
      by (rule same_class_iff [OF link [OF xy(1)] link [OF xy(2)]])
    moreover have "same_class m x y \<longleftrightarrow> rx = ry" "same_class m x a \<longleftrightarrow> rx = ra" "same_class m b y \<longleftrightarrow> rb = ry"
        "same_class m x b \<longleftrightarrow> rx = rb" "same_class m a y \<longleftrightarrow> ra = ry"
      using xy r by (simp_all add: same_class_iff)
    ultimately show ?thesis by (auto split: if_splits)
  qed
  with m1(1) m2(1) f dm show ?thesis by (simp add: uf_union_def)
qed

section \<open>Connected components\<close>

text \<open>The reference: the reflexive transitive closure of the pairs, in both directions.\<close>

definition connected :: "('k \<times> 'k) set \<Rightarrow> 'k \<Rightarrow> 'k \<Rightarrow> bool" where
  "connected E x y = ((x, y) \<in> (E \<union> E\<inverse>)\<^sup>*)"

lemma connected_insert:
  "connected (insert (a, b) E) x y \<longleftrightarrow>
     connected E x y \<or> connected E x a \<and> connected E b y \<or> connected E x b \<and> connected E a y"
proof -
  have "insert (a, b) E \<union> (insert (a, b) E)\<inverse> = insert (a, b) (insert (b, a) (E \<union> E\<inverse>))" by auto
  then show ?thesis unfolding connected_def by (auto simp: rtrancl_insert intro: rtrancl_trans)
qed

lemma merge_pairs_classes:
  assumes "forest m" and "fst ` set ps \<subseteq> dom m" and "snd ` set ps \<subseteq> dom m"
    and "\<forall>x\<in>dom m. \<forall>y\<in>dom m. same_class m x y \<longleftrightarrow> connected E x y"
  shows "\<exists>m'. merge_pairs close ps m = Some m' \<and> forest m' \<and> dom m' = dom m \<and>
    (\<forall>x\<in>dom m. \<forall>y\<in>dom m. same_class m' x y \<longleftrightarrow> connected (E \<union> {p \<in> set ps. close (fst p) (snd p)}) x y)"
  using assms
proof (induction close ps m arbitrary: E rule: merge_pairs.induct)
  case (2 close a b ps m)
  show ?case
  proof (cases "close a b")
    case True
    obtain m1 where m1: "uf_union a b m = Some m1" "forest m1" "dom m1 = dom m"
      "\<forall>x\<in>dom m. \<forall>y\<in>dom m. same_class m1 x y \<longleftrightarrow> connected (insert (a, b) E) x y"
      using uf_union_classes [of m a b] 2(2-5) by (auto simp: connected_insert)
    have "E \<union> {p \<in> set ((a, b) # ps). close (fst p) (snd p)} = insert (a, b) E \<union> {p \<in> set ps. close (fst p) (snd p)}"
      using True by auto
    with 2(1) [of m1 "insert (a, b) E"] True m1 2(3,4) show ?thesis by simp
  next
    case False
    then have "{p \<in> set ((a, b) # ps). close (fst p) (snd p)} = {p \<in> set ps. close (fst p) (snd p)}" by auto
    with 2(1) [of m E] 2(2-) False show ?thesis by simp
  qed
qed simp

lemma forest_discrete: "forest (discrete ks)" "dom (discrete ks) = set ks"
  "same_class (discrete ks) x y \<longleftrightarrow> x = y \<and> x \<in> set ks"
proof -
  have d: "discrete ks p = Some q \<longleftrightarrow> q = p \<and> p \<in> set ks" for p q by (auto simp: discrete_def)
  have r: "root_of (discrete ks) p r \<longleftrightarrow> p = r \<and> p \<in> set ks" for p r
    by (metis d root_ofE root_of.at_root)
  then show "forest (discrete ks)" "dom (discrete ks) = set ks" "same_class (discrete ks) x y \<longleftrightarrow> x = y \<and> x \<in> set ks"
    by (auto simp: forest_def same_class_def discrete_def split: if_splits)
qed

lemma set_pairs_of: "p \<in> set (pairs_of ks) \<Longrightarrow> fst p \<in> set ks \<and> snd p \<in> set ks"
  by (induction ks) auto

lemma pairs_of_all: "x \<in> set ks \<Longrightarrow> y \<in> set ks \<Longrightarrow> x \<noteq> y \<Longrightarrow> (x, y) \<in> set (pairs_of ks) \<or> (y, x) \<in> set (pairs_of ks)"
  by (induction ks) auto

text \<open>The closeness relation itself, symmetric as the code's is.\<close>

lemma grouping_components:
  assumes "\<And>x y. close x y = close y x"
  shows "\<exists>m. merge_pairs close (pairs_of ks) (discrete ks) = Some m \<and> forest m \<and> dom m = set ks \<and>
    (\<forall>x\<in>set ks. \<forall>y\<in>set ks. same_class m x y \<longleftrightarrow> (x, y) \<in> {(x, y). x \<in> set ks \<and> y \<in> set ks \<and> close x y}\<^sup>*)"
proof -
  let ?P = "{p \<in> set (pairs_of ks). close (fst p) (snd p)}" and ?C = "{(x, y). x \<in> set ks \<and> y \<in> set ks \<and> close x y}"
  have "same_class (discrete ks) x y \<longleftrightarrow> connected {} x y" if "x \<in> set ks" for x y
    using that by (simp add: forest_discrete connected_def)
  moreover have "fst ` set (pairs_of ks) \<subseteq> set ks" "snd ` set (pairs_of ks) \<subseteq> set ks" using set_pairs_of by fastforce+
  ultimately obtain m where
    m: "merge_pairs close (pairs_of ks) (discrete ks) = Some m" "forest m" "dom m = set ks"
      "\<forall>x\<in>set ks. \<forall>y\<in>set ks. same_class m x y \<longleftrightarrow> connected ?P x y"
    using merge_pairs_classes [of "discrete ks" "pairs_of ks" "{}" close] by (auto simp: forest_discrete)
  have "?P \<union> ?P\<inverse> \<subseteq> ?C" using set_pairs_of assms by fastforce
  moreover have "?C \<subseteq> (?P \<union> ?P\<inverse>)\<^sup>="
  proof
    fix p assume p: "p \<in> ?C"
    show "p \<in> (?P \<union> ?P\<inverse>)\<^sup>="
    proof (cases "fst p = snd p")
      case False
      with p pairs_of_all [of "fst p" ks "snd p"] assms show ?thesis by auto
    qed (cases p; simp)
  qed
  ultimately have "(?P \<union> ?P\<inverse>)\<^sup>* = ?C\<^sup>*"
    using rtrancl_mono [of "?P \<union> ?P\<inverse>" ?C] rtrancl_mono [of ?C "(?P \<union> ?P\<inverse>)\<^sup>="] by simp
  with m show ?thesis by (auto simp: connected_def)
qed

end
