(* ===== verification/Confidence.thy ===== *)
theory Confidence
  imports Canonical Grouping Transcript Observation
begin

text \<open>
  The confidence score of \<^verbatim>\<open>confidence.ts\<close>: the policy constants, Q24 logarithms and entropy, and
  \<^verbatim>\<open>computeConfidence\<close> in its stages: the checks of the history, the grouping of pseudonyms, the six facets
  and the report.  Every \<^verbatim>\<open>throw\<close> is a constructor of the error type; \<open>CE_diverged\<close> stands for a \<^verbatim>\<open>find\<close>
  that does not return and is proved impossible.  SHA-256 and the validity of a base-58 key are parameters.
\<close>

section \<open>Policy and inputs\<close>

definition BPS :: int where "BPS = 10000"
definition WINDOW_MS :: int where "WINDOW_MS = 30 * 86400 * 1000"
definition witnessTarget :: int where "witnessTarget = 3"
definition unknownDeployerWeightBps :: int where "unknownDeployerWeightBps = 2000"
definition cooccurrenceThresholdBps :: int where "cooccurrenceThresholdBps = 8000"
definition spatialMinimumWitnesses :: nat where "spatialMinimumWitnesses = 3"
definition spatialCapBps :: int where "spatialCapBps = 5000"
definition gpsAccuracyLimitMeters :: int where "gpsAccuracyLimitMeters = 1000"
definition entropyTargetCategories :: int where "entropyTargetCategories = 4"
definition evidencePresenceBps :: int where "evidencePresenceBps = 2500"
definition maximumHistoryRecords :: nat where "maximumHistoryRecords = 10000"
definition maximumHistoryPseudonyms :: nat where "maximumHistoryPseudonyms = 512"
definition hardwareClassBps :: "int list" where "hardwareClassBps = [0, 10000, 10000, 8000]"
definition confidence_weights :: "int list" where "confidence_weights = [2500, 1000, 3000, 1500, 1500, 500]"

lemmas confidence_constants = BPS_def WINDOW_MS_def witnessTarget_def unknownDeployerWeightBps_def cooccurrenceThresholdBps_def
  spatialMinimumWitnesses_def spatialCapBps_def gpsAccuracyLimitMeters_def entropyTargetCategories_def evidencePresenceBps_def
  maximumHistoryRecords_def maximumHistoryPseudonyms_def hardwareClassBps_def confidence_weights_def

record ConfidenceInput =
  ci_transcript :: string
  ci_evidence :: "string option"
  ci_reenrollmentCount :: "jsnum option"

record ConfidenceScope =
  cs_program :: string
  cs_protocolID :: string
  cs_deviceID :: string
  cs_epoch :: jsnum
  cs_policyVersion :: jsnum
  cs_epochSeconds :: jsnum
  cs_evaluatedAtMilliseconds :: jsnum
  cs_observationRoot :: string
  cs_transcriptOrder :: "string list"
  cs_claimedGeohash6 :: "string option"

datatype confidence_error =
    CE_program | CE_scope | CE_risk | CE_encoding | CE_transcript | CE_history | CE_evidence | CE_duplicate
  | CE_incomplete | CE_order | CE_tree | CE_limit | CE_entropy | CE_canonical | CE_diverged

section \<open>Arithmetic\<close>

definition geohash :: "string \<Rightarrow> bool" where
  "geohash v = (length v = 6 \<and> list_all (\<lambda>c. c \<in> set ''0123456789bcdefghjkmnpqrstuvwxyz'') v)"

definition strictBase64 :: "string \<Rightarrow> bytes option" where
  "strictBase64 v =
     (if length v > 131072 \<or> \<not> b64_pattern v then None
      else let data = b64_dec v in if b64_enc data \<noteq> v then None else Some data)"

definition clamp :: "int \<Rightarrow> int" where
  "clamp n = max 0 (min BPS n)"

text \<open>\<^verbatim>\<open>Math.floor(a / b)\<close> for \<open>a \<ge> 0\<close> and \<open>b > 0\<close>.\<close>

definition math_floor :: "int \<Rightarrow> int \<Rightarrow> int" where
  "math_floor a b = int (floor_quot (nat a) (nat b))"

definition average :: "int list \<Rightarrow> int" where
  "average vs = (if vs \<noteq> [] then math_floor (sum_list vs) (int (length vs)) else 0)"

text \<open>BigInt division, which rounds towards zero.\<close>

definition big_div :: "int \<Rightarrow> int \<Rightarrow> int" where
  "big_div a b = (if a < 0 then - ((- a) div b) else a div b)"

fun log2_loop :: "nat \<Rightarrow> int \<Rightarrow> int \<Rightarrow> int" where
  "log2_loop 0 x r = r"
| "log2_loop (Suc b) x r =
     (let x = drop_bit 48 (x * x)
      in if x \<ge> push_bit 48 2 then log2_loop b (drop_bit 1 x) (r OR push_bit b 1) else log2_loop b x r)"

definition log2 :: "int \<Rightarrow> int option" where
  "log2 v =
     (if v < 1 then None
      else let bits = bit_length (nat v) - 1
           in Some (log2_loop 24 (drop_bit bits (push_bit 48 v)) (push_bit 24 (int bits))))"

text \<open>A \<^verbatim>\<open>Map\<close> of numbers, in insertion order.\<close>

fun bump :: "'k \<Rightarrow> int \<Rightarrow> ('k \<times> int) list \<Rightarrow> ('k \<times> int) list" where
  "bump k v [] = [(k, v)]"
| "bump k v ((k', w) # m) = (if k = k' then (k', w + v) # m else (k', w) # bump k v m)"

definition entropy :: "string list \<Rightarrow> int option" where
  "entropy values =
     (if length values < 2 then Some 0
      else let counts = map snd (fold (\<lambda>v. bump v 1) values []); n = int (length values)
      in do {
        logs \<leftarrow> those (map log2 counts);
        let terms = sum_list (map (\<lambda>(c, l). c * l) (zip counts logs));
        ln \<leftarrow> log2 n;
        lt \<leftarrow> log2 entropyTargetCategories;
        Some (clamp (big_div ((ln - big_div terms n) * BPS) lt)) })"

section \<open>The history\<close>

record RecordValue =
  rv_hash :: string
  rv_transcript :: ObservationTranscript
  rv_input :: ConfidenceInput
  rv_pseudonym :: string
  rv_slot :: string

text \<open>The product of the epoch and its length is compared with a safe integer, so that its rounding does not
  matter.\<close>

definition scope_ok :: "ConfidenceScope \<Rightarrow> ConfidenceInput list \<Rightarrow> bool" where
  "scope_ok s inputs =
     (is_hex 64 (cs_protocolID s) \<and> is_hex 64 (cs_deviceID s) \<and> is_hex 64 (cs_observationRoot s) \<and>
      int_in (cs_evaluatedAtMilliseconds s) 0 (2 ^ 53 - 1) \<and> int_in (cs_epoch s) 0 0xffffffff \<and>
      int_in (cs_policyVersion s) 1 0xffffffff \<and> int_in (cs_epochSeconds s) 1 0xffffffff \<and>
      jint (cs_epoch s) * jint (cs_epochSeconds s) * 1000 \<le> jint (cs_evaluatedAtMilliseconds s) \<and>
      (case cs_claimedGeohash6 s of None \<Rightarrow> True | Some g \<Rightarrow> geohash g) \<and>
      inputs \<noteq> [] \<and> length inputs \<le> maximumHistoryRecords)"

definition input_evidence :: "ConfidenceInput \<Rightarrow> bytes option option" where
  "input_evidence input = (case ci_evidence input of None \<Rightarrow> Some None | Some e \<Rightarrow> map_option Some (strictBase64 e))"

definition confidence_record_of ::
  "hash \<Rightarrow> ConfidenceScope \<Rightarrow> ConfidenceInput \<Rightarrow> confidence_error + RecordValue" where
  "confidence_record_of sha s input =
     (if (case ci_reenrollmentCount input of None \<Rightarrow> False | Some n \<Rightarrow> \<not> int_in n 0 1000000) then Inl CE_risk
      else ebind (of_opt CE_encoding (strictBase64 (ci_transcript input))) (\<lambda>b.
      ebind (of_opt CE_transcript (decodeObservationTranscript b (JInt 5))) (\<lambda>t.
      ebind (of_opt CE_transcript (observationTranscriptHash sha t)) (\<lambda>h.
      if hex_of_bytes (ot_protocolID t) \<noteq> cs_protocolID s \<or>
         ot_observationTimeMilliseconds t > jint (cs_evaluatedAtMilliseconds s) \<or>
         ot_observationTimeMilliseconds t div (jint (cs_epochSeconds s) * 1000) \<noteq> jint (ot_epoch t) then Inl CE_history
      else ebind (of_opt CE_encoding (input_evidence input)) (\<lambda>evidence.
      if hex_of_bytes (observationEvidenceHash sha evidence) \<noteq> hex_of_bytes (ot_evidenceHash t) then Inl CE_evidence
      else Inr \<lparr>rv_hash = hex_of_bytes h, rv_transcript = t, rv_input = input, rv_pseudonym = hex_of_bytes (ot_pseudonym t),
        rv_slot = hex_of_bytes (ot_deviceID t) @ ''/'' @ dec_str (jint (ot_epoch t))\<rparr>)))))"

fun history_loop ::
  "hash \<Rightarrow> ConfidenceScope \<Rightarrow> ConfidenceInput list \<Rightarrow> string set \<Rightarrow> confidence_error + RecordValue list" where
  "history_loop sha s [] nullifiers = Inr []"
| "history_loop sha s (input # inputs) nullifiers =
     ebind (confidence_record_of sha s input) (\<lambda>r.
     let nullifier = hex_of_bytes (ot_nullifier (rv_transcript r))
     in if nullifier \<in> nullifiers then Inl CE_duplicate
        else ebind (history_loop sha s inputs (insert nullifier nullifiers)) (\<lambda>rs. Inr (r # rs)))"

definition target_records :: "ConfidenceScope \<Rightarrow> RecordValue list \<Rightarrow> RecordValue list" where
  "target_records s records = filter (\<lambda>r. hex_of_bytes (ot_deviceID (rv_transcript r)) = cs_deviceID s \<and>
     ot_epoch (rv_transcript r) = cs_epoch s) records"

definition window_records :: "ConfidenceScope \<Rightarrow> RecordValue list \<Rightarrow> RecordValue list" where
  "window_records s records = filter (\<lambda>r. ot_observationTimeMilliseconds (rv_transcript r) \<ge>
     jint (cs_evaluatedAtMilliseconds s) - WINDOW_MS) records"

definition pseudonyms :: "RecordValue list \<Rightarrow> RecordValue list \<Rightarrow> string list" where
  "pseudonyms window target = sort (remdups (map rv_pseudonym (window @ target)))"

text \<open>The checks: the sorted records, the target epoch, the history window.\<close>

definition confidence_history ::
  "hash \<Rightarrow> (string \<Rightarrow> bool) \<Rightarrow> ConfidenceScope \<Rightarrow> ConfidenceInput list \<Rightarrow>
     confidence_error + RecordValue list \<times> RecordValue list \<times> RecordValue list" where
  "confidence_history sha valid_key s inputs =
     (if \<not> valid_key (cs_program s) then Inl CE_program
      else if \<not> scope_ok s inputs then Inl CE_scope
      else ebind (history_loop sha s inputs {}) (\<lambda>rs.
      let records = sort_key rv_hash rs; target = target_records s records; order = cs_transcriptOrder s
      in if target = [] \<or> length target \<noteq> length order \<or> length (remdups order) \<noteq> length target \<or>
            list_ex (\<lambda>r. rv_hash r \<notin> set order) target then Inl CE_incomplete
         else ebind (of_opt CE_order (append_all sha order empty_tree)) (\<lambda>tree.
         if hex_of_bytes (tr_root tree) \<noteq> cs_observationRoot s then Inl CE_tree
         else let window = window_records s records
           in if length (pseudonyms window target) > maximumHistoryPseudonyms then Inl CE_limit
              else Inr (records, target, window))))"

section \<open>Groups\<close>

definition slots_of :: "RecordValue list \<Rightarrow> string \<Rightarrow> string list" where
  "slots_of window p = remdups (map rv_slot (filter (\<lambda>r. rv_pseudonym r = p) window))"

definition cooccur :: "RecordValue list \<Rightarrow> string \<Rightarrow> string \<Rightarrow> bool" where
  "cooccur window a b =
     (let sa = slots_of window a; sb = slots_of window b;
          intersection = int (length (filter (\<lambda>s. s \<in> set sb) sa)); denominator = int (max (length sa) (length sb))
      in denominator \<noteq> 0 \<and> intersection * BPS > denominator * cooccurrenceThresholdBps)"

fun add_to_group :: "string \<Rightarrow> 'r \<Rightarrow> (string \<times> 'r list) list \<Rightarrow> (string \<times> 'r list) list" where
  "add_to_group k r [] = [(k, [r])]"
| "add_to_group k r ((k', rs) # m) = (if k = k' then (k', rs @ [r]) # m else (k', rs) # add_to_group k r m)"

fun group_loop ::
  "RecordValue list \<Rightarrow> (string \<rightharpoonup> string) \<Rightarrow> (string \<times> RecordValue list) list \<Rightarrow>
     ((string \<rightharpoonup> string) \<times> (string \<times> RecordValue list) list) option" where
  "group_loop [] parent m = Some (parent, m)"
| "group_loop (r # rs) parent m = do {
     (parent, group) \<leftarrow> uf_find parent (rv_pseudonym r);
     group_loop rs parent (add_to_group group r m) }"

definition confidence_groups ::
  "RecordValue list \<Rightarrow> RecordValue list \<Rightarrow> ((string \<rightharpoonup> string) \<times> (string \<times> RecordValue list) list) option" where
  "confidence_groups window target = do {
     let pseudos = pseudonyms window target;
     parent \<leftarrow> merge_pairs (cooccur window) (pairs_of pseudos) (discrete pseudos);
     (parent, m) \<leftarrow> group_loop target parent [];
     Some (parent, sort_key fst m) }"

section \<open>Facets\<close>

definition hardware_score :: "RecordValue \<Rightarrow> int" where
  "hardware_score r = math_floor (hardwareClassBps ! nat (jint (ot_observerClass (rv_transcript r))))
     (1 + (case ci_reenrollmentCount (rv_input r) of None \<Rightarrow> 0 | Some n \<Rightarrow> math_floor (jint n) 3))"

text \<open>The product may exceed the safe range and is rounded to a double.\<close>

definition freshness_score :: "ConfidenceScope \<Rightarrow> RecordValue \<Rightarrow> int" where
  "freshness_score s r =
     clamp (BPS - math_floor
       (int (to_double (nat ((jint (cs_evaluatedAtMilliseconds s) - ot_observationTimeMilliseconds (rv_transcript r)) * BPS))))
       (jint (cs_epochSeconds s) * 1000))"

definition group_average :: "(RecordValue \<Rightarrow> int) \<Rightarrow> (string \<times> RecordValue list) list \<Rightarrow> int" where
  "group_average f groups = average (map (\<lambda>(_, rs). min_list (map f rs)) groups)"

definition witness_score :: "nat \<Rightarrow> int" where
  "witness_score groups = clamp (math_floor (int groups * unknownDeployerWeightBps) witnessTarget)"

definition record_geohash :: "RecordValue \<Rightarrow> string" where
  "record_geohash r = ascii_of_bytes (tl_geohash6 (ot_local (rv_transcript r)))"

definition record_accuracy :: "RecordValue \<Rightarrow> int" where
  "record_accuracy r = jint (tl_gpsAccuracyMeters (ot_local (rv_transcript r)))"

definition group_geography :: "RecordValue list \<Rightarrow> string option \<times> int" where
  "group_geography rs =
     (let usable = filter (\<lambda>r. record_accuracy r > 0 \<and> geohash (record_geohash r)) rs;
          locations = remdups (map record_geohash usable)
      in if length locations \<noteq> 1 \<or> length usable \<noteq> length rs then (None, 0)
         else (Some (locations ! 0),
           min_list (map (\<lambda>r. clamp (BPS - math_floor (record_accuracy r * BPS) gpsAccuracyLimitMeters)) usable)))"

definition geographic_votes :: "(string option \<times> int) list \<Rightarrow> (string \<times> int) list" where
  "geographic_votes gs = fold (\<lambda>(g, q) votes. case g of None \<Rightarrow> votes | Some geo \<Rightarrow> bump geo q votes) gs []"

text \<open>The halved sum keeps the unfloored quotient; only its integer part reaches the floor.\<close>

definition spatial_score :: "ConfidenceScope \<Rightarrow> (string option \<times> int) list \<Rightarrow> int" where
  "spatial_score s geographic =
     (let votes = geographic_votes geographic; n = int (length geographic);
          spatial = math_floor (fold max (map snd votes) 0) n;
          spatial = (case cs_claimedGeohash6 s of None \<Rightarrow> spatial
            | Some g \<Rightarrow> (spatial + math_floor (case map_of votes g of None \<Rightarrow> 0 | Some v \<Rightarrow> v) n) div 2)
      in if length geographic < spatialMinimumWitnesses then min spatial spatialCapBps else spatial)"

fun filter_group ::
  "string \<Rightarrow> RecordValue list \<Rightarrow> (string \<rightharpoonup> string) \<Rightarrow> ((string \<rightharpoonup> string) \<times> RecordValue list) option" where
  "filter_group grp [] parent = Some (parent, [])"
| "filter_group grp (r # rs) parent = do {
     (parent, g) \<leftarrow> uf_find parent (rv_pseudonym r);
     (parent, rest) \<leftarrow> filter_group grp rs parent;
     Some (parent, if g = grp then r # rest else rest) }"

definition history_score :: "RecordValue list \<Rightarrow> int option" where
  "history_score history = do {
     d \<leftarrow> entropy (map (\<lambda>r. hex_of_bytes (ot_deviceID (rv_transcript r))) history);
     h \<leftarrow> entropy (map (\<lambda>r. dec_str (math_floor (ot_observationTimeMilliseconds (rv_transcript r)) 3600000 mod 24)) history);
     g \<leftarrow> entropy (filter geohash (map record_geohash history));
     Some (average [d, h, g]) }"

fun behavior_loop ::
  "RecordValue list \<Rightarrow> (string \<times> RecordValue list) list \<Rightarrow> (string \<rightharpoonup> string) \<Rightarrow> confidence_error + int list" where
  "behavior_loop window [] parent = Inr []"
| "behavior_loop window ((grp, _) # groups) parent =
     ebind (of_opt CE_diverged (filter_group grp window parent)) (\<lambda>(parent, history).
     ebind (of_opt CE_entropy (history_score history)) (\<lambda>v.
     ebind (behavior_loop window groups parent) (\<lambda>vs. Inr (v # vs))))"

definition wifi_evidence :: "RecordValue \<Rightarrow> jsval \<Rightarrow> bool" where
  "wifi_evidence r e =
     (js_get e ''version'' = JNum (JInt 0) \<and> js_get e ''type'' = JStr ''wifi'' \<and>
      (case js_get e ''bssid_hash'' of JStr h \<Rightarrow> is_hex 64 h \<and> h \<noteq> replicate 64 (CHR ''0'') \<and>
          h = hex_of_bytes (tl_wifiBSSIDHash (ot_local (rv_transcript r)))
       | _ \<Rightarrow> False))"

definition service_score :: "RecordValue \<Rightarrow> int" where
  "service_score r =
     (case ci_evidence (rv_input r) of None \<Rightarrow> 0
      | Some e \<Rightarrow> if e = [] then 0
          else case Option.bind (strictBase64 e) (\<lambda>b. json_parse (string_of_bytes b)) of
            Some v \<Rightarrow> if wifi_evidence r v then BPS else evidencePresenceBps
          | None \<Rightarrow> evidencePresenceBps)"

section \<open>The report\<close>

record ConfidenceFacets =
  hardware_confidence :: int
  temporal_freshness :: int
  witness_diversity :: int
  spatial_consistency :: int
  behavior_diversity :: int
  service_evidence :: int

record ConfidenceReport =
  cfr_scope :: ConfidenceScope
  cfr_inputsHash :: string
  cfr_facets :: ConfidenceFacets
  cfr_score :: int
  cfr_raw :: int
  cfr_groups :: int
  cfr_weightedBps :: int
  cfr_historyObservations :: int
  cfr_geographicGroups :: int
  cfr_reenrollmentRiskAvailable :: bool
  cfr_status :: string

definition facet_list :: "ConfidenceFacets \<Rightarrow> int list" where
  "facet_list f = [hardware_confidence f, temporal_freshness f, witness_diversity f, spatial_consistency f, behavior_diversity f,
     service_evidence f]"

definition confidence_score :: "ConfidenceFacets \<Rightarrow> int" where
  "confidence_score f = math_floor (sum_list (map2 (*) (facet_list f) confidence_weights)) BPS"

definition input_value :: "ConfidenceInput \<Rightarrow> jsval" where
  "input_value i = JObj ([(''transcript'', JStr (ci_transcript i))] @
     (case ci_evidence i of None \<Rightarrow> [] | Some e \<Rightarrow> [(''evidence'', JStr e)]) @
     [(''reenrollmentCount'', case ci_reenrollmentCount i of None \<Rightarrow> JNull | Some n \<Rightarrow> JNum n)])"

definition confidence_report ::
  "hash \<Rightarrow> ConfidenceScope \<Rightarrow> RecordValue list \<Rightarrow> RecordValue list \<Rightarrow> RecordValue list \<Rightarrow> confidence_error + ConfidenceReport" where
  "confidence_report sha s records target window =
     ebind (of_opt CE_diverged (confidence_groups window target)) (\<lambda>(parent, groups).
     let geographic = map (\<lambda>(_, rs). group_geography rs) groups; witness = witness_score (length groups);
         hardware = group_average hardware_score groups
     in ebind (behavior_loop window groups parent) (\<lambda>behaviors.
     let facets = \<lparr>hardware_confidence = hardware, temporal_freshness = group_average (freshness_score s) groups,
           witness_diversity = witness, spatial_consistency = spatial_score s geographic, behavior_diversity = average behaviors,
           service_evidence = group_average service_score groups\<rparr>
     in ebind (of_opt CE_canonical (confidence_digest sha ''Pathnod/confidence-inputs/v0'' (JArr (map (input_value \<circ> rv_input) records)))) (\<lambda>h.
     Inr \<lparr>cfr_scope = s, cfr_inputsHash = h, cfr_facets = facets, cfr_score = confidence_score facets, cfr_raw = int (length target),
       cfr_groups = int (length groups), cfr_weightedBps = int (length groups) * unknownDeployerWeightBps,
       cfr_historyObservations = int (length window), cfr_geographicGroups = int (length (filter (\<lambda>g. fst g \<noteq> None) geographic)),
       cfr_reenrollmentRiskAvailable = list_all (\<lambda>r. ci_reenrollmentCount (rv_input r) \<noteq> None) target,
       cfr_status = (if length groups \<ge> 3 \<and> witness \<ge> 5000 \<and> hardware \<ge> 8000 then ''VERIFIED'' else ''LOW'')\<rparr>)))"

definition computeConfidence ::
  "hash \<Rightarrow> (string \<Rightarrow> bool) \<Rightarrow> ConfidenceScope \<Rightarrow> ConfidenceInput list \<Rightarrow> confidence_error + ConfidenceReport" where
  "computeConfidence sha valid_key s inputs =
     ebind (confidence_history sha valid_key s inputs) (\<lambda>(records, target, window). confidence_report sha s records target window)"

text \<open>The report as the object that is returned, stored and committed to.\<close>

definition js_num :: "int \<Rightarrow> jsval" where
  "js_num n = JNum (JInt n)"

definition policy_value :: jsval where
  "policy_value = JObj [(''version'', js_num 1), (''scale'', js_num BPS), (''historyWindowMilliseconds'', js_num WINDOW_MS),
     (''witnessTarget'', js_num witnessTarget), (''unknownDeployerWeightBps'', js_num unknownDeployerWeightBps),
     (''cooccurrenceThresholdBps'', js_num cooccurrenceThresholdBps), (''spatialMinimumWitnesses'', js_num (int spatialMinimumWitnesses)),
     (''spatialCapBps'', js_num spatialCapBps), (''gpsAccuracyLimitMeters'', js_num gpsAccuracyLimitMeters),
     (''entropyTargetCategories'', js_num entropyTargetCategories), (''evidencePresenceBps'', js_num evidencePresenceBps),
     (''maximumHistoryRecords'', js_num (int maximumHistoryRecords)), (''maximumHistoryPseudonyms'', js_num (int maximumHistoryPseudonyms)),
     (''hardwareClassBps'', JArr (map js_num hardwareClassBps)), (''weights'', JArr (map js_num confidence_weights))]"

definition scope_value :: "ConfidenceScope \<Rightarrow> jsval" where
  "scope_value s = JObj [(''program'', JStr (cs_program s)), (''protocolID'', JStr (cs_protocolID s)), (''deviceID'', JStr (cs_deviceID s)),
     (''epoch'', JNum (cs_epoch s)), (''policyVersion'', JNum (cs_policyVersion s)), (''epochSeconds'', JNum (cs_epochSeconds s)),
     (''evaluatedAtMilliseconds'', JNum (cs_evaluatedAtMilliseconds s)), (''observationRoot'', JStr (cs_observationRoot s)),
     (''transcriptOrder'', JArr (map JStr (cs_transcriptOrder s))),
     (''claimedGeohash6'', case cs_claimedGeohash6 s of None \<Rightarrow> JNull | Some g \<Rightarrow> JStr g)]"

definition report_value :: "ConfidenceReport \<Rightarrow> jsval" where
  "report_value r = JObj [(''version'', js_num 1), (''policy'', policy_value), (''scope'', scope_value (cfr_scope r)),
     (''inputsHash'', JStr (cfr_inputsHash r)),
     (''facets'', JObj (zip [''hardware_confidence'', ''temporal_freshness'', ''witness_diversity'', ''spatial_consistency'',
        ''behavior_diversity'', ''service_evidence''] (map js_num (facet_list (cfr_facets r))))),
     (''score'', js_num (cfr_score r)),
     (''observers'', JObj [(''raw'', js_num (cfr_raw r)), (''groups'', js_num (cfr_groups r)), (''weightedBps'', js_num (cfr_weightedBps r))]),
     (''coverage'', JObj [(''historyObservations'', js_num (cfr_historyObservations r)),
        (''geographicGroups'', js_num (cfr_geographicGroups r)),
        (''reenrollmentRiskAvailable'', JBool (cfr_reenrollmentRiskAvailable r)), (''crossDeployerHistory'', JStr ''unavailable'')]),
     (''status'', JStr (cfr_status r))]"

section \<open>Nothing fails after the checks\<close>

lemma bump_values: "\<forall>(k, c)\<in>set m. 1 \<le> c \<Longrightarrow> \<forall>(k, c)\<in>set (bump v 1 m). (1 :: int) \<le> c"
  by (induction v "1 :: int" m rule: bump.induct) auto

lemma counts_positive: "c \<in> set (map snd (fold (\<lambda>v. bump v 1) vs [])) \<Longrightarrow> (1 :: int) \<le> c"
proof -
  have "\<forall>(k, c)\<in>set (fold (\<lambda>v. bump v 1) vs m). (1 :: int) \<le> c" if "\<forall>(k, c)\<in>set m. 1 \<le> c" for m
    using that
  proof (induction vs arbitrary: m)
    case (Cons v vs)
    from Cons.IH [OF bump_values [OF Cons.prems]] show ?case by simp
  qed simp
  from this [of "[]"] show "c \<in> set (map snd (fold (\<lambda>v. bump v 1) vs [])) \<Longrightarrow> 1 \<le> c" by auto
qed

lemma log2_Some: "1 \<le> v \<Longrightarrow> \<exists>l. log2 v = Some l"
  by (simp add: log2_def Let_def)

lemma clamp_range: "0 \<le> clamp n \<and> clamp n \<le> BPS"
  by (simp add: clamp_def BPS_def)

lemma entropy_Some: "\<exists>e. entropy vs = Some e \<and> 0 \<le> e \<and> e \<le> BPS"
proof (cases "length vs < 2")
  case True
  then show ?thesis by (simp add: entropy_def BPS_def)
next
  case False
  let ?cs = "map snd (fold (\<lambda>v. bump v 1) vs [])"
  have "log2 c = Some ((the \<circ> log2) c)" if "c \<in> set ?cs" for c using log2_Some [OF counts_positive [OF that]] by auto
  then have "those (map log2 ?cs) = Some (map (the \<circ> log2) ?cs)" by (rule those_map_Some)
  moreover obtain ln where "log2 (int (length vs)) = Some ln" using log2_Some False by fastforce
  moreover obtain lt where "log2 entropyTargetCategories = Some lt" using log2_Some by (fastforce simp: entropyTargetCategories_def)
  ultimately show ?thesis using False clamp_range by (auto simp: entropy_def Let_def)
qed

section \<open>Groups are connected components\<close>

lemma cooccur_sym: "cooccur window a b = cooccur window b a"
proof -
  have "length (filter (\<lambda>s. s \<in> set (slots_of window b)) (slots_of window a)) =
      length (filter (\<lambda>s. s \<in> set (slots_of window a)) (slots_of window b))"
    by (simp add: distinct_length_filter slots_of_def Int_commute)
  then show ?thesis unfolding cooccur_def Let_def by (simp add: max.commute del: of_nat_eq_0_iff)
qed

text \<open>What the loop over the target keeps of the partial groups.\<close>

definition groups_ok :: "(string \<rightharpoonup> string) \<Rightarrow> (string \<times> RecordValue list) list \<Rightarrow> bool" where
  "groups_ok m gs = (distinct (map fst gs) \<and> (\<forall>(k, rs)\<in>set gs. rs \<noteq> [] \<and> (\<forall>r\<in>set rs. root_of m (rv_pseudonym r) k)))"

lemma add_to_group_keys: "set (map fst (add_to_group k r gs)) = insert k (set (map fst gs))"
  by (induction k r gs rule: add_to_group.induct) auto

lemma add_to_group_ok:
  assumes "groups_ok m gs" and "root_of m (rv_pseudonym r) k"
  shows "groups_ok m (add_to_group k r gs)"
  using assms
proof (induction k r gs rule: add_to_group.induct)
  case (2 k r k' rs gs)
  show ?case
  proof (cases "k = k'")
    case False
    have "groups_ok m gs" "k' \<notin> set (map fst gs)" using 2(2) by (auto simp: groups_ok_def)
    with 2(1) [OF False _ 2(3)] False 2(2) add_to_group_keys [of k r gs] show ?thesis by (auto simp: groups_ok_def)
  qed (use 2 in \<open>auto simp: groups_ok_def\<close>)
qed (simp add: groups_ok_def)

lemma mset_add_to_group: "mset (concat (map snd (add_to_group k r gs))) = add_mset r (mset (concat (map snd gs)))"
  by (induction k r gs rule: add_to_group.induct) auto

lemma groups_ok_same: "same_roots m m' \<Longrightarrow> groups_ok m gs \<Longrightarrow> groups_ok m' gs"
  by (simp add: groups_ok_def same_roots_def)

lemma group_loop_ok:
  assumes "forest m" and "\<forall>r\<in>set rs. rv_pseudonym r \<in> dom m" and "groups_ok m gs"
  shows "\<exists>m' gs'. group_loop rs m gs = Some (m', gs') \<and> same_roots m m' \<and> groups_ok m gs' \<and>
    mset (concat (map snd gs')) = mset (concat (map snd gs)) + mset rs"
  using assms
proof (induction rs m gs rule: group_loop.induct)
  case (1 m gs)
  then show ?case by (simp add: same_roots_def)
next
  case (2 r rs m gs)
  obtain k where k: "root_of m (rv_pseudonym r) k" using 2(2,3) unfolding forest_def by auto
  obtain m1 where m1: "uf_find m (rv_pseudonym r) = Some (m1, k)" "same_roots m m1" using uf_find_root [OF k 2(2)] by blast
  have "groups_ok m1 (add_to_group k r gs)" using groups_ok_same [OF m1(2)] add_to_group_ok [OF 2(4) k] by blast
  moreover have "forest m1" "dom m1 = dom m" using forest_same [OF m1(2) 2(2)] m1(2) by (auto simp: same_roots_def)
  ultimately obtain m2 gs2 where m2: "group_loop rs m1 (add_to_group k r gs) = Some (m2, gs2)" "same_roots m1 m2" "groups_ok m1 gs2"
    "mset (concat (map snd gs2)) = mset (concat (map snd (add_to_group k r gs))) + mset rs"
    using 2(1) [OF m1(1) refl] 2(3) by auto
  have "same_roots m m2" "groups_ok m gs2"
    using same_roots_trans [OF m1(2) m2(2)] m2(3) m1(2) by (auto simp: groups_ok_def same_roots_def)
  with m1(1) m2 show ?case by (simp add: mset_add_to_group)
qed

lemma confidence_groups_ok:
  obtains m gs where "confidence_groups window target = Some (m, gs)" "forest m" "set (pseudonyms window target) = dom m"
    "groups_ok m gs" "sorted (map fst gs)" "mset (concat (map snd gs)) = mset target"
    "\<forall>x\<in>dom m. \<forall>y\<in>dom m. same_class m x y \<longleftrightarrow> (x, y) \<in> {(x, y). x \<in> dom m \<and> y \<in> dom m \<and> cooccur window x y}\<^sup>*"
proof -
  let ?ps = "pseudonyms window target"
  obtain m where m: "merge_pairs (cooccur window) (pairs_of ?ps) (discrete ?ps) = Some m" "forest m" "dom m = set ?ps"
    "\<forall>x\<in>set ?ps. \<forall>y\<in>set ?ps. same_class m x y \<longleftrightarrow> (x, y) \<in> {(x, y). x \<in> set ?ps \<and> y \<in> set ?ps \<and> cooccur window x y}\<^sup>*"
    using grouping_components [of "cooccur window" ?ps, OF cooccur_sym] by blast
  have "\<forall>r\<in>set target. rv_pseudonym r \<in> dom m" by (auto simp: m(3) pseudonyms_def)
  moreover have "groups_ok m []" by (simp add: groups_ok_def)
  ultimately obtain m' gs where g: "group_loop target m [] = Some (m', gs)" "same_roots m m'" "groups_ok m gs"
    "mset (concat (map snd gs)) = mset target"
    using group_loop_ok [OF m(2)] by force
  have e: "mset (concat (map snd (sort_key fst gs))) = mset (concat (map snd gs))"
    using mset_map [of "mset \<circ> snd" "sort_key fst gs"] mset_map [of "mset \<circ> snd" gs]
    by (simp add: mset_concat comp_def flip: sum_mset_sum_list)
  show thesis
  proof (rule that)
    show "confidence_groups window target = Some (m', sort_key fst gs)" by (simp add: confidence_groups_def m(1) g(1))
    show "forest m'" using forest_same [OF g(2) m(2)] .
    show d: "set ?ps = dom m'" using g(2) m(3) by (simp add: same_roots_def)
    have "distinct (map fst (sort_key fst gs))" using g(3) by (simp add: groups_ok_def distinct_map)
    then show "groups_ok m' (sort_key fst gs)" using groups_ok_same [OF g(2,3)] by (simp add: groups_ok_def)
    show "mset (concat (map snd (sort_key fst gs))) = mset target" using e g(4) by simp
    have "same_class m' x y \<longleftrightarrow> same_class m x y" for x y using g(2) by (simp add: same_class_def same_roots_def)
    then show "\<forall>x\<in>dom m'. \<forall>y\<in>dom m'. same_class m' x y \<longleftrightarrow>
       (x, y) \<in> {(x, y). x \<in> dom m' \<and> y \<in> dom m' \<and> cooccur window x y}\<^sup>*"
      using m(4) d by simp
  qed simp
qed

section \<open>Ranges\<close>

definition in_bps :: "int \<Rightarrow> bool" where
  "in_bps n = (0 \<le> n \<and> n \<le> BPS)"

lemma in_bps_clamp [simp]: "in_bps (clamp n)"
  using clamp_range by (simp add: in_bps_def)

lemma math_floor_div:
  assumes "0 \<le> a" and "a < 2 ^ 53" and "0 < b"
  shows "math_floor a b = a div b"
proof -
  have "nat a < 2 ^ 53" using assms by (simp add: nat_less_iff)
  with assms show ?thesis by (simp add: math_floor_def floor_quot_exact zdiv_int)
qed

lemma math_floor_nonneg [simp]: "0 \<le> math_floor a b"
  by (simp add: math_floor_def)

text \<open>The floored mean of values in range is in range, for any number of values the limits allow.\<close>

lemma mean_in_bps:
  assumes "0 \<le> t" and "t \<le> BPS * int n" and "0 < n" and "n \<le> maximumHistoryRecords"
  shows "in_bps (math_floor t (int n))"
proof -
  have "t < 2 ^ 53" using assms by (simp add: confidence_constants)
  then have "math_floor t (int n) = t div int n" using assms by (intro math_floor_div) auto
  moreover have "t div int n \<le> BPS * int n div int n" using assms by (intro zdiv_mono1) auto
  ultimately show ?thesis using assms by (simp add: in_bps_def pos_imp_zdiv_nonneg_iff)
qed

lemma sum_in_bps: "\<forall>v\<in>set vs. in_bps v \<Longrightarrow> 0 \<le> sum_list vs \<and> sum_list vs \<le> BPS * int (length vs)"
  by (induction vs) (auto simp: in_bps_def algebra_simps)

lemma average_in_bps:
  assumes "\<forall>v\<in>set vs. in_bps v" and "length vs \<le> maximumHistoryRecords"
  shows "in_bps (average vs)"
  using mean_in_bps [of "sum_list vs" "length vs"] sum_in_bps [OF assms(1)] assms(2)
  by (auto simp: average_def in_bps_def BPS_def)

lemma min_list_in: "xs \<noteq> [] \<Longrightarrow> min_list xs \<in> set (xs :: int list)"
  using min_list_Min [of xs] by simp

lemma group_average_in_bps:
  assumes "\<forall>g\<in>set gs. snd g \<noteq> [] \<and> (\<forall>r\<in>set (snd g). in_bps (f r))" and "length gs \<le> maximumHistoryRecords"
  shows "in_bps (group_average f gs)"
proof -
  have "in_bps (min_list (map f (snd g)))" if "g \<in> set gs" for g
    using assms(1) that min_list_in [of "map f (snd g)"] by auto
  then show ?thesis unfolding group_average_def using assms(2) by (intro average_in_bps) auto
qed

lemma record_hardware:
  assumes "int_in (ot_observerClass (rv_transcript r)) 1 3"
    and "case ci_reenrollmentCount (rv_input r) of None \<Rightarrow> True | Some n \<Rightarrow> int_in n 0 1000000"
  shows "in_bps (hardware_score r)"
proof -
  obtain c where c: "ot_observerClass (rv_transcript r) = JInt c" "1 \<le> c" "c \<le> 3"
    using assms(1) by (cases "ot_observerClass (rv_transcript r)") auto
  let ?base = "hardwareClassBps ! nat c"
  let ?d = "1 + (case ci_reenrollmentCount (rv_input r) of None \<Rightarrow> 0 | Some n \<Rightarrow> math_floor (jint n) 3)"
  have "c \<in> {1, 2, 3}" using c by auto
  then have b: "0 \<le> ?base" "?base \<le> BPS" by (auto simp: hardwareClassBps_def BPS_def)
  have d: "1 \<le> ?d" by (simp split: option.splits)
  have "hardware_score r = ?base div ?d" unfolding hardware_score_def using b d c by (subst math_floor_div) (auto simp: BPS_def)
  moreover have "?base div ?d \<le> ?base" using b d by (metis int_div_less_self order_le_less zdiv_mono2 div_by_1 zero_less_one)
  ultimately show ?thesis using b d by (simp add: in_bps_def pos_imp_zdiv_nonneg_iff)
qed

lemma service_in_bps [simp]: "in_bps (service_score r)"
  by (simp add: service_score_def in_bps_def confidence_constants split: option.splits)

lemma freshness_in_bps [simp]: "in_bps (freshness_score s r)"
  by (simp add: freshness_score_def)

lemma witness_in_bps [simp]: "in_bps (witness_score n)"
  by (simp add: witness_score_def)

text \<open>Votes are sums of qualities.\<close>

lemma bump_total: "sum_list (map snd (bump k v m)) = sum_list (map snd m) + v"
  by (induction k v m rule: bump.induct) auto

lemma bump_nonneg: "\<forall>x\<in>set (map snd m). 0 \<le> x \<Longrightarrow> 0 \<le> v \<Longrightarrow> \<forall>x\<in>set (map snd (bump k v m)). 0 \<le> x"
  by (induction k v m rule: bump.induct) auto

lemma votes_total:
  assumes "\<forall>g\<in>set gs. in_bps (snd g)"
  shows "(\<forall>v\<in>set (map snd (geographic_votes gs)). 0 \<le> v) \<and> sum_list (map snd (geographic_votes gs)) \<le> BPS * int (length gs)"
proof -
  let ?step = "\<lambda>(g, q) votes. case g of None \<Rightarrow> votes | Some geo \<Rightarrow> bump geo q votes"
  have "(\<forall>v\<in>set (map snd (fold ?step gs m)). 0 \<le> v) \<and>
      sum_list (map snd (fold ?step gs m)) \<le> sum_list (map snd m) + BPS * int (length gs)"
    if "\<forall>v\<in>set (map snd m). 0 \<le> v" for m
    using assms that
  proof (induction gs arbitrary: m)
    case (Cons g gs)
    obtain geo q where g: "g = (geo, q)" by (cases g)
    let ?m = "?step g m"
    have q: "0 \<le> q" "q \<le> BPS" using Cons.prems g by (auto simp: in_bps_def)
    have nn: "\<forall>v\<in>set (map snd ?m). 0 \<le> v" using Cons.prems(2) bump_nonneg [OF Cons.prems(2) q(1)] g by (auto split: option.splits)
    have sm: "sum_list (map snd ?m) \<le> sum_list (map snd m) + BPS" using q g by (auto simp: bump_total BPS_def split: option.splits)
    have "\<forall>g\<in>set gs. in_bps (snd g)" using Cons.prems(1) by simp
    note ih = Cons.IH [OF this nn]
    have "BPS * int (length (g # gs)) = BPS + BPS * int (length gs)" by (simp add: algebra_simps)
    with ih sm show ?case unfolding fold_Cons comp_apply by linarith
  qed simp
  from this [of "[]"] show ?thesis by (simp add: geographic_votes_def)
qed

lemma member_le_total: "\<forall>v\<in>set vs. (0 :: int) \<le> v \<Longrightarrow> v \<in> set vs \<Longrightarrow> v \<le> sum_list vs"
  by (induction vs) (auto simp: sum_list_nonneg add_increasing)

lemma fold_max_le: "\<forall>v\<in>set vs. v \<le> b \<Longrightarrow> a \<le> b \<Longrightarrow> a \<le> fold max vs a \<and> fold max vs a \<le> (b :: int)"
proof (induction vs arbitrary: a)
  case (Cons v vs)
  then have "max v a \<le> b" by simp
  with Cons.IH [of "max v a"] Cons.prems show ?case by auto
qed simp

lemma spatial_in_bps:
  assumes "\<forall>g\<in>set gs. in_bps (snd g)" and "gs \<noteq> []" and "length gs \<le> maximumHistoryRecords"
  shows "in_bps (spatial_score s gs)"
proof -
  let ?votes = "geographic_votes gs" and ?n = "int (length gs)"
  have v: "0 \<le> v \<and> v \<le> BPS * ?n" if "v \<in> set (map snd ?votes)" for v
    using votes_total [OF assms(1)] member_le_total [OF _ that] that by fastforce
  have n: "0 \<le> BPS * ?n" by (simp add: BPS_def)
  have a: "in_bps (math_floor (fold max (map snd ?votes) 0) ?n)"
    using fold_max_le [of "map snd ?votes" "BPS * ?n" 0] v n assms(2,3) by (intro mean_in_bps) auto
  have "0 \<le> (case map_of ?votes g of None \<Rightarrow> 0 | Some v \<Rightarrow> v) \<and> (case map_of ?votes g of None \<Rightarrow> 0 | Some v \<Rightarrow> v) \<le> BPS * ?n" for g
    using v n by (auto split: option.splits dest!: map_of_SomeD) (force)+
  then have b: "in_bps (math_floor (case map_of ?votes g of None \<Rightarrow> 0 | Some v \<Rightarrow> v) ?n)" for g
    using assms(2,3) by (intro mean_in_bps) auto
  have h: "in_bps ((x + y) div 2)" if "in_bps x" "in_bps y" for x y using that by (auto simp: in_bps_def)
  have c: "in_bps (min x spatialCapBps)" if "in_bps x" for x using that by (auto simp: in_bps_def spatialCapBps_def)
  show ?thesis using a b h c by (simp add: spatial_score_def Let_def split: option.splits)
qed

lemma geography_in_bps: "rs \<noteq> [] \<Longrightarrow> in_bps (snd (group_geography rs))"
proof -
  assume rs: "rs \<noteq> []"
  let ?us = "filter (\<lambda>r. record_accuracy r > 0 \<and> geohash (record_geohash r)) rs"
  let ?q = "\<lambda>r. clamp (BPS - math_floor (record_accuracy r * BPS) gpsAccuracyLimitMeters)"
  have m: "in_bps (min_list (map ?q ?us))" if "length ?us = length rs"
  proof -
    have "?us \<noteq> []" using that rs by (metis length_0_conv)
    then show ?thesis using min_list_in [of "map ?q ?us"] by auto
  qed
  have "in_bps 0" by (simp add: in_bps_def BPS_def)
  with m show ?thesis by (simp add: group_geography_def Let_def)
qed

lemma filter_group_ok:
  assumes "forest m" and "\<forall>r\<in>set rs. rv_pseudonym r \<in> dom m"
  shows "\<exists>m' hs. filter_group g rs m = Some (m', hs) \<and> same_roots m m'"
  using assms
proof (induction g rs m rule: filter_group.induct)
  case (1 g m)
  then show ?case by (simp add: same_roots_def)
next
  case (2 g r rs m)
  obtain k where k: "root_of m (rv_pseudonym r) k" using 2(2,3) unfolding forest_def by auto
  obtain m1 where m1: "uf_find m (rv_pseudonym r) = Some (m1, k)" "same_roots m m1" using uf_find_root [OF k 2(2)] by blast
  have "forest m1" "dom m1 = dom m" using forest_same [OF m1(2) 2(2)] m1(2) by (auto simp: same_roots_def)
  then obtain m2 hs where m2: "filter_group g rs m1 = Some (m2, hs)" "same_roots m1 m2" using 2(1) [OF m1(1) refl] 2(3) by auto
  with m1 same_roots_trans [OF m1(2) m2(2)] show ?case by simp
qed

lemma history_score_ok: "\<exists>v. history_score hs = Some v \<and> in_bps v"
proof -
  obtain d where d: "entropy (map (\<lambda>r. hex_of_bytes (ot_deviceID (rv_transcript r))) hs) = Some d" "in_bps d"
    using entropy_Some unfolding in_bps_def by blast
  obtain h where h: "entropy (map (\<lambda>r. dec_str (math_floor (ot_observationTimeMilliseconds (rv_transcript r)) 3600000 mod 24)) hs) = Some h"
      "in_bps h" using entropy_Some unfolding in_bps_def by blast
  obtain g where g: "entropy (filter geohash (map record_geohash hs)) = Some g" "in_bps g" using entropy_Some unfolding in_bps_def by blast
  have "in_bps (average [d, h, g])" using d(2) h(2) g(2) by (intro average_in_bps) (auto simp: maximumHistoryRecords_def)
  with d(1) h(1) g(1) show ?thesis by (simp add: history_score_def)
qed

lemma behavior_loop_ok:
  assumes "forest m" and "\<forall>r\<in>set window. rv_pseudonym r \<in> dom m"
  shows "\<exists>vs. behavior_loop window gs m = Inr vs \<and> length vs = length gs \<and> (\<forall>v\<in>set vs. in_bps v)"
  using assms
proof (induction gs arbitrary: m)
  case (Cons g gs)
  obtain k rs where g: "g = (k, rs)" by (cases g)
  obtain m1 hs where m1: "filter_group k window m = Some (m1, hs)" "same_roots m m1" using filter_group_ok [OF Cons.prems] by blast
  obtain v where v: "history_score hs = Some v" "in_bps v" using history_score_ok by blast
  have "forest m1" "dom m1 = dom m" using forest_same [OF m1(2) Cons.prems(1)] m1(2) by (auto simp: same_roots_def)
  then obtain vs where "behavior_loop window gs m1 = Inr vs" "length vs = length gs" "\<forall>v\<in>set vs. in_bps v"
    using Cons.IH [of m1] Cons.prems(2) by auto
  with m1 v g show ?case by simp
qed simp

lemma score_in_bps:
  assumes "\<forall>v\<in>set (facet_list f). in_bps v"
  shows "in_bps (confidence_score f)"
proof -
  let ?t = "sum_list (map2 (*) (facet_list f) confidence_weights)"
  have "0 \<le> ?t" "?t \<le> BPS * 10000" using assms by (auto simp: facet_list_def confidence_weights_def in_bps_def BPS_def)
  then have "math_floor ?t BPS = ?t div BPS" "?t div BPS \<le> BPS * 10000 div BPS" "0 \<le> ?t div BPS"
    by (auto intro!: math_floor_div zdiv_mono1 simp: BPS_def)
  then show ?thesis by (simp add: confidence_score_def in_bps_def BPS_def)
qed

lemma witness_eight:
  assumes "n \<le> maximumHistoryRecords"
  shows "5000 \<le> witness_score n \<longleftrightarrow> 8 \<le> n"
proof -
  have "math_floor (int n * 2000) 3 = int n * 2000 div 3" using assms by (intro math_floor_div) (auto simp: confidence_constants)
  then show ?thesis unfolding witness_score_def clamp_def confidence_constants by auto
qed

section \<open>The checked history\<close>

definition nullifier_of :: "RecordValue \<Rightarrow> string" where
  "nullifier_of r = hex_of_bytes (ot_nullifier (rv_transcript r))"

lemma history_loop_Inr:
  "history_loop sha s inputs N = Inr rs \<longleftrightarrow>
     list_all2 (\<lambda>i r. confidence_record_of sha s i = Inr r) inputs rs \<and> distinct (map nullifier_of rs) \<and>
     N \<inter> nullifier_of ` set rs = {}"
proof (induction inputs arbitrary: N rs)
  case (Cons i inputs)
  show ?case
  proof (cases rs)
    case Nil
    then show ?thesis by (auto simp: ebind_eq_Inr Let_def split: if_splits)
  next
    case (Cons r rs')
    have "history_loop sha s (i # inputs) N = Inr rs \<longleftrightarrow> confidence_record_of sha s i = Inr r \<and> nullifier_of r \<notin> N \<and>
        history_loop sha s inputs (insert (nullifier_of r) N) = Inr rs'"
      by (auto simp: Cons ebind_eq_Inr Let_def nullifier_of_def split: if_splits)
    then show ?thesis unfolding Cons.IH by (auto simp: Cons)
  qed
qed (auto)

lemma record_facts:
  assumes "confidence_record_of sha s i = Inr r"
  shows "rv_input r = i \<and> (case ci_reenrollmentCount i of None \<Rightarrow> True | Some n \<Rightarrow> int_in n 0 1000000) \<and>
    validateObservationTranscript (rv_transcript r) (JInt 5) \<and> rv_pseudonym r = hex_of_bytes (ot_pseudonym (rv_transcript r)) \<and>
    rv_hash r = hex_of_bytes (sha (transcript_domain @ transcript_bytes (rv_transcript r)))"
proof -
  from assms obtain b h where b: "decodeObservationTranscript b (JInt 5) = Some (rv_transcript r)"
      "observationTranscriptHash sha (rv_transcript r) = Some h" "rv_hash r = hex_of_bytes h"
    and i: "rv_input r = i" "case ci_reenrollmentCount i of None \<Rightarrow> True | Some n \<Rightarrow> int_in n 0 1000000"
      "rv_pseudonym r = hex_of_bytes (ot_pseudonym (rv_transcript r))"
    by (auto simp: confidence_record_of_def ebind_eq_Inr of_opt_def split: if_splits option.splits)
  have "validateObservationTranscript (rv_transcript r) (JInt 5)" using decode_Some [OF b(1)] by simp
  with b i show ?thesis by (auto simp: observationTranscriptHash_def encodeObservationTranscript_def)
qed

text \<open>What holds once the checks have passed.\<close>

lemma confidence_history_facts:
  assumes "confidence_history sha valid_key s inputs = Inr (records, target, window)"
  obtains rs where "list_all2 (\<lambda>i r. confidence_record_of sha s i = Inr r) inputs rs" "distinct (map nullifier_of rs)"
    "records = sort_key rv_hash rs" "target = target_records s records" "window = window_records s records" "target \<noteq> []"
    "length records \<le> maximumHistoryRecords" "scope_ok s inputs"
proof -
  from assms obtain rs where h: "history_loop sha s inputs {} = Inr rs" and r: "records = sort_key rv_hash rs"
    "target = target_records s records" "window = window_records s records" "target \<noteq> []" and sc: "scope_ok s inputs"
    by (auto simp: confidence_history_def ebind_eq_Inr Let_def split: if_splits)
  from h [unfolded history_loop_Inr] have "length rs = length inputs" by (auto dest: list_all2_lengthD)
  then have "length records \<le> maximumHistoryRecords" using sc r(1) by (simp add: scope_ok_def)
  moreover have "list_all2 (\<lambda>i r. confidence_record_of sha s i = Inr r) inputs rs" "distinct (map nullifier_of rs)"
    using h unfolding history_loop_Inr by simp_all
  ultimately show thesis using r sc by (intro that)
qed

lemma checked_record:
  assumes "list_all2 (\<lambda>i r. confidence_record_of sha s i = Inr r) inputs rs" and "r \<in> set rs"
  shows "\<exists>i\<in>set inputs. confidence_record_of sha s i = Inr r"
  using assms by (induction rule: list_all2_induct) auto

section \<open>Properties\<close>

text \<open>The inputs of a checked history have a canonical text.\<close>

lemma input_canonical:
  assumes "case ci_reenrollmentCount i of None \<Rightarrow> True | Some n \<Rightarrow> int_in n 0 1000000"
  shows "\<exists>c. canonical (input_value i) = Some c"
proof -
  have "\<exists>c. canonical (case ci_reenrollmentCount i of None \<Rightarrow> JNull | Some n \<Rightarrow> JNum n) = Some c"
  proof (cases "ci_reenrollmentCount i")
    case (Some n)
    with assms show ?thesis by (cases n) auto
  qed simp
  then show ?thesis by (auto simp: input_value_def split: option.splits)
qed

lemma inputs_digest:
  assumes "\<forall>r\<in>set rs. case ci_reenrollmentCount (rv_input r) of None \<Rightarrow> True | Some n \<Rightarrow> int_in n 0 1000000"
  shows "\<exists>h. confidence_digest sha d (JArr (map (input_value \<circ> rv_input) rs)) = Some h"
proof -
  have "canonical ((input_value \<circ> rv_input) r) = Some ((\<lambda>r. the (canonical (input_value (rv_input r)))) r)" if "r \<in> set rs" for r
    using input_canonical [of "rv_input r"] assms that by auto
  then have "those (map (\<lambda>r. canonical ((input_value \<circ> rv_input) r)) rs) = Some (map (\<lambda>r. the (canonical (input_value (rv_input r)))) rs)"
    by (rule those_map_Some)
  then show ?thesis by (simp add: confidence_digest_def canonicalConfidenceBytes_def comp_def)
qed

lemma length_le_concat: "\<forall>x\<in>set xs. x \<noteq> [] \<Longrightarrow> length xs \<le> length (concat xs)"
proof (induction xs)
  case (Cons x xs)
  then have "0 < length x" "length xs \<le> length (concat xs)" by auto
  then have "Suc (length xs) \<le> length x + length (concat xs)" by linarith
  then show ?case by simp
qed simp

text \<open>The report of a checked history: it exists, and where its parts come from.\<close>

lemma confidence_report_ok:
  assumes "confidence_history sha valid_key s inputs = Inr (records, target, window)"
  obtains m gs behaviors report where "confidence_groups window target = Some (m, gs)" "groups_ok m gs"
    "mset (concat (map snd gs)) = mset target" "\<forall>v\<in>set behaviors. in_bps v" "length behaviors = length gs"
    "gs \<noteq> []" "length gs \<le> maximumHistoryRecords"
    "\<forall>g\<in>set gs. snd g \<noteq> [] \<and> set (snd g) \<subseteq> set target"
    "confidence_report sha s records target window = Inr report"
    "cfr_facets report = \<lparr>hardware_confidence = group_average hardware_score gs, temporal_freshness = group_average (freshness_score s) gs,
       witness_diversity = witness_score (length gs), spatial_consistency = spatial_score s (map (\<lambda>(_, rs). group_geography rs) gs),
       behavior_diversity = average behaviors, service_evidence = group_average service_score gs\<rparr>"
    "cfr_score report = confidence_score (cfr_facets report)" "cfr_groups report = int (length gs)" "cfr_raw report = int (length target)"
    "cfr_status report = (if length gs \<ge> 3 \<and> witness_score (length gs) \<ge> 5000 \<and> group_average hardware_score gs \<ge> 8000
       then ''VERIFIED'' else ''LOW'')"
proof -
  obtain rs where h: "list_all2 (\<lambda>i r. confidence_record_of sha s i = Inr r) inputs rs" "records = sort_key rv_hash rs"
    "target = target_records s records" "window = window_records s records" "target \<noteq> []" "length records \<le> maximumHistoryRecords"
    by (rule confidence_history_facts [OF assms])
  obtain m gs where g: "confidence_groups window target = Some (m, gs)" "forest m" "set (pseudonyms window target) = dom m"
    "groups_ok m gs" "mset (concat (map snd gs)) = mset target" by (rule confidence_groups_ok)
  have "\<forall>r\<in>set window. rv_pseudonym r \<in> dom m" unfolding g(3) [symmetric] by (simp add: pseudonyms_def)
  then obtain behaviors where b: "behavior_loop window gs m = Inr behaviors" "length behaviors = length gs" "\<forall>v\<in>set behaviors. in_bps v"
    using behavior_loop_ok [OF g(2)] by blast
  have "\<forall>r\<in>set records. case ci_reenrollmentCount (rv_input r) of None \<Rightarrow> True | Some n \<Rightarrow> int_in n 0 1000000"
    using checked_record [OF h(1)] record_facts h(2) by fastforce
  then obtain d where d: "confidence_digest sha ''Pathnod/confidence-inputs/v0'' (JArr (map (input_value \<circ> rv_input) records)) = Some d"
    using inputs_digest by blast
  have sub: "\<forall>g\<in>set gs. snd g \<noteq> [] \<and> set (snd g) \<subseteq> set target"
    using g(4) mset_eq_setD [OF g(5)] by (fastforce simp: groups_ok_def)
  have len: "length (concat (map snd gs)) = length target" using g(5) by (metis size_mset)
  from length_le_concat [of "map snd gs"] sub len have "length gs \<le> length target" by auto
  also have "\<dots> \<le> length records" by (simp add: h(3) target_records_def)
  finally have n: "length gs \<le> maximumHistoryRecords" using h(6) by simp
  have ne: "gs \<noteq> []" using g(5) h(5) by auto
  obtain report where R: "confidence_report sha s records target window = Inr report"
    by (simp add: confidence_report_def g(1) b(1) d Let_def)
  show thesis
    by (rule that [OF g(1,4,5) b(3,2) ne n sub R]) (use R in \<open>auto simp: confidence_report_def g(1) b(1) d Let_def\<close>)
qed

lemma report_ranges:
  assumes "confidence_history sha valid_key s inputs = Inr (records, target, window)"
    and "confidence_report sha s records target window = Inr report"
  shows "(\<forall>v\<in>set (cfr_score report # facet_list (cfr_facets report)). in_bps v) \<and>
    1 \<le> cfr_groups report \<and> cfr_groups report \<le> cfr_raw report \<and> cfr_raw report \<le> int maximumHistoryRecords \<and>
    (cfr_status report = ''VERIFIED'' \<longleftrightarrow> 8 \<le> cfr_groups report \<and> 8000 \<le> hardware_confidence (cfr_facets report))"
proof -
  obtain rs where hist: "list_all2 (\<lambda>i r. confidence_record_of sha s i = Inr r) inputs rs" "records = sort_key rv_hash rs"
    "target = target_records s records" "length records \<le> maximumHistoryRecords" by (rule confidence_history_facts [OF assms(1)])
  obtain m gs behaviors report' where r: "mset (concat (map snd gs)) = mset target" "\<forall>v\<in>set behaviors. in_bps v"
    "length behaviors = length gs" "gs \<noteq> []" "length gs \<le> maximumHistoryRecords"
    "\<forall>g\<in>set gs. snd g \<noteq> [] \<and> set (snd g) \<subseteq> set target" "confidence_report sha s records target window = Inr report'"
    and f: "cfr_facets report' = \<lparr>hardware_confidence = group_average hardware_score gs, temporal_freshness = group_average (freshness_score s) gs,
       witness_diversity = witness_score (length gs), spatial_consistency = spatial_score s (map (\<lambda>(_, rs). group_geography rs) gs),
       behavior_diversity = average behaviors, service_evidence = group_average service_score gs\<rparr>"
    and p: "cfr_score report' = confidence_score (cfr_facets report')" "cfr_groups report' = int (length gs)"
      "cfr_raw report' = int (length target)"
      "cfr_status report' = (if length gs \<ge> 3 \<and> witness_score (length gs) \<ge> 5000 \<and> group_average hardware_score gs \<ge> 8000
         then ''VERIFIED'' else ''LOW'')"
    by (rule confidence_report_ok [OF assms(1)])
  have eq: "report' = report" using assms(2) r(7) by simp
  have hw: "in_bps (hardware_score x)" if "x \<in> set target" for x
  proof -
    have "x \<in> set rs" using that hist(2,3) by (simp add: target_records_def)
    then obtain i where "confidence_record_of sha s i = Inr x" using checked_record [OF hist(1)] by blast
    from record_facts [OF this] show ?thesis by (intro record_hardware) (auto simp: validateObservationTranscript_def)
  qed
  have ga: "in_bps (group_average f gs)" if "\<And>x. x \<in> set target \<Longrightarrow> in_bps (f x)" for f
    using r(5,6) that by (intro group_average_in_bps) auto
  have sp: "in_bps (spatial_score s (map (\<lambda>(_, rs). group_geography rs) gs))"
    using r(4-6) geography_in_bps by (intro spatial_in_bps) (auto simp: case_prod_beta)
  have facets: "\<forall>v\<in>set (facet_list (cfr_facets report')). in_bps v"
    using ga [of hardware_score, OF hw] ga [of "freshness_score s"] ga [of service_score] average_in_bps [OF r(2)] r(3,5) sp
    by (simp add: f facet_list_def)
  have n: "length gs \<le> length target" using length_le_concat [of "map snd gs"] r(1,6) by (metis (no_types, lifting) imageE length_map list.set_map size_mset)
  have "length target \<le> length records" by (simp add: hist(3) target_records_def)
  then have t: "length target \<le> maximumHistoryRecords" using hist(4) by simp
  have "in_bps (cfr_score report')" using score_in_bps [OF facets] p(1) by simp
  with facets r(4,5) n t show ?thesis unfolding eq [symmetric] using witness_eight [OF r(5)]
    by (auto simp: p(2-4) f Suc_le_eq)
qed

text \<open>Every number of a report is a safe integer, so that the report has a commitment.\<close>

lemma canonical_js_num: "\<bar>n\<bar> < 2 ^ 53 \<Longrightarrow> canonical (js_num n) = Some (JsonInt n)"
  by (auto simp: js_num_def)

lemma policy_canonical: "\<exists>c. canonical policy_value = Some c"
  by (simp add: policy_value_def canonical_js_num confidence_constants)

lemma scope_canonical:
  assumes "scope_ok s inputs"
  shows "\<exists>c. canonical (scope_value s) = Some c"
proof -
  have "int_in (cs_policyVersion s) 0 0xffffffff" "int_in (cs_epochSeconds s) 0 0xffffffff" "int_in (cs_epoch s) 0 0xffffffff"
      "int_in (cs_evaluatedAtMilliseconds s) 0 (2 ^ 53 - 1)"
    using assms by (cases "cs_policyVersion s"; cases "cs_epochSeconds s"; simp add: scope_ok_def)+
  moreover have "\<exists>c. canonical (JNum n) = Some c" if "int_in n 0 0xffffffff \<or> int_in n 0 (2 ^ 53 - 1)" for n
    using that by (cases n) auto
  ultimately obtain a b c d where n: "canonical (JNum (cs_policyVersion s)) = Some a" "canonical (JNum (cs_epochSeconds s)) = Some b"
      "canonical (JNum (cs_epoch s)) = Some c" "canonical (JNum (cs_evaluatedAtMilliseconds s)) = Some d"
    by meson
  have t: "those (map (canonical \<circ> JStr) (cs_transcriptOrder s)) = Some (map JsonStr (cs_transcriptOrder s))"
    by (rule those_map_Some) simp
  show ?thesis using n t by (auto simp: scope_value_def split: option.splits simp del: canonical.simps(4))
qed

lemma report_canonical:
  assumes "confidence_history sha valid_key s inputs = Inr (records, target, window)"
    and "confidence_report sha s records target window = Inr report"
  shows "\<exists>c. confidenceCommitment sha (report_value report) = Some c"
proof -
  obtain rs where hist: "window = window_records s records" "length records \<le> maximumHistoryRecords" "scope_ok s inputs"
    by (rule confidence_history_facts [OF assms(1)])
  note rng = report_ranges [OF assms]
  have "cfr_scope report = s" and w: "cfr_weightedBps report = cfr_groups report * unknownDeployerWeightBps"
      "cfr_historyObservations report = int (length window)" "0 \<le> cfr_geographicGroups report" "cfr_geographicGroups report \<le> cfr_groups report"
    using assms(2) by (auto simp: confidence_report_def ebind_eq_Inr Let_def intro: order_trans [OF length_filter_le])
  moreover have "length window \<le> maximumHistoryRecords" using hist(2) by (simp add: hist(1) window_records_def) (meson length_filter_le order_trans)
  ultimately have b: "\<bar>cfr_weightedBps report\<bar> < 2 ^ 53" "\<bar>cfr_historyObservations report\<bar> < 2 ^ 53" "\<bar>cfr_geographicGroups report\<bar> < 2 ^ 53"
      "\<bar>cfr_raw report\<bar> < 2 ^ 53" "\<bar>cfr_groups report\<bar> < 2 ^ 53" "\<bar>cfr_score report\<bar> < 2 ^ 53"
    using rng by (auto simp: confidence_constants in_bps_def)
  have f: "\<forall>v\<in>set (facet_list (cfr_facets report)). \<bar>v\<bar> < 2 ^ 53" using rng by (auto simp: in_bps_def BPS_def)
  obtain p sc where "canonical policy_value = Some p" "canonical (scope_value (cfr_scope report)) = Some sc"
    using policy_canonical scope_canonical [OF hist(3)] \<open>cfr_scope report = s\<close> by auto
  with b f show ?thesis
    by (simp add: confidenceCommitment_def confidence_digest_def canonicalConfidenceBytes_def report_value_def canonical_js_num facet_list_def)
qed

text \<open>C21. Scoring always returns: once the checks of scope, history and observation tree have passed, every
  \<^verbatim>\<open>find\<close> of the union-find forest terminates, no entropy argument is invalid and the inputs have a canonical
  text, so that a report is the result; and the report has a commitment.\<close>

theorem scoring_returns:
  assumes "confidence_history sha valid_key s inputs = Inr (records, target, window)"
  shows "\<exists>report c. computeConfidence sha valid_key s inputs = Inr report \<and> confidenceCommitment sha (report_value report) = Some c"
proof -
  obtain report where r: "confidence_report sha s records target window = Inr report" by (rule confidence_report_ok [OF assms])
  with assms report_canonical [OF assms r] show ?thesis by (simp add: computeConfidence_def)
qed

text \<open>C22. Every report is in range: the six facets and the score lie between 0 and 10,000, the groups are between
  one and the number of target observations, and the label is VERIFIED exactly when there are at least eight
  groups, which is what a witness diversity of 5,000 takes, and the hardware confidence is at least 8,000.\<close>

theorem report_in_range:
  assumes "computeConfidence sha valid_key s inputs = Inr report"
  shows "list_all (\<lambda>v. 0 \<le> v \<and> v \<le> 10000) (cfr_score report # facet_list (cfr_facets report)) \<and>
    1 \<le> cfr_groups report \<and> cfr_groups report \<le> cfr_raw report \<and>
    (cfr_status report = ''VERIFIED'' \<longleftrightarrow> 8 \<le> cfr_groups report \<and> 8000 \<le> hardware_confidence (cfr_facets report))"
proof -
  obtain records target window where "confidence_history sha valid_key s inputs = Inr (records, target, window)"
    "confidence_report sha s records target window = Inr report"
    using assms by (auto simp: computeConfidence_def ebind_eq_Inr)
  from report_ranges [OF this] show ?thesis by (auto simp: list_all_iff in_bps_def BPS_def)
qed

text \<open>C9. Fusion is exact: the groups partition the target observations, and two observations are in one group
  exactly when their pseudonyms are connected by a chain of pseudonyms each of which shares more than 80 percent
  of its slots with the next.\<close>

theorem groups_are_components:
  "\<exists>m groups. confidence_groups window target = Some (m, groups) \<and>
     mset (concat (map snd groups)) = mset target \<and> distinct (map fst groups) \<and> sorted (map fst groups) \<and>
     (\<forall>r\<in>set target. \<forall>q\<in>set target. (\<exists>g\<in>set groups. r \<in> set (snd g) \<and> q \<in> set (snd g)) \<longleftrightarrow>
        (rv_pseudonym r, rv_pseudonym q) \<in> {(a, b). a \<in> rv_pseudonym ` set (window @ target) \<and> b \<in> rv_pseudonym ` set (window @ target) \<and>
          cooccur window a b}\<^sup>*)"
proof -
  obtain m gs where g: "confidence_groups window target = Some (m, gs)" "forest m" "set (pseudonyms window target) = dom m"
    "groups_ok m gs" "sorted (map fst gs)" "mset (concat (map snd gs)) = mset target"
    and c: "\<forall>x\<in>dom m. \<forall>y\<in>dom m. same_class m x y \<longleftrightarrow>
       (x, y) \<in> {(x, y). x \<in> dom m \<and> y \<in> dom m \<and> cooccur window x y}\<^sup>*" by (rule confidence_groups_ok [of window target])
  have d: "dom m = rv_pseudonym ` set (window @ target)" using g(3) by (auto simp: pseudonyms_def)
  have "(\<exists>g\<in>set gs. r \<in> set (snd g) \<and> q \<in> set (snd g)) \<longleftrightarrow> same_class m (rv_pseudonym r) (rv_pseudonym q)"
    if rq: "r \<in> set target" "q \<in> set target" for r q
  proof -
    have "set target = (\<Union>g\<in>set gs. set (snd g))" using mset_eq_setD [OF g(6)] by auto
    with rq obtain k rs k' rs' where k: "(k, rs) \<in> set gs" "r \<in> set rs" "(k', rs') \<in> set gs" "q \<in> set rs'" by auto
    have ro: "root_of m (rv_pseudonym x) (fst p)" if "p \<in> set gs" "x \<in> set (snd p)" for p x
      using g(4) that by (fastforce simp: groups_ok_def)
    have "same_class m (rv_pseudonym r) (rv_pseudonym q) \<longleftrightarrow> k = k'" using ro [OF k(1)] ro [OF k(3)] k by (simp add: same_class_iff)
    moreover have "(\<exists>g\<in>set gs. r \<in> set (snd g) \<and> q \<in> set (snd g)) \<longleftrightarrow> k = k'"
    proof
      assume "\<exists>g\<in>set gs. r \<in> set (snd g) \<and> q \<in> set (snd g)"
      then obtain p where p: "p \<in> set gs" "r \<in> set (snd p)" "q \<in> set (snd p)" by blast
      have "fst p = k" "fst p = k'"
        using root_of_fun [OF ro [OF p(1,2)] ro [OF k(1)]] root_of_fun [OF ro [OF p(1,3)] ro [OF k(3)]] k by simp_all
      then show "k = k'" by simp
    next
      assume "k = k'"
      then have "rs = rs'" using k(1,3) g(4) by (auto simp: groups_ok_def dest: eq_key_imp_eq_value)
      with k show "\<exists>g\<in>set gs. r \<in> set (snd g) \<and> q \<in> set (snd g)" by force
    qed
    ultimately show ?thesis by simp
  qed
  with g c d show ?thesis by (intro exI [of _ m] exI [of _ gs]) (auto simp: groups_ok_def)
qed

text \<open>A report does not depend on the order in which the history is given, as long as no two of its transcripts
  have the same hash.\<close>

theorem report_order_independent:
  assumes "computeConfidence sha valid_key s inputs = Inr report" and "mset inputs' = mset inputs"
    and "\<And>i j a b. i \<in> set inputs \<Longrightarrow> j \<in> set inputs \<Longrightarrow> confidence_record_of sha s i = Inr a \<Longrightarrow> confidence_record_of sha s j = Inr b \<Longrightarrow>
      rv_hash a = rv_hash b \<Longrightarrow> rv_transcript a = rv_transcript b"
  shows "computeConfidence sha valid_key s inputs' = Inr report"
proof -
  obtain records target window where h: "confidence_history sha valid_key s inputs = Inr (records, target, window)"
    using assms(1) by (auto simp: computeConfidence_def ebind_eq_Inr)
  obtain rs where r: "list_all2 (\<lambda>i r. confidence_record_of sha s i = Inr r) inputs rs" "distinct (map nullifier_of rs)"
    by (rule confidence_history_facts [OF h])
  obtain rs' where r': "list_all2 (\<lambda>i r. confidence_record_of sha s i = Inr r) inputs' rs'" "mset rs' = mset rs"
    using list_all2_reorder_left_invariance [OF r(1) assms(2)] by blast
  have "distinct (map nullifier_of rs')" using r(2) r'(2) by (metis mset_eq_imp_distinct_iff mset_map)
  with r' have l: "history_loop sha s inputs {} = Inr rs" "history_loop sha s inputs' {} = Inr rs'"
    using r by (simp_all add: history_loop_Inr)
  have "inj_on rv_hash (set rs)"
  proof (rule inj_onI)
    fix a b assume a: "a \<in> set rs" "b \<in> set rs" "rv_hash a = rv_hash b"
    obtain i j where "i \<in> set inputs" "j \<in> set inputs" "confidence_record_of sha s i = Inr a" "confidence_record_of sha s j = Inr b"
      using checked_record [OF r(1)] a by metis
    from assms(3) [OF this a(3)] have "nullifier_of a = nullifier_of b" by (simp add: nullifier_of_def)
    with r(2) a show "a = b" by (auto simp: distinct_map dest: inj_onD)
  qed
  moreover have "distinct rs" using r(2) by (simp add: distinct_map)
  ultimately have "distinct (map rv_hash rs)" by (simp add: distinct_map)
  from sort_key_unique [OF r'(2) [symmetric] this] have "sort_key rv_hash rs' = sort_key rv_hash rs" ..
  moreover have "scope_ok s inputs' = scope_ok s inputs" using assms(2) by (simp add: scope_ok_def) (metis mset_zero_iff size_mset)
  ultimately have "confidence_history sha valid_key s inputs' = confidence_history sha valid_key s inputs"
    unfolding confidence_history_def l by simp
  with assms(1) show ?thesis by (simp add: computeConfidence_def)
qed

section \<open>A concrete history\<close>

lemma one_leaf_tree: "\<exists>t. append_all (\<lambda>_. zeros 32) [hex_of_bytes (zeros 32)] empty_tree = Some t \<and> tr_root t = zeros 32"
proof -
  have "is_hex 64 (hex_of_bytes (zeros 32))" using is_hex_of_bytes [of "zeros 32"] by simp
  moreover have "those (replicate 16 (Some (zeros 32))) = Some (replicate 16 (zeros 32))" by (simp add: eval_nat_numeral)
  moreover have "\<exists>ys. append_levels (\<lambda>_. zeros 32) 0 ls xs (zeros 32) (zeros 32) = Some (ys, zeros 32)" for ls xs
    by (induction ls arbitrary: xs) (simp_all add: observationTreeNode_def)
  then obtain ys where "append_levels (\<lambda>_. zeros 32) 0 [0..<OBSERVATION_TREE_DEPTH] (replicate 16 (zeros 32)) (zeros 32) (zeros 32) = Some (ys, zeros 32)"
    by blast
  ultimately show ?thesis by (simp add: appendObservationTree_def empty_tree_def observationTreeLeaf_def)
qed

definition demo_input :: "nat \<Rightarrow> ConfidenceInput" where
  "demo_input n = \<lparr>ci_transcript = b64_enc (transcript_bytes (sample_transcript\<lparr>ot_nullifier := be_num 32 (int n)\<rparr>)), ci_evidence = None,
     ci_reenrollmentCount = None\<rparr>"

definition demo_scope :: ConfidenceScope where
  "demo_scope = \<lparr>cs_program = ''p'', cs_protocolID = hex_of_bytes (replicate 32 1), cs_deviceID = hex_of_bytes (replicate 32 2),
     cs_epoch = JInt 5, cs_policyVersion = JInt 1, cs_epochSeconds = JInt 60, cs_evaluatedAtMilliseconds = JInt 300000,
     cs_observationRoot = hex_of_bytes (zeros 32), cs_transcriptOrder = [hex_of_bytes (zeros 32)], cs_claimedGeohash6 = None\<rparr>"

definition demo_record :: RecordValue where
  "demo_record = \<lparr>rv_hash = hex_of_bytes (zeros 32), rv_transcript = sample_transcript, rv_input = demo_input 0,
     rv_pseudonym = hex_of_bytes (zeros 32), rv_slot = hex_of_bytes (replicate 32 2) @ ''/'' @ dec_str 5\<rparr>"

lemma strictBase64_enc: "length b \<le> 98304 \<Longrightarrow> strictBase64 (b64_enc b) = Some b"
  by (simp add: strictBase64_def length_b64_enc Let_def del: b64_enc.simps)

lemma demo_record_of: "confidence_record_of (\<lambda>_. zeros 32) demo_scope (demo_input 0) = Inr demo_record"
proof -
  have t: "sample_transcript\<lparr>ot_nullifier := be_num 32 (int 0)\<rparr> = sample_transcript"
    by (simp add: sample_transcript_def) code_simp
  have l: "length (transcript_bytes sample_transcript) = 596"
    using length_transcript_bytes [OF sample_transcript_valid] by (simp add: sample_transcript_def)
  have b: "strictBase64 (b64_enc (transcript_bytes sample_transcript)) = Some (transcript_bytes sample_transcript)"
    using strictBase64_enc l by simp
  have d: "decodeObservationTranscript (transcript_bytes sample_transcript) (JInt 5) = Some sample_transcript"
    by (rule decode_transcript_bytes [OF sample_transcript_valid])
  have h: "observationTranscriptHash (\<lambda>_. zeros 32) sample_transcript = Some (zeros 32)"
    using sample_transcript_valid by (simp add: observationTranscriptHash_def encodeObservationTranscript_def)
  have f: "ot_protocolID sample_transcript = replicate 32 1" "ot_observationTimeMilliseconds sample_transcript = 300000"
      "ot_epoch sample_transcript = JInt 5" "ot_evidenceHash sample_transcript = zeros 32" "ot_pseudonym sample_transcript = zeros 32"
      "ot_deviceID sample_transcript = replicate 32 2"
    by (simp_all add: sample_transcript_def)
  show ?thesis
    by (simp add: confidence_record_of_def demo_input_def t [simplified] b d h f demo_scope_def input_evidence_def
        observationEvidenceHash_def demo_record_def del: b64_enc.simps)
qed

lemma demo_history:
  "confidence_history (\<lambda>_. zeros 32) (\<lambda>_. True) demo_scope [demo_input 0] = Inr ([demo_record], [demo_record], [demo_record])"
proof -
  have hex: "is_hex 64 (hex_of_bytes (zeros 32))" "is_hex 64 (hex_of_bytes (replicate 32 1))" "is_hex 64 (hex_of_bytes (replicate 32 2))"
    using is_hex_of_bytes [of "zeros 32"] is_hex_of_bytes [of "replicate 32 1"] is_hex_of_bytes [of "replicate 32 2"] by simp_all
  have s: "scope_ok demo_scope [demo_input 0]" using hex by (simp add: scope_ok_def demo_scope_def maximumHistoryRecords_def)
  have h: "history_loop (\<lambda>_. zeros 32) demo_scope [demo_input 0] {} = Inr [demo_record]" using demo_record_of by simp
  have f: "target_records demo_scope [demo_record] = [demo_record]" "window_records demo_scope [demo_record] = [demo_record]"
    "rv_hash demo_record = hex_of_bytes (zeros 32)"
    by (simp_all add: target_records_def window_records_def demo_scope_def demo_record_def sample_transcript_def WINDOW_MS_def)
  obtain t where t: "append_all (\<lambda>_. zeros 32) [hex_of_bytes (zeros 32)] empty_tree = Some t" "tr_root t = zeros 32"
    using one_leaf_tree by blast
  have o: "cs_transcriptOrder demo_scope = [hex_of_bytes (zeros 32)]" "cs_observationRoot demo_scope = hex_of_bytes (zeros 32)"
    by (simp_all add: demo_scope_def)
  have p: "length (pseudonyms [demo_record] [demo_record]) \<le> maximumHistoryPseudonyms"
    by (simp add: pseudonyms_def maximumHistoryPseudonyms_def)
  show ?thesis unfolding confidence_history_def using p by (simp add: s h [simplified] demo_record_of f o t Let_def del: append_all.simps)
qed

theorem scoring_returns_witness:
  "\<exists>report c. computeConfidence (\<lambda>_. zeros 32) (\<lambda>_. True) demo_scope [demo_input 0] = Inr report \<and>
     confidenceCommitment (\<lambda>_. zeros 32) (report_value report) = Some c"
  by (rule scoring_returns [OF demo_history])

theorem report_in_range_witness:
  "\<exists>report. computeConfidence (\<lambda>_. zeros 32) (\<lambda>_. True) demo_scope [demo_input 0] = Inr report \<and>
     0 \<le> cfr_score report \<and> cfr_score report \<le> 10000"
proof -
  obtain m gs b report where "confidence_report (\<lambda>_. zeros 32) demo_scope [demo_record] [demo_record] [demo_record] = Inr report"
    by (rule confidence_report_ok [OF demo_history])
  then have "computeConfidence (\<lambda>_. zeros 32) (\<lambda>_. True) demo_scope [demo_input 0] = Inr report"
    by (simp add: computeConfidence_def demo_history)
  from report_in_range [OF this] this show ?thesis by auto
qed

theorem groups_are_components_witness:
  "\<exists>m groups. confidence_groups [demo_record] [demo_record] = Some (m, groups) \<and>
     (\<exists>g\<in>set groups. demo_record \<in> set (snd g))"
  using groups_are_components [of "[demo_record]" "[demo_record]"] by auto

theorem report_order_independent_witness:
  "\<exists>report. computeConfidence (\<lambda>_. zeros 32) (\<lambda>_. True) demo_scope [demo_input 0] = Inr report"
proof -
  obtain m gs b report where "confidence_report (\<lambda>_. zeros 32) demo_scope [demo_record] [demo_record] [demo_record] = Inr report"
    by (rule confidence_report_ok [OF demo_history])
  then have "computeConfidence (\<lambda>_. zeros 32) (\<lambda>_. True) demo_scope [demo_input 0] = Inr report"
    by (simp add: computeConfidence_def demo_history)
  from report_order_independent [OF this, of "[demo_input 0]"] show ?thesis by auto
qed

end
