(* ===== verification/Recovery.thy ===== *)
theory Recovery
  imports Confidence "HOL-Library.Sublist"
begin

text \<open>
  The recovery of a publication from its journal: \<^verbatim>\<open>recoverConfidencePublication\<close> of \<^verbatim>\<open>confidence-recovery.ts\<close>,
  \<^verbatim>\<open>recoverGate2Replay\<close> of \<^verbatim>\<open>gate2-recovery.ts\<close> and the journal file both write.  A run is the list of
  the outside calls it made, in order, and its outcome; the answers of the calls are arguments and any of them may
  fail.  A crash leaves a prefix of the calls.  The proofs use weakest preconditions over the calls made so far.
\<close>

section \<open>Runs\<close>

datatype recovery_error =
    RE_io | RE_attempts | RE_version | RE_state | RE_height | RE_not_found | RE_previous | RE_expired | RE_signature
  | RE_not_finalized | RE_hash | RE_root | RE_count | RE_slots | RE_nullifier | RE_instruction | RE_ambiguous | RE_accounting

type_synonym ('e, 'a) run = "'e list \<times> (recovery_error + 'a)"

definition ret :: "'a \<Rightarrow> ('e, 'a) run" where
  "ret a = ([], Inr a)"

definition act :: "'e \<Rightarrow> 'a option \<Rightarrow> ('e, 'a) run" where
  "act e answer = ([e], of_opt RE_io answer)"

definition require :: "recovery_error \<Rightarrow> bool \<Rightarrow> ('e, unit) run" where
  "require e b = ([], if b then Inr () else Inl e)"

definition rbind :: "('e, 'a) run \<Rightarrow> ('a \<Rightarrow> ('e, 'b) run) \<Rightarrow> ('e, 'b) run" where
  "rbind m f = (case snd m of Inl e \<Rightarrow> (fst m, Inl e) | Inr a \<Rightarrow> (fst m @ fst (f a), snd (f a)))"

datatype 'j call = C_inspect string | C_height | C_save 'j | C_send bytes | C_pause int | C_snapshot

record tx_status =
  ts_confirmation :: "string option"
  ts_err :: jsval

text \<open>The answers: \<open>None\<close> is a rejected promise.  Inspections and saves are numbered in the order of the run.\<close>

record ('j, 'p) recovery_io =
  io_inspect :: "nat \<Rightarrow> tx_status option option"
  io_blockHeight :: "int option"
  io_send :: "bytes \<Rightarrow> string option"
  io_save :: "nat \<Rightarrow> 'j \<Rightarrow> unit option"
  io_snapshot :: "'p option"

definition finalized :: "tx_status option \<Rightarrow> bool" where
  "finalized r = (case r of None \<Rightarrow> False | Some s \<Rightarrow> ts_confirmation s = Some ''finalized'')"

section \<open>Confidence publication\<close>

record ConfidencePublicationJournal =
  cj_version :: jsnum
  cj_target :: string
  cj_report :: ConfidenceReport
  cj_commitment :: string
  cj_previousCommitment :: string
  cj_signature :: string
  cj_wire :: string
  cj_lastValidBlockHeight :: jsnum
  cj_state :: string

record ConfidencePublicationState =
  cp_commitment :: string
  cp_observationRoot :: string
  cp_observerCount :: int
  cp_paidSlotsUsed :: int

datatype recovery_action = Publish | Status | Report

record recovery_options =
  ro_action :: recovery_action
  ro_currentCommitment :: string
  ro_paidSlotsUsed :: int
  ro_attempts :: "jsnum option"

type_synonym confidence_io = "(ConfidencePublicationJournal, ConfidencePublicationState) recovery_io"

definition recovery_attempts :: "recovery_options \<Rightarrow> jsnum" where
  "recovery_attempts opts = (if ro_action opts = Status then JInt 1 else case ro_attempts opts of None \<Rightarrow> JInt 45 | Some n \<Rightarrow> n)"

definition confidence_submit ::
  "confidence_io \<Rightarrow> recovery_options \<Rightarrow> ConfidencePublicationJournal \<Rightarrow> tx_status option \<Rightarrow>
     (ConfidencePublicationJournal call, ConfidencePublicationJournal \<times> tx_status option \<times> nat) run" where
  "confidence_submit io opts j result =
     (if result = None \<and> ro_currentCommitment opts \<noteq> cj_commitment j then
        rbind (require RE_not_found (ro_action opts = Publish)) (\<lambda>_.
        rbind (require RE_previous (ro_currentCommitment opts = cj_previousCommitment j)) (\<lambda>_.
        rbind (act C_height (io_blockHeight io)) (\<lambda>height.
        rbind (require RE_expired (height \<le> jint (cj_lastValidBlockHeight j))) (\<lambda>_.
        let j = j\<lparr>cj_state := ''submitted''\<rparr>; wire = node_b64 (cj_wire j)
        in rbind (act (C_save j) (io_save io 0 j)) (\<lambda>_.
        rbind (act (C_send wire) (io_send io wire)) (\<lambda>signature.
        rbind (require RE_signature (signature = cj_signature j)) (\<lambda>_.
        rbind (act (C_inspect (cj_signature j)) (io_inspect io 1)) (\<lambda>result.
        ret (j, result, 2)))))))))
      else ret (j, result, 1))"

fun confidence_poll ::
  "confidence_io \<Rightarrow> string \<Rightarrow> nat \<Rightarrow> nat \<Rightarrow> tx_status option \<Rightarrow> (ConfidencePublicationJournal call, tx_status option) run" where
  "confidence_poll io signature 0 i result = ret result"
| "confidence_poll io signature (Suc n) i result =
     (if finalized result then ret result
      else if n > 0 then
        rbind (act (C_pause 1000) (Some ())) (\<lambda>_.
        rbind (act (C_inspect signature) (io_inspect io i)) (\<lambda>result.
        confidence_poll io signature n (Suc i) result))
      else confidence_poll io signature n i result)"

definition confidence_confirm ::
  "confidence_io \<Rightarrow> recovery_options \<Rightarrow> ConfidencePublicationJournal \<Rightarrow> (ConfidencePublicationJournal call, unit) run" where
  "confidence_confirm io opts j =
     rbind (act C_snapshot (io_snapshot io)) (\<lambda>state.
     let scope = cfr_scope (cj_report j)
     in rbind (require RE_hash (cp_commitment state = cj_commitment j)) (\<lambda>_.
     rbind (require RE_root (cp_observationRoot state = cs_observationRoot scope)) (\<lambda>_.
     rbind (require RE_count (cp_observerCount state = int (length (cs_transcriptOrder scope)))) (\<lambda>_.
     rbind (require RE_slots (cp_paidSlotsUsed state = ro_paidSlotsUsed opts)) (\<lambda>_.
     let j = j\<lparr>cj_state := ''confirmed''\<rparr>
     in act (C_save j) (io_save io 1 j))))))"

definition recoverConfidencePublication ::
  "confidence_io \<Rightarrow> recovery_options \<Rightarrow> ConfidencePublicationJournal \<Rightarrow> (ConfidencePublicationJournal call, unit) run" where
  "recoverConfidencePublication io opts j =
     (let attempts = recovery_attempts opts
      in rbind (require RE_attempts (int_in attempts 1 45)) (\<lambda>_.
      rbind (require RE_version (cj_version j = JInt 1)) (\<lambda>_.
      rbind (require RE_state (cj_state j \<in> {''prepared'', ''submitted'', ''confirmed''})) (\<lambda>_.
      rbind (require RE_height (int_in (cj_lastValidBlockHeight j) 0 (2 ^ 53 - 1))) (\<lambda>_.
      rbind (act (C_inspect (cj_signature j)) (io_inspect io 0)) (\<lambda>result.
      rbind (confidence_submit io opts j result) (\<lambda>(j, result, i).
      rbind (confidence_poll io (cj_signature j) (nat (jint attempts)) i result) (\<lambda>result.
      rbind (require RE_not_finalized (finalized result \<and> (case result of None \<Rightarrow> False | Some s \<Rightarrow> ts_err s = JNull))) (\<lambda>_.
      confidence_confirm io opts j)))))))))"

section \<open>Gate 2 replay\<close>

record Gate2Snapshot =
  gs_commitment :: string
  gs_independentObservers :: int
  gs_paidSlotsUsed :: int
  gs_observationRoot :: string
  gs_slotPaid :: bool
  gs_gross :: string
  gs_fees :: string
  gs_available :: string
  gs_withdrawn :: string
  gs_payoutNonce :: string
  gs_escrow :: string
  gs_feeVault :: string
  gs_payoutVault :: string

text \<open>Every snapshot has the same thirteen keys, so that the comparison of the keys is the comparison of the
  fields.\<close>

definition snapshot_fields :: "Gate2Snapshot \<Rightarrow> (string \<times> jsval) list" where
  "snapshot_fields s = [(''commitment'', JStr (gs_commitment s)), (''independentObservers'', JNum (JInt (gs_independentObservers s))),
     (''paidSlotsUsed'', JNum (JInt (gs_paidSlotsUsed s))), (''observationRoot'', JStr (gs_observationRoot s)),
     (''slotPaid'', JBool (gs_slotPaid s)), (''gross'', JStr (gs_gross s)), (''fees'', JStr (gs_fees s)),
     (''available'', JStr (gs_available s)), (''withdrawn'', JStr (gs_withdrawn s)), (''payoutNonce'', JStr (gs_payoutNonce s)),
     (''escrow'', JStr (gs_escrow s)), (''feeVault'', JStr (gs_feeVault s)), (''payoutVault'', JStr (gs_payoutVault s))]"

definition sameGate2Accounting :: "Gate2Snapshot \<Rightarrow> Gate2Snapshot \<Rightarrow> bool" where
  "sameGate2Accounting before after =
     (let b = snapshot_fields before; a = snapshot_fields after
      in length b = length a \<and> list_all (\<lambda>(k, v). map_of a k = Some v) b)"

definition nullifierRejection :: "jsval \<Rightarrow> bool" where
  "nullifierRejection err =
     (case js_get err ''InstructionError'' of
        JArr vs \<Rightarrow> 1 < length vs \<and> js_get (vs ! 1) ''Custom'' = JNum (JInt 6001)
      | _ \<Rightarrow> False)"

definition error_instruction :: "jsval \<Rightarrow> jsval" where
  "error_instruction err = (case js_get err ''InstructionError'' of JArr (v # _) \<Rightarrow> v | _ \<Rightarrow> JUndef)"

record Gate2ReplayJournal =
  gj_version :: jsnum
  gj_target :: string
  gj_hash :: string
  gj_wire :: string
  gj_signature :: string
  gj_lastValidBlockHeight :: jsnum
  gj_before :: Gate2Snapshot
  gj_after :: "Gate2Snapshot option"
  gj_state :: string

type_synonym gate2_io = "(Gate2ReplayJournal, Gate2Snapshot) recovery_io"

definition gate2_submit ::
  "gate2_io \<Rightarrow> Gate2ReplayJournal \<Rightarrow> tx_status option \<Rightarrow>
     (Gate2ReplayJournal call, Gate2ReplayJournal \<times> tx_status option \<times> nat) run" where
  "gate2_submit io j status =
     (if status = None then
        rbind (act C_height (io_blockHeight io)) (\<lambda>height.
        rbind (require RE_expired (height \<le> jint (gj_lastValidBlockHeight j))) (\<lambda>_.
        let j = j\<lparr>gj_state := ''submitted''\<rparr>; wire = node_b64 (gj_wire j)
        in rbind (act (C_save j) (io_save io 0 j)) (\<lambda>_.
        rbind (act (C_send wire) (io_send io wire)) (\<lambda>signature.
        rbind (require RE_signature (signature = gj_signature j)) (\<lambda>_.
        rbind (act (C_inspect (gj_signature j)) (io_inspect io 1)) (\<lambda>status.
        ret (j, status, 2)))))))
      else ret (j, status, 1))"

fun gate2_poll :: "gate2_io \<Rightarrow> string \<Rightarrow> nat \<Rightarrow> nat \<Rightarrow> tx_status option \<Rightarrow> (Gate2ReplayJournal call, bool) run" where
  "gate2_poll io signature 0 i status = ret False"
| "gate2_poll io signature (Suc n) i status =
     (if finalized status then
        let err = (case status of None \<Rightarrow> JUndef | Some s \<Rightarrow> ts_err s)
        in rbind (require RE_nullifier (nullifierRejection err)) (\<lambda>_.
           rbind (require RE_instruction (error_instruction err = JNum (JInt 2))) (\<lambda>_. ret True))
      else if n > 0 then
        rbind (act (C_pause 1000) (Some ())) (\<lambda>_.
        rbind (act (C_inspect signature) (io_inspect io i)) (\<lambda>status.
        gate2_poll io signature n (Suc i) status))
      else gate2_poll io signature n i status)"

definition recoverGate2Replay :: "gate2_io \<Rightarrow> jsnum \<Rightarrow> Gate2ReplayJournal \<Rightarrow> (Gate2ReplayJournal call, unit) run" where
  "recoverGate2Replay io attempts j =
     rbind (require RE_attempts (int_in attempts 1 45)) (\<lambda>_.
     rbind (require RE_version (gj_version j = JInt 1)) (\<lambda>_.
     rbind (require RE_state (gj_state j \<in> {''prepared'', ''submitted'', ''rejected''})) (\<lambda>_.
     rbind (require RE_height (int_in (gj_lastValidBlockHeight j) 0 (2 ^ 53 - 1))) (\<lambda>_.
     rbind (act (C_inspect (gj_signature j)) (io_inspect io 0)) (\<lambda>status.
     rbind (gate2_submit io j status) (\<lambda>(j, status, i).
     rbind (gate2_poll io (gj_signature j) (nat (jint attempts)) i status) (\<lambda>rejected.
     rbind (require RE_ambiguous rejected) (\<lambda>_.
     rbind (act C_snapshot (io_snapshot io)) (\<lambda>after.
     rbind (require RE_accounting (sameGate2Accounting (gj_before j) after)) (\<lambda>_.
     let j = j\<lparr>gj_after := Some after, gj_state := ''rejected''\<rparr>
     in act (C_save j) (io_save io 1 j)))))))))))"

section \<open>The journal file\<close>

text \<open>\<^verbatim>\<open>JSON.stringify(value, null, 2)\<close>.\<close>

definition newline :: string where "newline = [CHR 0x0A]"

fun pretty :: "string \<Rightarrow> json \<Rightarrow> string" where
  "pretty ind (JsonArr vs) =
     (if vs = [] then ''[]''
      else ''['' @ commas (map (\<lambda>v. newline @ ind @ ''  '' @ pretty (ind @ ''  '') v) vs) @ newline @ ind @ '']'')"
| "pretty ind (JsonObj fs) =
     (if fs = [] then ''{}''
      else ''{'' @ commas (map (\<lambda>(k, v). newline @ ind @ ''  '' @ json_str k @ '': '' @ pretty (ind @ ''  '') v) fs) @ newline @ ind @ ''}'')"
| "pretty ind v = stringify v"

type_synonym files = "string \<rightharpoonup> string"

text \<open>The states of the directory while an artifact is written: the temporary file is truncated, filled in pieces
  (the text is complete at some point before the descriptor is closed), and renamed.\<close>

definition writeConfidenceArtifact :: "files \<Rightarrow> string \<Rightarrow> json \<Rightarrow> nat list \<Rightarrow> files list" where
  "writeConfidenceArtifact fs file v cuts =
     (let text = pretty [] v @ newline; tmp = file @ ''.next''
      in [fs, fs(tmp \<mapsto> [])] @ map (\<lambda>n. fs(tmp \<mapsto> take n text)) cuts @ [fs(tmp \<mapsto> text), (fs(file \<mapsto> text))(tmp := None)])"

definition writeGate2Artifact :: "files \<Rightarrow> string \<Rightarrow> json \<Rightarrow> nat list \<Rightarrow> files list" where
  "writeGate2Artifact = writeConfidenceArtifact"

lemma artifact_atomic:
  assumes "s \<in> set (writeConfidenceArtifact fs file v cuts)"
  shows "s file = fs file \<or> s file = Some (pretty [] v @ newline)" and "f \<notin> {file, file @ ''.next''} \<Longrightarrow> s f = fs f"
  using assms by (auto simp: writeConfidenceArtifact_def Let_def)

lemma artifact_written: "last (writeConfidenceArtifact fs file v cuts) file = Some (pretty [] v @ newline)"
  by (simp add: writeConfidenceArtifact_def Let_def)

section \<open>Weakest preconditions\<close>

text \<open>Every call satisfies the guard at the calls made before it, and a result satisfies the postcondition.\<close>

definition wp :: "('e, 'a) run \<Rightarrow> ('e list \<Rightarrow> 'e \<Rightarrow> bool) \<Rightarrow> ('e list \<Rightarrow> 'a \<Rightarrow> bool) \<Rightarrow> 'e list \<Rightarrow> bool" where
  "wp m G Q h = ((\<forall>us e vs. fst m = us @ e # vs \<longrightarrow> G (h @ us) e) \<and> (\<forall>a. snd m = Inr a \<longrightarrow> Q (h @ fst m) a))"

lemma split_append:
  "xs @ ys = us @ e # vs \<longleftrightarrow> (\<exists>ws. xs = us @ e # ws \<and> vs = ws @ ys) \<or> (\<exists>ws. us = xs @ ws \<and> ys = ws @ e # vs)"
  by (auto simp: append_eq_append_conv2 append_eq_Cons_conv)

lemma wp_ret [simp]: "wp (ret a) G Q h \<longleftrightarrow> Q h a"
  by (simp add: wp_def ret_def)

lemma wp_require [simp]: "wp (require e b) G Q h \<longleftrightarrow> (b \<longrightarrow> Q h ())"
  by (simp add: wp_def require_def)

lemma wp_act [simp]: "wp (act e answer) G Q h \<longleftrightarrow> G h e \<and> (\<forall>a. answer = Some a \<longrightarrow> Q (h @ [e]) a)"
  by (auto simp: wp_def act_def Cons_eq_append_conv)

lemma wp_rbind [simp]: "wp (rbind m f) G Q h \<longleftrightarrow> wp m G (\<lambda>h' a. wp (f a) G Q h') h"
  by (cases "snd m") (auto simp: wp_def rbind_def split_append)

lemma wp_mono: "wp m G Q h \<Longrightarrow> (\<And>us a. Q (h @ us) a \<Longrightarrow> Q' (h @ us) a) \<Longrightarrow> wp m G Q' h"
  by (simp add: wp_def)

lemma wpD:
  assumes "wp m G Q []"
  shows "fst m = us @ e # vs \<Longrightarrow> G us e" and "snd m = Inr a \<Longrightarrow> Q (fst m) a"
  using assms by (auto simp: wp_def)

section \<open>What a run of a recovery may do\<close>

definition polls :: "'j call list \<Rightarrow> bool" where
  "polls us = list_all (\<lambda>e. case e of C_inspect _ \<Rightarrow> True | C_pause _ \<Rightarrow> True | _ \<Rightarrow> False) us"

lemma wp_confidence_poll:
  assumes "\<And>h. G h (C_inspect signature)" and "\<And>h. G h (C_pause 1000)"
    and "\<And>us r. r = result \<or> (\<exists>k. io_inspect io k = Some r) \<Longrightarrow> Q (h @ us) r"
  shows "wp (confidence_poll io signature n i result) G Q h"
  using assms(3)
proof (induction n arbitrary: h i result)
  case 0
  from 0 [of result "[]"] show ?case by simp
next
  case (Suc n)
  have "wp (confidence_poll io signature n (Suc i) r) G Q (h @ [C_pause 1000, C_inspect signature])" if "io_inspect io i = Some r" for r
  proof (rule Suc.IH)
    fix us r' assume "r' = r \<or> (\<exists>k. io_inspect io k = Some r')"
    with that have "\<exists>k. io_inspect io k = Some r'" by auto
    then show "Q ((h @ [C_pause 1000, C_inspect signature]) @ us) r'" using Suc.prems by auto
  qed
  moreover have "wp (confidence_poll io signature n i result) G Q h" by (rule Suc.IH) (use Suc.prems in auto)
  ultimately show ?case using Suc.prems [of result "[]"] assms(1,2) by auto
qed

lemma wp_gate2_poll:
  assumes "\<And>h. G h (C_inspect signature)" and "\<And>h. G h (C_pause 1000)"
    and "\<And>us. Q (h @ us) False"
    and "\<And>us s. result = Some s \<or> (\<exists>k. io_inspect io k = Some (Some s)) \<Longrightarrow> finalized (Some s) \<Longrightarrow>
      nullifierRejection (ts_err s) \<Longrightarrow> error_instruction (ts_err s) = JNum (JInt 2) \<Longrightarrow> Q (h @ us) True"
  shows "wp (gate2_poll io signature n i result) G Q h"
  using assms(3,4)
proof (induction n arbitrary: h i result)
  case 0
  from 0(1) [of "[]"] show ?case by simp
next
  case (Suc n)
  have "wp (gate2_poll io signature n (Suc i) r) G Q (h @ [C_pause 1000, C_inspect signature])" if "io_inspect io i = Some r" for r
  proof (rule Suc.IH)
    show "Q ((h @ [C_pause 1000, C_inspect signature]) @ us) False" for us using Suc.prems(1) by simp
    show "Q ((h @ [C_pause 1000, C_inspect signature]) @ us) True"
      if "r = Some s \<or> (\<exists>k. io_inspect io k = Some (Some s))" "finalized (Some s)" "nullifierRejection (ts_err s)"
        "error_instruction (ts_err s) = JNum (JInt 2)" for us s
      using that \<open>io_inspect io i = Some r\<close> Suc.prems(2) [of s] by auto
  qed
  moreover have "wp (gate2_poll io signature n i result) G Q h" by (rule Suc.IH) (use Suc.prems in auto)
  moreover have "Q h True" if "result = Some s" "finalized result" "nullifierRejection (ts_err s)"
      "error_instruction (ts_err s) = JNum (JInt 2)" for s
    using Suc.prems(2) [of s "[]"] that by simp
  ultimately show ?case using assms(1,2) by (auto simp: finalized_def Let_def split: option.splits)
qed

text \<open>The outcome of a publication on the chain.\<close>

definition publication_final :: "confidence_io \<Rightarrow> recovery_options \<Rightarrow> ConfidencePublicationJournal \<Rightarrow> bool" where
  "publication_final io opts j =
     ((\<exists>k s. io_inspect io k = Some (Some s) \<and> finalized (Some s) \<and> ts_err s = JNull) \<and>
      (\<exists>state. io_snapshot io = Some state \<and> cp_commitment state = cj_commitment j \<and>
         cp_observationRoot state = cs_observationRoot (cfr_scope (cj_report j)) \<and>
         cp_observerCount state = int (length (cs_transcriptOrder (cfr_scope (cj_report j)))) \<and>
         cp_paidSlotsUsed state = ro_paidSlotsUsed opts))"

text \<open>When a transaction may be sent, after which calls.\<close>

definition publication_open :: "confidence_io \<Rightarrow> recovery_options \<Rightarrow> ConfidencePublicationJournal \<Rightarrow> bool" where
  "publication_open io opts j =
     (ro_action opts = Publish \<and> io_inspect io 0 = Some None \<and> ro_currentCommitment opts = cj_previousCommitment j \<and>
      ro_currentCommitment opts \<noteq> cj_commitment j \<and>
      (\<exists>height. io_blockHeight io = Some height \<and> height \<le> jint (cj_lastValidBlockHeight j)))"

fun publication_guard ::
  "confidence_io \<Rightarrow> recovery_options \<Rightarrow> ConfidencePublicationJournal \<Rightarrow> ConfidencePublicationJournal call list \<Rightarrow>
     ConfidencePublicationJournal call \<Rightarrow> bool" where
  "publication_guard io opts j h (C_send wire) = (wire = node_b64 (cj_wire j) \<and> publication_open io opts j \<and>
     h = [C_inspect (cj_signature j), C_height, C_save (j\<lparr>cj_state := ''submitted''\<rparr>)])"
| "publication_guard io opts j h (C_save k) =
     (k = j\<lparr>cj_state := ''submitted''\<rparr> \<and> publication_open io opts j \<or>
      k = j\<lparr>cj_state := ''confirmed''\<rparr> \<and> publication_final io opts j)"
| "publication_guard io opts j h (C_inspect signature) = (signature = cj_signature j)"
| "publication_guard io opts j h _ = True"

lemma recover_guarded: "wp (recoverConfidencePublication io opts j) (publication_guard io opts j)
  (\<lambda>h _. last h = C_save (j\<lparr>cj_state := ''confirmed''\<rparr>) \<and> publication_final io opts j) []"
proof -
  let ?Q = "\<lambda>h _. last h = C_save (j\<lparr>cj_state := ''confirmed''\<rparr>) \<and> publication_final io opts j"
  have rest: "wp (confidence_poll io (cj_signature j) n i r) (publication_guard io opts j)
      (\<lambda>h' r. finalized r \<and> (case r of None \<Rightarrow> False | Some s \<Rightarrow> ts_err s = JNull) \<longrightarrow>
        wp (confidence_confirm io opts (j\<lparr>cj_state := st\<rparr>)) (publication_guard io opts j) ?Q h') h"
    if "io_inspect io k = Some r" for k r n i h st
  proof (rule wp_confidence_poll)
    fix us r' assume "r' = r \<or> (\<exists>k. io_inspect io k = Some r')"
    with that(1) obtain m where "io_inspect io m = Some r'" by auto
    then show "finalized r' \<and> (case r' of None \<Rightarrow> False | Some s \<Rightarrow> ts_err s = JNull) \<longrightarrow>
        wp (confidence_confirm io opts (j\<lparr>cj_state := st\<rparr>)) (publication_guard io opts j) ?Q (h @ us)"
      by (cases r') (auto simp: confidence_confirm_def Let_def publication_final_def)
  qed auto
  have same: "wp (confidence_poll io (cj_signature j) n i r) (publication_guard io opts j)
      (\<lambda>h' r. finalized r \<and> (case r of None \<Rightarrow> False | Some s \<Rightarrow> ts_err s = JNull) \<longrightarrow>
        wp (confidence_confirm io opts j) (publication_guard io opts j) ?Q h') h"
    if "io_inspect io k = Some r" for k r n i h
    using rest [OF that, of n i "cj_state j"] by simp
  show ?thesis
    by (auto simp: recoverConfidencePublication_def confidence_submit_def Let_def publication_open_def
        simp del: int_in.simps intro: rest same)
qed

definition replay_final :: "gate2_io \<Rightarrow> Gate2ReplayJournal \<Rightarrow> Gate2Snapshot \<Rightarrow> bool" where
  "replay_final io j after =
     ((\<exists>k s. io_inspect io k = Some (Some s) \<and> finalized (Some s) \<and> nullifierRejection (ts_err s) \<and>
         error_instruction (ts_err s) = JNum (JInt 2)) \<and>
      io_snapshot io = Some after \<and> after = gj_before j)"

definition replay_open :: "gate2_io \<Rightarrow> Gate2ReplayJournal \<Rightarrow> bool" where
  "replay_open io j =
     (io_inspect io 0 = Some None \<and> (\<exists>height. io_blockHeight io = Some height \<and> height \<le> jint (gj_lastValidBlockHeight j)))"

fun replay_guard :: "gate2_io \<Rightarrow> Gate2ReplayJournal \<Rightarrow> Gate2ReplayJournal call list \<Rightarrow> Gate2ReplayJournal call \<Rightarrow> bool" where
  "replay_guard io j h (C_send wire) = (wire = node_b64 (gj_wire j) \<and> replay_open io j \<and>
     h = [C_inspect (gj_signature j), C_height, C_save (j\<lparr>gj_state := ''submitted''\<rparr>)])"
| "replay_guard io j h (C_save k) =
     (k = j\<lparr>gj_state := ''submitted''\<rparr> \<and> replay_open io j \<or>
      (\<exists>after. k = j\<lparr>gj_after := Some after, gj_state := ''rejected''\<rparr> \<and> replay_final io j after))"
| "replay_guard io j h (C_inspect signature) = (signature = gj_signature j)"
| "replay_guard io j h _ = True"

lemma sameGate2Accounting_iff: "sameGate2Accounting b a \<longleftrightarrow> a = b"
  by (auto simp: sameGate2Accounting_def snapshot_fields_def)

lemma replay_guarded: "wp (recoverGate2Replay io attempts j) (replay_guard io j)
  (\<lambda>h _. \<exists>after. last h = C_save (j\<lparr>gj_after := Some after, gj_state := ''rejected''\<rparr>) \<and> replay_final io j after) []"
proof -
  let ?Q = "\<lambda>h _. \<exists>after. last h = C_save (j\<lparr>gj_after := Some after, gj_state := ''rejected''\<rparr>) \<and> replay_final io j after"
  have rest: "wp (gate2_poll io (gj_signature j) n i r) (replay_guard io j)
      (\<lambda>h' b. b \<longrightarrow> (\<forall>after. io_snapshot io = Some after \<longrightarrow> after = gj_before j \<longrightarrow>
         replay_final io j after)) h" if "io_inspect io k = Some r" for k r n i h
    using that by (intro wp_gate2_poll) (auto simp: replay_final_def)
  have poll: "wp (gate2_poll io (gj_signature j) n i r) (replay_guard io j) Q h"
    if "io_inspect io k = Some r" and "\<And>us b. b \<longrightarrow> (\<forall>after. io_snapshot io = Some after \<longrightarrow> after = gj_before j \<longrightarrow> replay_final io j after) \<Longrightarrow>
       Q (h @ us) b" for k r n i h Q
    using wp_mono [OF rest [OF that(1)]] that(2) by blast
  show ?thesis
    by (auto simp: recoverGate2Replay_def gate2_submit_def Let_def replay_open_def sameGate2Accounting_iff
        simp del: int_in.simps intro!: poll)
qed

section \<open>Histories of runs\<close>

definition sends :: "'j call list \<Rightarrow> bytes list" where
  "sends us = concat (map (\<lambda>e. case e of C_send w \<Rightarrow> [w] | _ \<Rightarrow> []) us)"

definition persisted :: "'j \<Rightarrow> 'j call list \<Rightarrow> 'j" where
  "persisted j us = fold (\<lambda>e j. case e of C_save k \<Rightarrow> k | _ \<Rightarrow> j) us j"

text \<open>Runs from the persisted journal, each cut off after any number of calls: the journal then on disk and
  everything sent so far.\<close>

inductive recovery_history :: "('i \<Rightarrow> 'j \<Rightarrow> ('j call, unit) run) \<Rightarrow> 'j \<Rightarrow> 'j \<Rightarrow> bytes list \<Rightarrow> bool" for run j\<^sub>0 where
  first_run: "recovery_history run j\<^sub>0 j\<^sub>0 []"
| next_run: "recovery_history run j\<^sub>0 j ws \<Longrightarrow> prefix us (fst (run io j)) \<Longrightarrow> recovery_history run j\<^sub>0 (persisted j us) (ws @ sends us)"

lemma set_sends: "w \<in> set (sends us) \<longleftrightarrow> C_send w \<in> set us"
  by (auto simp: sends_def split: call.splits)

lemma persisted_last: "persisted j us = j \<and> (\<forall>k. C_save k \<notin> set us) \<or> C_save (persisted j us) \<in> set us"
proof (induction us rule: rev_induct)
  case (snoc e us)
  then show ?case by (cases e) (auto simp: persisted_def)
qed (simp add: persisted_def)

text \<open>What a recovery promises of each of its runs: it keeps the identity of the journal, sends only its
  transaction and marks the journal on disk before the send.\<close>

locale journalled =
  fixes run :: "'i \<Rightarrow> 'j \<Rightarrow> ('j call, unit) run"
    and same :: "'j \<Rightarrow> 'j \<Rightarrow> bool"
    and wire :: "'j \<Rightarrow> bytes"
    and marked :: "'j \<Rightarrow> bool"
  assumes same_refl: "same j j"
    and same_trans: "same j k \<Longrightarrow> same k l \<Longrightarrow> same j l"
    and same_wire: "same j k \<Longrightarrow> wire k = wire j"
    and run_saves: "C_save k \<in> set (fst (run io j)) \<Longrightarrow> same j k \<and> marked k"
    and run_sends: "fst (run io j) = us @ C_send w # vs \<Longrightarrow> w = wire j \<and> (\<exists>k. C_save k \<in> set us)"
begin

lemma prefix_run:
  assumes "prefix us (fst (run io j))"
  shows "same j (persisted j us)" and "set (sends us) \<subseteq> {wire j}"
    and "sends us \<noteq> [] \<Longrightarrow> marked (persisted j us)" and "marked j \<Longrightarrow> marked (persisted j us)"
proof -
  have sub: "e \<in> set (fst (run io j))" if "e \<in> set us" for e using assms that by (auto elim: prefixE)
  have k: "same j k \<and> marked k" if "C_save k \<in> set us" for k using run_saves sub that by blast
  show "same j (persisted j us)" "marked j \<Longrightarrow> marked (persisted j us)" using persisted_last [of j us] k same_refl by auto
  have s: "w = wire j \<and> (\<exists>k. C_save k \<in> set us)" if w: "C_send w \<in> set us" for w
  proof -
    obtain xs ys where u: "us = xs @ C_send w # ys" using split_list [OF w] by blast
    obtain zs where "fst (run io j) = us @ zs" using assms by (auto elim: prefixE)
    with u have "fst (run io j) = xs @ C_send w # (ys @ zs)" by simp
    from run_sends [OF this] u show ?thesis by auto
  qed
  show "set (sends us) \<subseteq> {wire j}" using s by (auto simp: set_sends)
  show "marked (persisted j us)" if "sends us \<noteq> []"
  proof -
    obtain w where "w \<in> set (sends us)" using \<open>sends us \<noteq> []\<close> by (meson list.set_sel(1))
    with s obtain l where "C_save l \<in> set us" by (auto simp: set_sends)
    with persisted_last [of j us] k show ?thesis by auto
  qed
qed

lemma one_transaction:
  assumes "recovery_history run j\<^sub>0 j ws"
  shows "same j\<^sub>0 j \<and> set ws \<subseteq> {wire j\<^sub>0} \<and> (ws \<noteq> [] \<longrightarrow> marked j)"
  using assms
proof induction
  case first_run
  show ?case by (simp add: same_refl)
next
  case (next_run j ws us io)
  from prefix_run [OF next_run.hyps(2)] next_run.IH same_trans same_wire [of j\<^sub>0 j] show ?case by (cases "ws = []"; blast?) auto
qed

end

interpretation publication: journalled "\<lambda>(io, opts). recoverConfidencePublication io opts"
  "\<lambda>j k. k = j\<lparr>cj_state := cj_state k\<rparr>" "\<lambda>j. node_b64 (cj_wire j)" "\<lambda>j. cj_state j \<in> {''submitted'', ''confirmed''}"
proof unfold_locales
  fix j k io assume k: "C_save k \<in> set (fst ((\<lambda>(io, opts). recoverConfidencePublication io opts) io j))"
  obtain i opts where io: "io = (i, opts)" by (cases io)
  obtain us vs where "fst (recoverConfidencePublication i opts j) = us @ C_save k # vs" using split_list k io by fastforce
  from wpD(1) [OF recover_guarded this] show "k = j\<lparr>cj_state := cj_state k\<rparr> \<and> cj_state k \<in> {''submitted'', ''confirmed''}" by auto
next
  fix io j us w vs assume w: "fst ((\<lambda>(io, opts). recoverConfidencePublication io opts) io j) = us @ C_send w # vs"
  obtain i opts where io: "io = (i, opts)" by (cases io)
  with w have "fst (recoverConfidencePublication i opts j) = us @ C_send w # vs" by simp
  from wpD(1) [OF recover_guarded this] show "w = node_b64 (cj_wire j) \<and> (\<exists>k. C_save k \<in> set us)" by auto
next
  fix j k l :: ConfidencePublicationJournal assume "k = j\<lparr>cj_state := cj_state k\<rparr>" "l = k\<lparr>cj_state := cj_state l\<rparr>"
  then show "l = j\<lparr>cj_state := cj_state l\<rparr>" by (cases j; cases k; cases l) auto
next
  fix j k :: ConfidencePublicationJournal assume "k = j\<lparr>cj_state := cj_state k\<rparr>"
  then show "node_b64 (cj_wire k) = node_b64 (cj_wire j)" by (cases j; cases k) auto
qed auto

interpretation replay: journalled "\<lambda>(io, attempts). recoverGate2Replay io attempts"
  "\<lambda>j k. k = j\<lparr>gj_after := gj_after k, gj_state := gj_state k\<rparr>" "\<lambda>j. node_b64 (gj_wire j)" "\<lambda>j. gj_state j \<in> {''submitted'', ''rejected''}"
proof unfold_locales
  fix j k io assume k: "C_save k \<in> set (fst ((\<lambda>(io, attempts). recoverGate2Replay io attempts) io j))"
  obtain i n where io: "io = (i, n)" by (cases io)
  obtain us vs where "fst (recoverGate2Replay i n j) = us @ C_save k # vs" using split_list k io by fastforce
  from wpD(1) [OF replay_guarded this]
  show "k = j\<lparr>gj_after := gj_after k, gj_state := gj_state k\<rparr> \<and> gj_state k \<in> {''submitted'', ''rejected''}" by auto
next
  fix io j us w vs assume w: "fst ((\<lambda>(io, attempts). recoverGate2Replay io attempts) io j) = us @ C_send w # vs"
  obtain i n where io: "io = (i, n)" by (cases io)
  with w have "fst (recoverGate2Replay i n j) = us @ C_send w # vs" by simp
  from wpD(1) [OF replay_guarded this] show "w = node_b64 (gj_wire j) \<and> (\<exists>k. C_save k \<in> set us)" by auto
next
  fix j k l :: Gate2ReplayJournal
  assume "k = j\<lparr>gj_after := gj_after k, gj_state := gj_state k\<rparr>" "l = k\<lparr>gj_after := gj_after l, gj_state := gj_state l\<rparr>"
  then show "l = j\<lparr>gj_after := gj_after l, gj_state := gj_state l\<rparr>" by (cases j; cases k; cases l) auto
next
  fix j k :: Gate2ReplayJournal assume "k = j\<lparr>gj_after := gj_after k, gj_state := gj_state k\<rparr>"
  then show "node_b64 (gj_wire k) = node_b64 (gj_wire j)" by (cases j; cases k) auto
qed auto

section \<open>Progress\<close>

lemma run_simps [simp]:
  "rbind (ret a) f = f a" "rbind (require e True) g = g ()" "rbind (act c (Some b)) g' = (c # fst (g' b), snd (g' b))"
  "rbind (us, Inr d) h = (us @ fst (h d), snd (h d))" "snd (act c (Some b)) = Inr b" "fst (act c x) = [c]"
  "fst (ret a) = []" "snd (ret a) = Inr a"
  by (simp_all add: rbind_def ret_def require_def act_def)

lemma polled_finalized:
  assumes "0 < n" and "finalized (Some s)"
  shows "confidence_poll io signature n i (Some s) = ret (Some s)"
    and "nullifierRejection (ts_err s) \<Longrightarrow> error_instruction (ts_err s) = JNum (JInt 2) \<Longrightarrow>
      gate2_poll io' signature n i (Some s) = ret True"
  using assms by (cases n; simp)+

lemma poll_finalized:
  assumes "\<And>k. io_inspect io k \<noteq> None" and "n > 0" and "finalized result \<or> (\<exists>k<n - 1. finalized (the (io_inspect io (i + k))))"
  obtains us r where "confidence_poll io signature n i result = (us, Inr r)" "finalized r" "r = result \<or> (\<exists>k. io_inspect io k = Some r)"
  using assms(2-)
proof (induction n arbitrary: i result thesis)
  case (Suc n)
  show ?case
  proof (cases "finalized result")
    case True
    then show ?thesis by (intro Suc.prems(1) [of "[]" result]) (simp_all add: ret_def)
  next
    case False
    then obtain k where k: "k < n" "finalized (the (io_inspect io (i + k)))" using Suc.prems(3) by auto
    obtain r where r: "io_inspect io i = Some r" using assms(1) [of i] by auto
    have "finalized r \<or> (\<exists>m<n - 1. finalized (the (io_inspect io (Suc i + m))))"
    proof (cases k)
      case 0
      with k r show ?thesis by simp
    next
      case (Suc m)
      with k show ?thesis by (intro disjI2 exI [of _ m]) auto
    qed
    with k obtain us r' where "confidence_poll io signature n (Suc i) r = (us, Inr r')" "finalized r'"
      "r' = r \<or> (\<exists>k. io_inspect io k = Some r')" using Suc.IH [of "Suc i" r] by auto
    with False k r show ?thesis by (intro Suc.prems(1) [of "C_pause 1000 # C_inspect signature # us" r']) auto
  qed
qed simp

section \<open>Properties\<close>

text \<open>C11. A confidence publication is recovered safely, whatever crashes: from a prepared journal, over any sequence
  of runs each cut off at any point, the journal on disk keeps its identity, the only thing ever sent is its one
  transaction and the journal says so before; a send happens only when the publication was not found, its
  predecessor is still current and the transaction can still land; and the journal becomes confirmed only after the
  transaction was seen finalized without error and the chain shows the committed report.\<close>

theorem publication_recovery_safe:
  assumes "recovery_history (\<lambda>(io, opts). recoverConfidencePublication io opts) j\<^sub>0 j ws"
  shows "j = j\<^sub>0\<lparr>cj_state := cj_state j\<rparr> \<and> set ws \<subseteq> {node_b64 (cj_wire j\<^sub>0)} \<and>
    (ws \<noteq> [] \<longrightarrow> cj_state j \<in> {''submitted'', ''confirmed''}) \<and>
    (\<forall>io opts us e vs. fst (recoverConfidencePublication io opts j) = us @ e # vs \<longrightarrow> publication_guard io opts j us e) \<and>
    (\<forall>io opts. snd (recoverConfidencePublication io opts j) = Inr () \<longrightarrow> publication_final io opts j \<and>
       last (fst (recoverConfidencePublication io opts j)) = C_save (j\<lparr>cj_state := ''confirmed''\<rparr>))"
  using publication.one_transaction [OF assms] wpD [OF recover_guarded] by blast

text \<open>C23. The replay of a paid observation is recovered with the same care, and counts as rejected only after the chain
  finalized the duplicate with the nullifier error at instruction 2 while no account of the payment changed.\<close>

theorem replay_recovery_safe:
  assumes "recovery_history (\<lambda>(io, attempts). recoverGate2Replay io attempts) j\<^sub>0 j ws"
  shows "j = j\<^sub>0\<lparr>gj_after := gj_after j, gj_state := gj_state j\<rparr> \<and> set ws \<subseteq> {node_b64 (gj_wire j\<^sub>0)} \<and>
    (ws \<noteq> [] \<longrightarrow> gj_state j \<in> {''submitted'', ''rejected''}) \<and>
    (\<forall>io n us e vs. fst (recoverGate2Replay io n j) = us @ e # vs \<longrightarrow> replay_guard io j us e) \<and>
    (\<forall>io n. snd (recoverGate2Replay io n j) = Inr () \<longrightarrow> replay_final io j (gj_before j))"
proof -
  have "replay_final io j (gj_before j)" if "snd (recoverGate2Replay io n j) = Inr ()" for io n
    using wpD(2) [OF replay_guarded that] by (auto simp: replay_final_def)
  with replay.one_transaction [OF assms] wpD(1) [OF replay_guarded] show ?thesis by blast
qed


text \<open>A publication that is sent and confirmed in one run, and a replay that is rejected in one run.\<close>

definition demo_publication :: ConfidencePublicationJournal where
  "demo_publication = \<lparr>cj_version = JInt 1, cj_target = [], cj_report = \<lparr>cfr_scope = demo_scope, cfr_inputsHash = [],
     cfr_facets = \<lparr>hardware_confidence = 0, temporal_freshness = 0, witness_diversity = 0, spatial_consistency = 0,
       behavior_diversity = 0, service_evidence = 0\<rparr>, cfr_score = 0, cfr_raw = 1, cfr_groups = 1, cfr_weightedBps = 2000,
     cfr_historyObservations = 1, cfr_geographicGroups = 0, cfr_reenrollmentRiskAvailable = False, cfr_status = ''LOW''\<rparr>,
     cj_commitment = ''new'', cj_previousCommitment = ''old'', cj_signature = ''sig'', cj_wire = ''AAAA'',
     cj_lastValidBlockHeight = JInt 100, cj_state = ''prepared''\<rparr>"

definition demo_publication_io :: confidence_io where
  "demo_publication_io = \<lparr>io_inspect = (\<lambda>k. if k = 0 then Some None else Some (Some \<lparr>ts_confirmation = Some ''finalized'', ts_err = JNull\<rparr>)),
     io_blockHeight = Some 99, io_send = (\<lambda>_. Some ''sig''), io_save = (\<lambda>_ _. Some ()),
     io_snapshot = Some \<lparr>cp_commitment = ''new'', cp_observationRoot = cs_observationRoot demo_scope,
       cp_observerCount = int (length (cs_transcriptOrder demo_scope)), cp_paidSlotsUsed = 1\<rparr>\<rparr>"

definition demo_options :: recovery_options where
  "demo_options = \<lparr>ro_action = Publish, ro_currentCommitment = ''old'', ro_paidSlotsUsed = 1, ro_attempts = None\<rparr>"

lemma demo_publication_sel [simp]:
  "cj_version demo_publication = JInt 1" "cj_commitment demo_publication = ''new''" "cj_previousCommitment demo_publication = ''old''"
  "cj_signature demo_publication = ''sig''" "cj_wire demo_publication = ''AAAA''" "cj_lastValidBlockHeight demo_publication = JInt 100"
  "cj_state demo_publication = ''prepared''" "cfr_scope (cj_report demo_publication) = demo_scope" "recovery_attempts demo_options = JInt 45"
  "ro_action demo_options = Publish" "ro_currentCommitment demo_options = ''old''" "ro_paidSlotsUsed demo_options = 1"
  "io_inspect demo_publication_io 0 = Some None" "io_blockHeight demo_publication_io = Some 99" "io_send demo_publication_io w = Some ''sig''"
  "io_save demo_publication_io n k = Some ()"
  "io_inspect demo_publication_io (Suc m) = Some (Some \<lparr>ts_confirmation = Some ''finalized'', ts_err = JNull\<rparr>)"
  by (simp_all add: demo_publication_def demo_publication_io_def demo_options_def recovery_attempts_def)

lemma demo_publication_ok: "publication_open demo_publication_io demo_options demo_publication"
  "publication_final demo_publication_io demo_options demo_publication"
  by (auto simp: publication_open_def publication_final_def demo_publication_io_def demo_options_def demo_publication_def finalized_def)


theorem publication_recovery_safe_witness:
  "\<exists>j. recovery_history (\<lambda>(io, opts). recoverConfidencePublication io opts) demo_publication j [node_b64 ''AAAA''] \<and>
     cj_state j \<in> {''submitted'', ''confirmed''}"
proof -
  let ?t = "fst (recoverConfidencePublication demo_publication_io demo_options demo_publication)"
  let ?us = "[C_inspect ''sig'', C_height, C_save (demo_publication\<lparr>cj_state := ''submitted''\<rparr>), C_send (node_b64 ''AAAA'')]"
  have "prefix ?us ?t" by (simp add: recoverConfidencePublication_def confidence_submit_def Let_def)
  from next_run [OF first_run, of ?us "\<lambda>(io, opts). recoverConfidencePublication io opts" "(demo_publication_io, demo_options)"] this
  have h: "recovery_history (\<lambda>(io, opts). recoverConfidencePublication io opts) demo_publication (persisted demo_publication ?us) [node_b64 ''AAAA'']"
    by (simp add: sends_def)
  with publication_recovery_safe [OF h] show ?thesis by blast
qed

definition demo_accounts :: Gate2Snapshot where
  "demo_accounts = \<lparr>gs_commitment = [], gs_independentObservers = 1, gs_paidSlotsUsed = 1, gs_observationRoot = [], gs_slotPaid = True,
     gs_gross = ''5'', gs_fees = ''1'', gs_available = ''4'', gs_withdrawn = ''0'', gs_payoutNonce = ''0'', gs_escrow = ''0'',
     gs_feeVault = ''1'', gs_payoutVault = ''4''\<rparr>"

definition demo_replay :: Gate2ReplayJournal where
  "demo_replay = \<lparr>gj_version = JInt 1, gj_target = [], gj_hash = [], gj_wire = ''AAAA'', gj_signature = ''sig'',
     gj_lastValidBlockHeight = JInt 100, gj_before = demo_accounts, gj_after = None, gj_state = ''prepared''\<rparr>"

definition demo_replay_io :: gate2_io where
  "demo_replay_io = \<lparr>io_inspect = (\<lambda>k. if k = 0 then Some None else Some (Some \<lparr>ts_confirmation = Some ''finalized'',
       ts_err = JObj [(''InstructionError'', JArr [JNum (JInt 2), JObj [(''Custom'', JNum (JInt 6001))]])]\<rparr>)),
     io_blockHeight = Some 99, io_send = (\<lambda>_. Some ''sig''), io_save = (\<lambda>_ _. Some ()), io_snapshot = Some demo_accounts\<rparr>"

lemma demo_replay_sel [simp]:
  "gj_version demo_replay = JInt 1" "gj_signature demo_replay = ''sig''" "gj_lastValidBlockHeight demo_replay = JInt 100"
  "gj_before demo_replay = demo_accounts" "gj_state demo_replay = ''prepared''"
  "io_inspect demo_replay_io 0 = Some None" "io_blockHeight demo_replay_io = Some 99" "io_send demo_replay_io w = Some ''sig''"
  "io_save demo_replay_io n k = Some ()" "io_snapshot demo_replay_io = Some demo_accounts"
  "io_inspect demo_replay_io (Suc m) = Some (Some \<lparr>ts_confirmation = Some ''finalized'',
     ts_err = JObj [(''InstructionError'', JArr [JNum (JInt 2), JObj [(''Custom'', JNum (JInt 6001))]])]\<rparr>)"
  by (simp_all add: demo_replay_def demo_replay_io_def)

theorem replay_recovery_safe_witness: "replay_final demo_replay_io demo_replay demo_accounts"
proof -
  have "snd (recoverGate2Replay demo_replay_io (JInt 45) demo_replay) = Inr ()"
    by (simp add: recoverGate2Replay_def gate2_submit_def Let_def polled_finalized finalized_def nullifierRejection_def error_instruction_def
        sameGate2Accounting_iff)
  with replay_recovery_safe [OF first_run, of demo_replay] show ?thesis by auto
qed

end
