(* ===== verification/Relay_Transport.thy ===== *)
theory Relay_Transport
  imports Recovery Root_Publication Relay
begin

text \<open>
  The Solana transport of the relay (\<^verbatim>\<open>solana-observation-relay.ts\<close>) and the adapter that builds and confirms
  submissions (\<^verbatim>\<open>observation-adapter.ts\<close>).  RPC answers are arguments, \<open>None\<close> when the call rejects;
  building, signing and serializing a transaction is a parameter.  The theory closes the gap to the relay: a job
  is confirmed only when the chain shows its commitment, and what the transport prepares is what the relay accepts.
\<close>

section \<open>Accounts\<close>

definition trusted_data :: "pubkey \<Rightarrow> AccountInfo option \<Rightarrow> bytes option" where
  "trusted_data program row =
     (case row of None \<Rightarrow> None | Some a \<Rightarrow> if ac_executable a \<or> ac_owner a \<noteq> program then None else Some (ac_data a))"

lemma trusted_data_Some [simp]:
  "trusted_data program row = Some d \<longleftrightarrow> (\<exists>a. row = Some a \<and> \<not> ac_executable a \<and> ac_owner a = program \<and> ac_data a = d)"
  by (auto simp: trusted_data_def split: option.splits)

text \<open>The rows of an RPC answer: a missing row is undefined and a row may be null; both are refused as untrusted, and
  only null says that there is no account.\<close>

definition row_at :: "nat \<Rightarrow> AccountInfo option list \<Rightarrow> AccountInfo option" where
  "row_at i rows = (if i < length rows then rows ! i else None)"

definition row_null :: "nat \<Rightarrow> AccountInfo option list \<Rightarrow> bool" where
  "row_null i rows = (i < length rows \<and> rows ! i = None)"

section \<open>The adapter\<close>

record adapter =
  ad_contract :: string
  ad_computeUnitLimit :: jsnum
  ad_verificationKeyHash :: string
  ad_mint :: pubkey

definition openAdapter :: "chain \<Rightarrow> string \<Rightarrow> pubkey \<Rightarrow> adapter option" where
  "openAdapter ch verificationKeyHash mint =
     (if hex32 verificationKeyHash = None then None
      else Some \<lparr>ad_contract = ''Pathnod/submit_observation/v2/'' @ verificationKeyHash @ ''/'' @ ch_toBase58 ch mint,
        ad_computeUnitLimit = JInt 299999, ad_verificationKeyHash = verificationKeyHash, ad_mint = mint\<rparr>)"

text \<open>\<open>fetch\<close> is \<^verbatim>\<open>getAccountInfo\<close> at finalized commitment; the result of \<^verbatim>\<open>validateTarget\<close> is whether it
  returns.\<close>

type_synonym account_fetch = "pubkey \<Rightarrow> AccountInfo option option"

definition validateTarget :: "chain \<Rightarrow> adapter \<Rightarrow> pubkey \<Rightarrow> account_fetch \<Rightarrow> bool" where
  "validateTarget ch ad program fetch =
     (case fetch (ch_pda ch [bytes_of_string ''observation-verifier''] program) of None \<Rightarrow> False
      | Some account \<Rightarrow>
          (case Option.bind (trusted_data program account) (decodeObservationVerifier ch) of None \<Rightarrow> False
           | Some v \<Rightarrow> ov_keyDigest v = ad_verificationKeyHash ad))"

definition adapter_instruction ::
  "chain \<Rightarrow> adapter \<Rightarrow> pubkey \<Rightarrow> pubkey \<Rightarrow> ObservationRelayPayload \<Rightarrow> TransactionInstruction option" where
  "adapter_instruction ch ad program payer p = do {
     protocol \<leftarrow> hex32 (rp_protocolID p); device \<leftarrow> hex32 (rp_deviceID p); h \<leftarrow> hex32 (au_transcriptHash (rp_auth p));
     evidence \<leftarrow> au_evidenceHash (rp_auth p); e \<leftarrow> hex32 evidence;
     submitObservation ch program payer protocol device h e (bytes_of_hex (rp_proofBytes p)) (ad_mint ad) }"

definition commitment_matches :: "ObservationCommitment \<Rightarrow> ObservationRelayPayload \<Rightarrow> bool" where
  "commitment_matches r p =
     (hex_of_bytes (oc_protocolID r) = rp_protocolID p \<and> hex_of_bytes (oc_deviceID r) = rp_deviceID p \<and>
      JInt (oc_epoch r) = rp_epoch p \<and> hex_of_bytes (oc_nullifier r) = au_nullifier (rp_auth p) \<and>
      hex_of_bytes (oc_pseudonym r) = au_pseudonym (rp_auth p) \<and> JInt (oc_observerClass r) = au_observerClass (rp_auth p) \<and>
      hex_of_bytes (oc_transcriptHash r) = au_transcriptHash (rp_auth p) \<and>
      Some (hex_of_bytes (oc_evidenceHash r)) = au_evidenceHash (rp_auth p))"

definition commitment_address :: "chain \<Rightarrow> pubkey \<Rightarrow> ObservationRelayPayload \<Rightarrow> pubkey option" where
  "commitment_address ch program p = do {
     protocol \<leftarrow> hex32 (rp_protocolID p); device \<leftarrow> hex32 (rp_deviceID p); n \<leftarrow> hex32 (au_nullifier (rp_auth p));
     a \<leftarrow> observationAddresses ch program protocol device (rp_epoch p) n;
     Some (oa_commitment a) }"

definition adapter_confirm :: "chain \<Rightarrow> pubkey \<Rightarrow> account_fetch \<Rightarrow> ObservationRelayPayload \<Rightarrow> bool option" where
  "adapter_confirm ch program fetch p = do {
     address \<leftarrow> commitment_address ch program p;
     account \<leftarrow> fetch address;
     if account = None then Some False
     else do {
       d \<leftarrow> trusted_data program account;
       observed \<leftarrow> decodeObservationCommitment ch d;
       if \<not> commitment_matches observed p then None else Some True } }"

section \<open>Base 58\<close>

definition b58_alphabet :: string where
  "b58_alphabet = ''123456789ABCDEFGHJKLMNPQRSTUVWXYZabcdefghijkmnopqrstuvwxyz''"

function b58_loop :: "nat \<Rightarrow> string \<Rightarrow> string" where
  "b58_loop n result = (if n > 0 then b58_loop (n div 58) ((b58_alphabet ! (n mod 58)) # result) else result)"
  by auto
termination by (relation "measure fst") auto

declare b58_loop.simps [simp del]

definition signatureBase58 :: "bytes \<Rightarrow> string option" where
  "signatureBase58 bs =
     (if bs = [] then None
      else Some (replicate (length (takeWhile (\<lambda>b. b = 0) bs)) CHR ''1'' @ b58_loop (nat (be_val bs)) []))"

section \<open>The transport\<close>

record rpc_url =
  url_username :: string
  url_password :: string
  url_search :: string
  url_hash :: string
  url_protocol :: string
  url_hostname :: string

record observation_transport =
  tp_target :: string
  tp_program :: pubkey
  tp_protocol :: bytes
  tp_payer :: pubkey
  tp_adapter :: adapter
  tp_verifier :: string
  tp_lookup :: "string option"

definition observationTransport ::
  "chain \<Rightarrow> pubkey \<Rightarrow> bytes \<Rightarrow> pubkey \<Rightarrow> adapter \<Rightarrow> string \<Rightarrow> string \<Rightarrow> observation_transport option" where
  "observationTransport ch program protocol payer ad genesis verifier =
     (if ad_contract ad = [] \<or> ch_toBase58 ch payer = verifier then None
      else Some \<lparr>tp_target = genesis @ ''/'' @ ch_toBase58 ch program @ ''/'' @ hex_of_bytes protocol @ ''/'' @ verifier @ ''/'' @
          ch_toBase58 ch payer @ ''/'' @ ad_contract ad,
        tp_program = program, tp_protocol = protocol, tp_payer = payer, tp_adapter = ad, tp_verifier = verifier, tp_lookup = None\<rparr>)"

text \<open>\<open>lookup\<close> answers whether the table exists and is active, \<open>None\<close> when the call rejects.\<close>

definition openObservationTransport ::
  "chain \<Rightarrow> rpc_url option \<Rightarrow> string \<Rightarrow> string \<Rightarrow> pubkey \<Rightarrow> string \<Rightarrow> adapter \<Rightarrow> string \<Rightarrow> string option \<Rightarrow>
     string option \<Rightarrow> account_fetch \<Rightarrow> (pubkey \<Rightarrow> bool option) \<Rightarrow> observation_transport option" where
  "openObservationTransport ch url program protocol payer verifier ad genesis lookupTable rpc_genesis fetch lookup = do {
     u \<leftarrow> url;
     let loc = url_hostname u \<in> {''localhost'', ''127.0.0.1'', ''[::1]''};
     if url_username u \<noteq> [] \<or> url_password u \<noteq> [] \<or> url_search u \<noteq> [] \<or> url_hash u \<noteq> [] \<or>
        \<not> (url_protocol u = ''https:'' \<or> loc \<and> url_protocol u = ''http:'') then None
     else do {
       g \<leftarrow> rpc_genesis;
       if g \<noteq> genesis then None
       else do {
         key \<leftarrow> ch_ofBase58 ch program;
         account \<leftarrow> fetch key;
         if (case account of None \<Rightarrow> True | Some a \<Rightarrow> \<not> ac_executable a \<or> ac_owner a \<noteq> ch_loader ch) then None
         else if \<not> validateTarget ch ad key fetch then None
         else do {
           p \<leftarrow> hex32 protocol;
           t \<leftarrow> observationTransport ch key p payer ad genesis verifier;
           (case lookupTable of None \<Rightarrow> Some t
            | Some table \<Rightarrow> if table = [] then Some t else do {
                k \<leftarrow> ch_ofBase58 ch table; active \<leftarrow> lookup k;
                if \<not> active then None
                else Some (t\<lparr>tp_lookup := Some table, tp_target := tp_target t @ ''/'' @ table\<rparr>) }) } } } }"

definition transport_eligible ::
  "chain \<Rightarrow> observation_transport \<Rightarrow> (pubkey list \<Rightarrow> AccountInfo option list option) \<Rightarrow> ObservationRelayPayload \<Rightarrow> bool option" where
  "transport_eligible ch tp read p =
     (if rp_protocolID p \<noteq> hex_of_bytes (tp_protocol tp) \<or> rp_verifier p \<noteq> tp_verifier tp then Some False
      else do {
        a \<leftarrow> registryAddresses ch (tp_program tp) (tp_protocol tp);
        n \<leftarrow> hex32 (au_nullifier (rp_auth p));
        rows \<leftarrow> read [ra_config a, ra_enrollment a, ch_pda ch [bytes_of_string ''obs'', n] (tp_program tp)];
        c \<leftarrow> trusted_data (tp_program tp) (row_at 0 rows); r \<leftarrow> trusted_data (tp_program tp) (row_at 1 rows);
        config \<leftarrow> decodeProtocol ch c; root \<leftarrow> decodeEnrollment ch r;
        if pc_protocolId config \<noteq> tp_protocol tp \<or> pc_escrow config \<noteq> ra_escrow a \<or> pc_authority config = zeros 32 \<or>
           ea_authority root = zeros 32 then None
        else let proof = bytes_of_hex (rp_proofBytes p)
        in if length proof \<noteq> 480 then None
           else Some (ch_toBase58 ch (pc_verifier config) = rp_verifier p \<and>
             JInt (pc_policyVersion config) = au_policyVersion (rp_auth p) \<and> row_null 2 rows \<and>
             subarray 256 288 proof \<in> set (activeRoots root)) })"

text \<open>\<open>serialize\<close> builds the transaction from the blockhash, the compute limit, the two instructions and the lookup
  table, signs it and returns its bytes and signature.\<close>

definition transport_prepare ::
  "chain \<Rightarrow> ed25519 \<Rightarrow> observation_transport \<Rightarrow>
     ('b \<Rightarrow> int \<Rightarrow> Ed25519Instruction \<Rightarrow> TransactionInstruction \<Rightarrow> string option \<Rightarrow> (bytes \<times> bytes) option) \<Rightarrow>
     ('b \<times> jsnum) option \<Rightarrow> ObservationRelayPayload \<Rightarrow> PreparedObservationTransaction option" where
  "transport_prepare ch ed tp serialize latestBlockhash p = do {
     (blockhash, lastValidBlockHeight) \<leftarrow> latestBlockhash;
     submit \<leftarrow> adapter_instruction ch (tp_adapter tp) (tp_program tp) (tp_payer tp) p;
     if ti_programId submit \<noteq> tp_program tp then None
     else if \<not> int_in (ad_computeUnitLimit (tp_adapter tp)) 1 300000 then None
     else do {
       auth \<leftarrow> authorizationInstruction ch ed (rp_auth p) (rp_verifier p) (rp_verifierSignature p);
       (wire, signature) \<leftarrow> serialize blockhash (jint (ad_computeUnitLimit (tp_adapter tp))) auth submit (tp_lookup tp);
       if length wire > 1232 then None
       else do {
         s \<leftarrow> signatureBase58 signature;
         Some \<lparr>po_wire = b64_enc wire, po_signature = s, po_lastValidBlockHeight = lastValidBlockHeight\<rparr> } } }"

definition transport_send :: "(bytes \<Rightarrow> string option) \<Rightarrow> PreparedObservationTransaction \<Rightarrow> unit option" where
  "transport_send sendRaw t = do {
     signature \<leftarrow> sendRaw (node_b64 (po_wire t));
     if signature \<noteq> po_signature t then None else Some () }"

definition js_falsy :: "jsval \<Rightarrow> bool" where
  "js_falsy v = (v \<in> {JUndef, JNull, JBool False, JNum (JInt 0), JStr []})"

definition transport_inspect ::
  "chain \<Rightarrow> observation_transport \<Rightarrow> (string \<Rightarrow> tx_status option option) \<Rightarrow> account_fetch \<Rightarrow> PreparedObservationTransaction \<Rightarrow>
     ObservationRelayPayload \<Rightarrow> tx_state option" where
  "transport_inspect ch tp status fetch t p = do {
     s \<leftarrow> status (po_signature t);
     case s of None \<Rightarrow> Some TxMissing
     | Some st \<Rightarrow>
         if ts_confirmation st \<noteq> Some ''finalized'' then Some TxPending
         else if \<not> js_falsy (ts_err st) then Some TxFailed
         else do {
           ok \<leftarrow> adapter_confirm ch (tp_program tp) fetch p;
           if \<not> ok then None else Some TxConfirmed } }"

definition transport_expired :: "int option \<Rightarrow> PreparedObservationTransaction \<Rightarrow> bool option" where
  "transport_expired blockHeight t = map_option (\<lambda>h. h > jint (po_lastValidBlockHeight t)) blockHeight"

text \<open>The answers of the RPC node during one turn of a job: one per call, in the order of the calls.\<close>

record 'b relay_rpc =
  rr_status1 :: "string \<Rightarrow> tx_status option option"
  rr_account1 :: account_fetch
  rr_account2 :: account_fetch
  rr_height :: "int option"
  rr_status2 :: "string \<Rightarrow> tx_status option option"
  rr_account3 :: account_fetch
  rr_account4 :: account_fetch
  rr_accounts :: "pubkey list \<Rightarrow> AccountInfo option list option"
  rr_blockhash :: "('b \<times> jsnum) option"
  rr_serialize :: "'b \<Rightarrow> int \<Rightarrow> Ed25519Instruction \<Rightarrow> TransactionInstruction \<Rightarrow> string option \<Rightarrow> (bytes \<times> bytes) option"
  rr_send :: "bytes \<Rightarrow> string option"

definition solana_transport :: "chain \<Rightarrow> ed25519 \<Rightarrow> observation_transport \<Rightarrow> 'b relay_rpc \<Rightarrow> relay_transport" where
  "solana_transport ch ed tp rpc =
     \<lparr>rt_inspect1 = transport_inspect ch tp (rr_status1 rpc) (rr_account1 rpc),
      rt_existing1 = adapter_confirm ch (tp_program tp) (rr_account2 rpc),
      rt_expired = transport_expired (rr_height rpc),
      rt_inspect2 = transport_inspect ch tp (rr_status2 rpc) (rr_account3 rpc),
      rt_existing2 = adapter_confirm ch (tp_program tp) (rr_account4 rpc),
      rt_eligible = transport_eligible ch tp (rr_accounts rpc),
      rt_prepare = transport_prepare ch ed tp (rr_serialize rpc) (rr_blockhash rpc),
      rt_send = transport_send (rr_send rpc)\<rparr>"

section \<open>Base 58 is injective\<close>

fun b58_val :: "string \<Rightarrow> nat" where
  "b58_val [] = 0"
| "b58_val (c # s) = find_index c b58_alphabet * 58 ^ length s + b58_val s"

lemma b58_alphabet_facts: "distinct b58_alphabet" "length b58_alphabet = 58"
  by (simp_all add: b58_alphabet_def)

lemma b58_digit [simp]: "d < 58 \<Longrightarrow> find_index (b58_alphabet ! d) b58_alphabet = d"
  by (simp add: find_index_nth b58_alphabet_facts)

lemma b58_loop_val: "b58_val (b58_loop n r) = n * 58 ^ length r + b58_val r"
proof (induction n r rule: b58_loop.induct)
  case (1 n r)
  show ?case
  proof (cases "n > 0")
    case True
    have "b58_val (b58_loop n r) = n div 58 * 58 ^ Suc (length r) + (n mod 58 * 58 ^ length r + b58_val r)"
      using 1 [OF True] True by (subst b58_loop.simps) simp
    also have "\<dots> = (n div 58 * 58 + n mod 58) * 58 ^ length r + b58_val r" by (simp only: add_mult_distrib power_Suc mult.assoc add.assoc)
    finally show ?thesis by (simp only: div_mult_mod_eq)
  qed (simp add: b58_loop.simps)
qed

lemma b58_first: "n > 0 \<Longrightarrow> \<exists>c t. b58_loop n r = c # t \<and> c \<noteq> CHR ''1''"
proof (induction n r rule: b58_loop.induct)
  case (1 n r)
  show ?case
  proof (cases "n div 58 > 0")
    case True
    from 1(1) [OF 1(2) True] 1(2) show ?thesis by (subst b58_loop.simps) simp
  next
    case False
    then have n: "n < 58" by simp
    have "b58_alphabet ! n \<noteq> b58_alphabet ! 0" using n 1(2) b58_alphabet_facts by (simp add: nth_eq_iff_index_eq)
    moreover have "b58_alphabet ! 0 = CHR ''1''" by (simp add: b58_alphabet_def)
    ultimately show ?thesis using 1(2) n by (subst b58_loop.simps) (simp add: b58_loop.simps)
  qed
qed

lemma signatureBase58_inject:
  assumes "signatureBase58 x = Some s" and "signatureBase58 y = Some s" and "length x = length y"
  shows "x = y"
proof -
  let ?l = "\<lambda>x. b58_loop (nat (be_val x)) []"
  have drop: "dropWhile (\<lambda>c. c = CHR ''1'') s = ?l x" if "signatureBase58 x = Some s" for x
  proof (cases "nat (be_val x) > 0")
    case True
    from b58_first [OF this, of "[]"] that show ?thesis by (auto simp: signatureBase58_def dropWhile_append split: if_splits)
  next
    case False
    with that show ?thesis by (auto simp: signatureBase58_def b58_loop.simps split: if_splits)
  qed
  from drop [OF assms(1)] drop [OF assms(2)] have "b58_val (?l x) = b58_val (?l y)" by simp
  then have "nat (be_val x) = nat (be_val y)" by (simp add: b58_loop_val)
  then show ?thesis using be_val_inj [OF assms(3)] by (simp add: nat_eq_iff)
qed

section \<open>What the transport promises the relay\<close>

text \<open>A prepared transaction passes the checks of the relay, given a safe block height.\<close>

lemma transport_prepare_ok:
  assumes "transport_prepare ch ed tp serialize latestBlockhash p = Some t" and "\<And>b h. latestBlockhash = Some (b, h) \<Longrightarrow> int_in h 0 (2 ^ 53 - 1)"
    and "\<And>b l a i k w s. serialize b l a i k = Some (w, s) \<Longrightarrow> w \<noteq> [] \<and> s \<noteq> []"
  shows "prepared_ok t \<and> verifyAuthorization ch ed (rp_auth p) (rp_verifier p) (rp_verifierSignature p)"
proof -
  obtain b h ix auth wire sg s where t: "latestBlockhash = Some (b, h)"
    "authorizationInstruction ch ed (rp_auth p) (rp_verifier p) (rp_verifierSignature p) = Some auth"
    "serialize b (jint (ad_computeUnitLimit (tp_adapter tp))) auth ix (tp_lookup tp) = Some (wire, sg)" "length wire \<le> 1232"
    "signatureBase58 sg = Some s" "t = \<lparr>po_wire = b64_enc wire, po_signature = s, po_lastValidBlockHeight = h\<rparr>"
    using assms(1) by (auto simp: transport_prepare_def bind_eq_Some_conv not_less split: if_splits)
  have w: "length wire > 0" "sg \<noteq> []" using assms(3) [OF t(3)] by auto
  have "s \<noteq> []"
  proof (cases "nat (be_val sg) > 0")
    case True
    from b58_first [OF this, of "[]"] t(5) w show ?thesis by (auto simp: signatureBase58_def)
  next
    case False
    then have "be_val sg = 0" by (simp add: order.antisym)
    then have "sg = zeros (length sg)" by (intro be_val_inj) simp_all
    then have "set sg \<subseteq> {0}" by (metis zeros_def set_replicate_conv_if empty_subsetI order_refl)
    then have "takeWhile (\<lambda>b. b = 0) sg = sg" by (auto simp: takeWhile_eq_all_conv)
    with t(5) w show ?thesis by (auto simp: signatureBase58_def)
  qed
  moreover have "length (b64_enc wire) > 0" "length (b64_enc wire) \<le> 2048" using w(1) t(4) unfolding length_b64_enc by linarith+
  ultimately show ?thesis using assms(2) [OF t(1)] t(2,6) by (auto simp: prepared_ok_def authorizationInstruction_def split: if_splits)
qed

lemma adapter_confirm_True:
  assumes "adapter_confirm ch program fetch p = Some True"
  obtains address a r where "commitment_address ch program p = Some address" "fetch address = Some (Some a)"
    "ac_owner a = program" "\<not> ac_executable a" "decodeObservationCommitment ch (ac_data a) = Some r" "commitment_matches r p"
  using assms by (auto simp: adapter_confirm_def bind_eq_Some_conv split: if_splits)

lemma transport_inspect_confirmed:
  "transport_inspect ch tp status fetch t p = Some TxConfirmed \<Longrightarrow> adapter_confirm ch (tp_program tp) fetch p = Some True"
  by (auto simp: transport_inspect_def bind_eq_Some_conv split: option.splits if_splits)

text \<open>A job becomes confirmed only on an answer that says so.\<close>

definition confirmed_in :: "string \<Rightarrow> RelayJob list \<Rightarrow> bool" where
  "confirmed_in n jobs = (\<exists>j\<in>set jobs. rj_nullifier j = n \<and> rj_status j = Confirmed)"

lemma confirmed_in_update:
  "(\<And>j. rj_nullifier (f j) = rj_nullifier j) \<Longrightarrow>
     confirmed_in n (set_job n f jobs) \<longleftrightarrow> (\<exists>j\<in>set jobs. rj_nullifier j = n \<and> rj_status (f j) = Confirmed)"
  unfolding confirmed_in_def set_job_def set_map bex_simps(7) by (rule bex_cong [OF HOL.refl]) (simp split: if_split)

lemma confirmed_in_set_job [simp]:
  "confirmed_in n (set_job n (retry_job now) jobs) = confirmed_in n jobs" "\<not> confirmed_in n (set_job n (fail_job c) jobs)"
  "\<not> confirmed_in n (set_job n (persist_job t) jobs)" "confirmed_in n (set_job n (backoff_job a now) jobs) = confirmed_in n jobs"
  by (simp_all add: confirmed_in_update) (simp_all add: confirmed_in_def retry_job_def fail_job_def persist_job_def backoff_job_def)

definition says_confirmed :: "relay_transport \<Rightarrow> ObservationRelayPayload \<Rightarrow> bool" where
  "says_confirmed tr p = ((\<exists>t. rt_inspect1 tr t p = Some TxConfirmed \<or> rt_inspect2 tr t p = Some TxConfirmed) \<or>
     rt_existing1 tr p = Some True \<or> rt_existing2 tr p = Some True)"

lemma broadcast_confirms:
  assumes "\<not> confirmed_in (rj_nullifier job) jobs"
  shows "\<not> confirmed_in (rj_nullifier job) (fst (snd (broadcast_job tr now q job jobs)))"
proof -
  have send: "\<not> confirmed_in (rj_nullifier job) (fst (snd (send_job tr now t job js)))" if "\<not> confirmed_in (rj_nullifier job) js" for t js
    using that by (simp add: send_job_def split: option.splits)
  show ?thesis using assms send by (auto simp: broadcast_job_def Let_def split: option.splits bool.splits)
qed

lemma submit_confirms:
  "\<not> confirmed_in (rj_nullifier job) jobs \<Longrightarrow> confirmed_in (rj_nullifier job) (fst (snd (submit_job tr now q job jobs))) \<Longrightarrow>
     says_confirmed tr (rj_payload job)"
  using broadcast_confirms by (auto simp: submit_job_def says_confirmed_def split: option.splits bool.splits if_splits)

lemma reconcile_confirms:
  assumes "\<not> confirmed_in (rj_nullifier job) jobs" and "\<not> says_confirmed tr (rj_payload job)"
  shows "\<not> confirmed_in (rj_nullifier job) (fst (snd (reconcile_job tr now t job jobs)))"
proof -
  have n: "rt_inspect1 tr t (rj_payload job) \<noteq> Some TxConfirmed" "rt_inspect2 tr t (rj_payload job) \<noteq> Some TxConfirmed"
    "rt_existing1 tr (rj_payload job) \<noteq> Some True" using assms(2) by (auto simp: says_confirmed_def)
  have sub: "\<not> confirmed_in (rj_nullifier job) (fst (snd (submit_job tr now q job jobs)))" for q
    using submit_confirms assms by blast
  show ?thesis unfolding reconcile_job_def Let_def using n assms(1) sub
    by (simp split: option.split tx_state.split bool.split)
qed

lemma run_job_confirms:
  assumes "\<not> confirmed_in (rj_nullifier job) jobs"
    and "confirmed_in (rj_nullifier job) (snd (run_job ch ed target (tr, now) job jobs))"
  shows "says_confirmed tr (rj_payload job)"
proof -
  have "confirmed_in (rj_nullifier job) (fst (snd (process_job ch ed target tr now job jobs)))"
    using assms(2) by (auto simp: run_job_def split: prod.splits bool.splits)
  with assms(1) show ?thesis
    using submit_confirms [of job jobs tr now None] reconcile_confirms [of job jobs tr now]
    by (fastforce simp: process_job_def split: if_splits option.splits)
qed

lemma eligible_True:
  assumes "transport_eligible ch tp read p = Some True"
  obtains a n rows config root where "registryAddresses ch (tp_program tp) (tp_protocol tp) = Some a"
    "hex32 (au_nullifier (rp_auth p)) = Some n"
    "read [ra_config a, ra_enrollment a, ch_pda ch [bytes_of_string ''obs'', n] (tp_program tp)] = Some rows"
    "Option.bind (trusted_data (tp_program tp) (row_at 0 rows)) (decodeProtocol ch) = Some config"
    "Option.bind (trusted_data (tp_program tp) (row_at 1 rows)) (decodeEnrollment ch) = Some root"
    "row_null 2 rows" "subarray 256 288 (bytes_of_hex (rp_proofBytes p)) \<in> set (activeRoots root)"
    "ch_toBase58 ch (pc_verifier config) = rp_verifier p" "JInt (pc_policyVersion config) = au_policyVersion (rp_auth p)"
proof -
  have "rp_protocolID p = hex_of_bytes (tp_protocol tp)" "rp_verifier p = tp_verifier tp"
    using assms by (auto simp: transport_eligible_def split: if_splits)
  with assms show thesis
    unfolding transport_eligible_def Let_def
    by (auto simp: bind_eq_Some_conv simp del: trusted_data_Some split: if_splits intro!: that)
qed

lemma sent_eligible: "run_job ch ed target (tr, now) job jobs = (Some s, jobs') \<Longrightarrow> rt_eligible tr (rj_payload job) = Some True"
  using process_effect [of tr now job jobs ch ed target]
  by (auto simp: run_job_def relay_effect_def quiet_effect_def resend_effect_def replace_effect_def split: prod.splits bool.splits)

section \<open>Properties\<close>

text \<open>C6. The relay and its Solana transport together: a job becomes confirmed only when the RPC node returned, at the
  address the program derives for it, an account owned by the program that is the commitment of exactly this
  job's payload; and a job is sent only for a proof whose observer root is active on the chain, whose
  nullifier has no account yet and whose verifier and policy version are the protocol's.\<close>

theorem relayed_jobs_on_chain:
  assumes "tr = solana_transport ch ed tp rpc" and "run_job ch ed target (tr, now) job jobs = (sent, jobs')"
  shows "(\<not> confirmed_in (rj_nullifier job) jobs \<and> confirmed_in (rj_nullifier job) jobs' \<longrightarrow>
      (\<exists>address a r. \<exists>fetch\<in>{rr_account1 rpc, rr_account2 rpc, rr_account3 rpc, rr_account4 rpc}.
         commitment_address ch (tp_program tp) (rj_payload job) = Some address \<and> fetch address = Some (Some a) \<and>
         ac_owner a = tp_program tp \<and> decodeObservationCommitment ch (ac_data a) = Some r \<and> commitment_matches r (rj_payload job))) \<and>
    (sent \<noteq> None \<longrightarrow>
      (\<exists>a n rows config root. registryAddresses ch (tp_program tp) (tp_protocol tp) = Some a \<and>
         hex32 (au_nullifier (rp_auth (rj_payload job))) = Some n \<and>
         rr_accounts rpc [ra_config a, ra_enrollment a, ch_pda ch [bytes_of_string ''obs'', n] (tp_program tp)] = Some rows \<and>
         Option.bind (trusted_data (tp_program tp) (row_at 0 rows)) (decodeProtocol ch) = Some config \<and>
         Option.bind (trusted_data (tp_program tp) (row_at 1 rows)) (decodeEnrollment ch) = Some root \<and>
         row_null 2 rows \<and> subarray 256 288 (bytes_of_hex (rp_proofBytes (rj_payload job))) \<in> set (activeRoots root) \<and>
         ch_toBase58 ch (pc_verifier config) = rp_verifier (rj_payload job) \<and>
         JInt (pc_policyVersion config) = au_policyVersion (rp_auth (rj_payload job))))"
proof (intro conjI impI)
  assume "\<not> confirmed_in (rj_nullifier job) jobs \<and> confirmed_in (rj_nullifier job) jobs'"
  then have "says_confirmed tr (rj_payload job)" using run_job_confirms assms(2) by (metis snd_conv)
  then obtain fetch where f: "fetch \<in> {rr_account1 rpc, rr_account2 rpc, rr_account3 rpc, rr_account4 rpc}"
    "adapter_confirm ch (tp_program tp) fetch (rj_payload job) = Some True"
    by (auto simp: says_confirmed_def assms(1) solana_transport_def dest!: transport_inspect_confirmed)
  from f(2) show "\<exists>address a r. \<exists>fetch\<in>{rr_account1 rpc, rr_account2 rpc, rr_account3 rpc, rr_account4 rpc}.
         commitment_address ch (tp_program tp) (rj_payload job) = Some address \<and> fetch address = Some (Some a) \<and>
         ac_owner a = tp_program tp \<and> decodeObservationCommitment ch (ac_data a) = Some r \<and> commitment_matches r (rj_payload job)"
    using f(1) by (elim adapter_confirm_True) blast
next
  assume "sent \<noteq> None"
  then obtain s where "run_job ch ed target (tr, now) job jobs = (Some s, jobs')" using assms(2) by auto
  from sent_eligible [OF this] have "transport_eligible ch tp (rr_accounts rpc) (rj_payload job) = Some True"
    by (simp add: assms(1) solana_transport_def)
  then show "\<exists>a n rows config root. registryAddresses ch (tp_program tp) (tp_protocol tp) = Some a \<and>
         hex32 (au_nullifier (rp_auth (rj_payload job))) = Some n \<and>
         rr_accounts rpc [ra_config a, ra_enrollment a, ch_pda ch [bytes_of_string ''obs'', n] (tp_program tp)] = Some rows \<and>
         Option.bind (trusted_data (tp_program tp) (row_at 0 rows)) (decodeProtocol ch) = Some config \<and>
         Option.bind (trusted_data (tp_program tp) (row_at 1 rows)) (decodeEnrollment ch) = Some root \<and>
         row_null 2 rows \<and> subarray 256 288 (bytes_of_hex (rp_proofBytes (rj_payload job))) \<in> set (activeRoots root) \<and>
         ch_toBase58 ch (pc_verifier config) = rp_verifier (rj_payload job) \<and>
         JInt (pc_policyVersion config) = au_policyVersion (rp_auth (rj_payload job))"
    by (elim eligible_True) blast
qed

text \<open>A job whose commitment is already on the chain.\<close>

definition sample_commitment_account :: AccountInfo where
  "sample_commitment_account = \<lparr>ac_owner = replicate 32 3, ac_executable = False,
     ac_data = discriminator sample_chain ''account'' ''ObservationCommitment'' @ zeros 132 @ [2] @ replicate 32 9 @ zeros 32 @ [0] @
       [1, 0, 0, 0, 0, 0, 0, 0]\<rparr>"

definition sample_observation_transport :: observation_transport where
  "sample_observation_transport = \<lparr>tp_target = ''t'', tp_program = replicate 32 3, tp_protocol = zeros 32, tp_payer = replicate 32 4,
     tp_adapter = \<lparr>ad_contract = ''c'', ad_computeUnitLimit = JInt 299999, ad_verificationKeyHash = [], ad_mint = zeros 32\<rparr>,
     tp_verifier = rp_verifier sample_payload, tp_lookup = None\<rparr>"

definition sample_rpc :: "unit relay_rpc" where
  "sample_rpc = \<lparr>rr_status1 = (\<lambda>_. None), rr_account1 = (\<lambda>_. None), rr_account2 = (\<lambda>_. None), rr_height = None, rr_status2 = (\<lambda>_. None),
     rr_account3 = (\<lambda>_. None), rr_account4 = (\<lambda>_. Some (Some sample_commitment_account)), rr_accounts = (\<lambda>_. None), rr_blockhash = None,
     rr_serialize = (\<lambda>_ _ _ _ _. None), rr_send = (\<lambda>_. None)\<rparr>"

lemma sample_confirm:
  "adapter_confirm sample_chain (replicate 32 3) (\<lambda>_. Some (Some sample_commitment_account)) sample_payload = Some True"
  by code_simp

theorem relayed_jobs_on_chain_witness:
  "\<exists>address. commitment_address sample_chain (replicate 32 3) sample_payload = Some address \<and>
     rr_account4 sample_rpc address = Some (Some sample_commitment_account)"
proof -
  let ?tr = "solana_transport sample_chain accept_all sample_observation_transport sample_rpc"
  obtain sent jobs' where r: "run_job sample_chain accept_all (Some (''p'', rp_verifier sample_payload)) (?tr, 0) sample_job [sample_job] = (sent, jobs')"
    by fastforce
  have auth: "authorized_job sample_chain accept_all (Some (''p'', rp_verifier sample_payload)) sample_job"
    using sample_payload_valid by (simp add: authorized_job_def sample_job_def) (simp add: sample_payload_def sample_authorization_def)
  have "rt_existing2 ?tr sample_payload = Some True"
    using sample_confirm by (simp add: solana_transport_def sample_rpc_def sample_observation_transport_def)
  then have "confirmed_in (rj_nullifier sample_job) jobs'"
    using r auth by (auto simp: run_job_def process_job_def submit_job_def job_transaction_def confirmed_in_def set_job_def
        confirm_existing_job_def sample_job_def)
  moreover have "\<not> confirmed_in (rj_nullifier sample_job) [sample_job]" by (simp add: confirmed_in_def sample_job_def)
  ultimately obtain address a where "commitment_address sample_chain (tp_program sample_observation_transport) (rj_payload sample_job) = Some address"
    using relayed_jobs_on_chain [OF HOL.refl r] by auto
  then show ?thesis by (simp add: sample_observation_transport_def sample_job_def sample_rpc_def)
qed

end
