(* ===== verification/Chain_State.thy ===== *)
theory Chain_State
  imports Relay_Transport Policy Payments
begin

text \<open>
  What the services read of the chain: the policy source of \<^verbatim>\<open>observation-solana.ts\<close> (snapshots, confidence
  state, payouts, claims) and the status report of \<^verbatim>\<open>observation-status.ts\<close>.  \<open>read\<close> is the account reader,
  \<open>None\<close> when it rejects.  The theory connects the snapshot with the checks of the policy and the claim with
  the digest the claim client signs.
\<close>

type_synonym account_reader = "pubkey list \<Rightarrow> AccountInfo option list option"

text \<open>\<^verbatim>\<open>Buffer.from(s, "hex")\<close> on any string: both cases are accepted and the first other character ends it.\<close>

definition hex_lower :: "char \<Rightarrow> char" where
  "hex_lower c = (case find_index c ''ABCDEF'' of n \<Rightarrow> if n < 6 then ''abcdef'' ! n else c)"

definition node_hex :: "string \<Rightarrow> bytes" where
  "node_hex s = bytes_of_hex (map hex_lower s)"

section \<open>The policy source\<close>

record policy_source =
  so_target :: string
  so_paymentScope :: string
  so_program :: pubkey
  so_protocol :: bytes
  so_minimumRSSI :: jsnum
  so_policyVersion :: jsnum
  so_keyDigest :: "string option"

definition policySource ::
  "chain \<Rightarrow> pubkey \<Rightarrow> bytes \<Rightarrow> string \<Rightarrow> jsnum \<Rightarrow> jsnum \<Rightarrow> string option \<Rightarrow> policy_source option" where
  "policySource ch program protocol target minimumRSSI policyVersion keyDigest =
     (if program = zeros 32 \<or> length protocol \<noteq> 32 \<or> all_zero protocol \<or> target = [] \<or> \<not> int_in minimumRSSI (-127) 0 \<or>
         jint policyVersion < 1 then None
      else if (case keyDigest of None \<Rightarrow> False | Some d \<Rightarrow> \<not> is_hex 64 d) then None
      else let scope = target @ ''/'' @ ch_toBase58 ch program @ ''/'' @ hex_of_bytes protocol
      in Some \<lparr>so_target = scope @ ''/'' @ dec_str (jint policyVersion) @ ''/'' @ dec_str (jint minimumRSSI), so_paymentScope = scope,
        so_program = program, so_protocol = protocol, so_minimumRSSI = minimumRSSI, so_policyVersion = policyVersion,
        so_keyDigest = keyDigest\<rparr>)"

definition openPolicySource ::
  "chain \<Rightarrow> rpc_url option \<Rightarrow> string \<Rightarrow> string \<Rightarrow> jsnum \<Rightarrow> jsnum \<Rightarrow> string \<Rightarrow> string option \<Rightarrow> string option \<Rightarrow> account_fetch \<Rightarrow>
     policy_source option" where
  "openPolicySource ch url programID protocolHex minimumRSSI policyVersion expectedGenesis keyDigest rpc_genesis fetch = do {
     u \<leftarrow> url;
     if url_username u \<noteq> [] \<or> url_password u \<noteq> [] \<or> url_hash u \<noteq> [] \<or> url_protocol u \<notin> {''http:'', ''https:''} \<or>
        url_protocol u \<noteq> ''https:'' \<and> url_hostname u \<notin> {''127.0.0.1'', ''localhost'', ''[::1]''} \<or> \<not> is_hex 64 protocolHex then None
     else do {
       program \<leftarrow> ch_ofBase58 ch programID;
       genesis \<leftarrow> rpc_genesis;
       if genesis \<noteq> expectedGenesis then None
       else do {
         account \<leftarrow> fetch program;
         if (case account of None \<Rightarrow> True | Some a \<Rightarrow> \<not> ac_executable a \<or> ac_owner a \<noteq> ch_loader ch) then None
         else policySource ch program (bytes_of_hex protocolHex) genesis minimumRSSI policyVersion keyDigest } } }"

section \<open>Payouts and claims\<close>

definition payment_state ::
  "chain \<Rightarrow> policy_source \<Rightarrow> account_reader \<Rightarrow> string \<Rightarrow> (PaymentAddresses \<times> ProtocolConfig \<times> PaymentSettings \<times> Payout option) option" where
  "payment_state ch so read pseudonym =
     (if \<not> is_hex 64 pseudonym then None
      else do {
        p \<leftarrow> paymentAddresses ch (so_program so) (so_protocol so) (bytes_of_hex pseudonym);
        a \<leftarrow> registryAddresses ch (so_program so) (so_protocol so);
        rows \<leftarrow> read [ra_config a, py_payout p, py_settings p];
        c \<leftarrow> trusted_data (so_program so) (row_at 0 rows); config \<leftarrow> decodeProtocol ch c;
        s \<leftarrow> trusted_data (so_program so) (row_at 2 rows); settings \<leftarrow> decodePaymentSettings ch s;
        if pc_protocolId config \<noteq> so_protocol so \<or> pc_escrow config \<noteq> ra_escrow a \<or> pc_rewardMint config \<noteq> ps_mint settings \<or>
           ps_mint settings \<noteq> ch_usdc ch then None
        else do {
          payout \<leftarrow> (if row_null 1 rows then Some None
            else do { d \<leftarrow> trusted_data (so_program so) (row_at 1 rows); map_option Some (decodePayout ch d) });
          if (case payout of None \<Rightarrow> False
              | Some y \<Rightarrow> po_protocol y \<noteq> so_protocol so \<or> hex_of_bytes (po_pseudonym y) \<noteq> pseudonym \<or> po_mint y \<noteq> ps_mint settings) then None
          else Some (p, config, settings, payout) } })"

record PayoutReport =
  pt_status :: string
  pt_network :: string
  pt_program :: string
  pt_protocol :: string
  pt_pseudonym :: string
  pt_payout :: string
  pt_mint :: string
  pt_policy_version :: int
  pt_fee_bps :: int
  pt_withdrawal_key :: string
  pt_gross :: string
  pt_fees :: string
  pt_available :: string
  pt_withdrawn :: string
  pt_nonce :: string

definition payout_report :: "chain \<Rightarrow> policy_source \<Rightarrow> account_reader \<Rightarrow> string \<Rightarrow> PayoutReport option" where
  "payout_report ch so read pseudonym = do {
     (p, config, settings, payout) \<leftarrow> payment_state ch so read pseudonym;
     let amount = (\<lambda>f. formatUSDC (case payout of None \<Rightarrow> 0 | Some y \<Rightarrow> f y));
     gross \<leftarrow> amount po_gross; fees \<leftarrow> amount po_fees; available \<leftarrow> amount po_available; withdrawn \<leftarrow> amount po_withdrawn;
     Some \<lparr>pt_status = (if payout = None then ''pending'' else ''finalized''), pt_network = ''devnet'',
       pt_program = ch_toBase58 ch (so_program so), pt_protocol = hex_of_bytes (so_protocol so), pt_pseudonym = pseudonym,
       pt_payout = ch_toBase58 ch (py_payout p), pt_mint = ch_toBase58 ch (ps_mint settings), pt_policy_version = pc_policyVersion config,
       pt_fee_bps = ps_feeBps settings,
       pt_withdrawal_key = ch_toBase58 ch (case payout of None \<Rightarrow> zeros 32 | Some y \<Rightarrow> po_withdrawalKey y),
       pt_gross = gross, pt_fees = fees, pt_available = available, pt_withdrawn = withdrawn,
       pt_nonce = dec_str (case payout of None \<Rightarrow> 0 | Some y \<Rightarrow> po_nonce y)\<rparr> }"

definition token_account :: "chain \<Rightarrow> pubkey \<Rightarrow> pubkey \<Rightarrow> AccountInfo option \<Rightarrow> bool" where
  "token_account ch mint authority row =
     (case row of None \<Rightarrow> False
      | Some a \<Rightarrow> \<not> ac_executable a \<and> ac_owner a = ch_token ch \<and> length (ac_data a) = 165 \<and>
          subarray 0 32 (ac_data a) = mint \<and> subarray 32 64 (ac_data a) = authority \<and> ac_data a ! 108 = 1)"

text \<open>\<open>read'\<close> is the second read and \<open>now\<close> the clock in milliseconds.\<close>

definition claim ::
  "chain \<Rightarrow> policy_source \<Rightarrow> account_reader \<Rightarrow> account_reader \<Rightarrow> int \<Rightarrow> string \<Rightarrow> string \<Rightarrow> string \<Rightarrow> string option \<Rightarrow>
     ClaimAuthorization option" where
  "claim ch so read read' now pseudonym withdrawalKey destination expiresAt = do {
     (p, config, settings, payout) \<leftarrow> payment_state ch so read pseudonym;
     if JInt (pc_policyVersion config) \<noteq> so_policyVersion so then None
     else do {
       key \<leftarrow> ch_ofBase58 ch withdrawalKey; to \<leftarrow> ch_ofBase58 ch destination;
       y \<leftarrow> payout;
       if po_available y = 0 \<or> key = zeros 32 \<or> to = py_vault p \<or> po_withdrawalKey y \<noteq> zeros 32 \<and> po_withdrawalKey y \<noteq> key then None
       else do {
         rows \<leftarrow> read' [to];
         if \<not> token_account ch (po_mint y) key (row_at 0 rows) then None
         else let seconds = now div 1000; expiry = (case expiresAt of None \<Rightarrow> dec_str (seconds + 240) | Some e \<Rightarrow> e)
         in if \<not> (is_decimal expiry \<and> expiry \<noteq> ''0'' \<and> length expiry \<le> 11) \<or> dec_val expiry < seconds \<or> dec_val expiry > seconds + 300
            then None
            else Some \<lparr>ca_program = ch_toBase58 ch (so_program so), ca_payout = ch_toBase58 ch (py_payout p), ca_mint = ch_toBase58 ch (po_mint y),
              ca_withdrawalKey = ch_toBase58 ch key, ca_destination = ch_toBase58 ch to, ca_amount = dec_str (po_available y),
              ca_nonce = dec_str (po_nonce y), ca_expiresAt = expiry, ca_policyVersion = JInt (pc_policyVersion config)\<rparr> } } }"

text \<open>The claim transaction before the library serializes it: the fee payer, the blockhash, the signature check and the
  payout instruction.  \<open>blockhash\<close> is \<open>None\<close> for a reader without the call, \<open>Some None\<close> for a rejection.\<close>

definition prepareClaim ::
  "chain \<Rightarrow> policy_source \<Rightarrow> account_reader \<Rightarrow> 'b option option \<Rightarrow> ClaimAuthorization \<Rightarrow> string \<Rightarrow> string \<Rightarrow>
     (pubkey \<times> 'b \<times> Ed25519Instruction \<times> TransactionInstruction) option" where
  "prepareClaim ch so read blockhash v verifier signature =
     (if blockhash = None \<or> ca_program v \<noteq> ch_toBase58 ch (so_program so) then None
      else do {
        payoutKey \<leftarrow> ch_ofBase58 ch (ca_payout v);
        rows \<leftarrow> read [payoutKey];
        d \<leftarrow> trusted_data (so_program so) (row_at 0 rows);
        y \<leftarrow> decodePayout ch d;
        p \<leftarrow> paymentAddresses ch (so_program so) (so_protocol so) (po_pseudonym y);
        if po_protocol y \<noteq> so_protocol so \<or> py_payout p \<noteq> payoutKey then None
        else do {
          answer \<leftarrow> blockhash; latest \<leftarrow> answer;
          key \<leftarrow> ch_ofBase58 ch (ca_withdrawalKey v); verifierKey \<leftarrow> ch_ofBase58 ch verifier; digest \<leftarrow> claimDigest ch v;
          mint \<leftarrow> ch_ofBase58 ch (ca_mint v); to \<leftarrow> ch_ofBase58 ch (ca_destination v);
          ix \<leftarrow> claimPayout ch (so_program so) (so_protocol so) (po_pseudonym y) mint key to
            (dec_val (ca_amount v)) (dec_val (ca_nonce v)) (dec_val (ca_expiresAt v));
          Some (key, latest, \<lparr>ei_publicKey = verifierKey, ei_signature = node_hex signature, ei_message = digest\<rparr>, ix) } })"

section \<open>Snapshots\<close>

definition chain_snapshot ::
  "chain \<Rightarrow> policy_source \<Rightarrow> account_reader \<Rightarrow> ObservationTranscript \<Rightarrow> policy_error option + policy_snapshot" where
  "chain_snapshot ch so read t =
     (if so_protocol so \<noteq> ot_protocolID t then Inl (Some PE_DEVICE_UNKNOWN)
      else of_opt None (do {
        a \<leftarrow> registryAddresses ch (so_program so) (so_protocol so);
        device_address \<leftarrow> ra_device a (ot_deviceID t);
        let nullifier = ch_pda ch [bytes_of_string ''obs'', ot_nullifier t] (so_program so);
        let requested = [ra_config a, device_address, ra_enrollment a, nullifier] @
          (if so_keyDigest so = None then [] else [ch_pda ch [bytes_of_string ''observation-verifier''] (so_program so)]);
        rows \<leftarrow> read requested;
        if length rows \<noteq> length requested then None
        else do {
          _ \<leftarrow> (case so_keyDigest so of None \<Rightarrow> Some ()
            | Some k \<Rightarrow> do {
                d \<leftarrow> trusted_data (so_program so) (row_at 4 rows); v \<leftarrow> decodeObservationVerifier ch d;
                if ov_keyDigest v \<noteq> k then None else Some () });
          c \<leftarrow> trusted_data (so_program so) (row_at 0 rows); config \<leftarrow> decodeProtocol ch c;
          if pc_protocolId config \<noteq> so_protocol so \<or> pc_epochSeconds config = 0 \<or>
             JInt (pc_policyVersion config) \<noteq> so_policyVersion so \<or> pc_authority config = zeros 32 \<or> pc_verifier config = zeros 32 \<or>
             pc_escrow config \<noteq> ra_escrow a then None
          else do {
            e \<leftarrow> trusted_data (so_program so) (row_at 2 rows); enrollment \<leftarrow> decodeEnrollment ch e;
            if ea_authority enrollment = zeros 32 then None
            else do {
              device \<leftarrow> (if row_null 1 rows then Some None
                else do { d \<leftarrow> trusted_data (so_program so) (row_at 1 rows); map_option Some (decodeDevice ch d) });
              if (case device of None \<Rightarrow> False | Some d \<Rightarrow> dr_deviceId d \<noteq> ot_deviceID t \<or> dr_registeredAt d \<le> 0) then None
              else Some \<lparr>ss_device = map_option (\<lambda>d. \<lparr>dv_key = dr_key d, dv_curve = JInt (dr_curve d), dv_capabilities = dr_capabilities d\<rparr>) device,
                ss_epochSeconds = JInt (pc_epochSeconds config), ss_minimumRSSI = so_minimumRSSI so,
                ss_roots = map (\<lambda>r. dec_str (be_val r)) (activeRoots enrollment), ss_nullifierUsed = (\<not> row_null 3 rows),
                ss_verifier = Some (ch_toBase58 ch (pc_verifier config)), ss_policyVersion = Some (JInt (pc_policyVersion config))\<rparr> } } } }))"

record ConfidenceState =
  ct_program :: string
  ct_protocolID :: string
  ct_policyVersion :: int
  ct_observationRoot :: string
  ct_observerCount :: int
  ct_commitment :: string

definition confidenceState ::
  "chain \<Rightarrow> policy_source \<Rightarrow> account_reader \<Rightarrow> string \<Rightarrow> jsnum \<Rightarrow> ConfidenceState option option" where
  "confidenceState ch so read device epoch = do {
     a \<leftarrow> observationAddresses ch (so_program so) (so_protocol so) (node_hex device) epoch (zeros 32);
     rows \<leftarrow> read [ra_config a, oa_deviceEpoch a];
     c \<leftarrow> trusted_data (so_program so) (row_at 0 rows); config \<leftarrow> decodeProtocol ch c;
     if pc_protocolId config \<noteq> so_protocol so then None
     else if row_null 1 rows then Some None
     else do {
       d \<leftarrow> trusted_data (so_program so) (row_at 1 rows); state \<leftarrow> decodeDeviceEpoch ch d;
       Some (Some \<lparr>ct_program = ch_toBase58 ch (so_program so), ct_protocolID = hex_of_bytes (so_protocol so),
         ct_policyVersion = pc_policyVersion config, ct_observationRoot = hex_of_bytes (de_observationRoot state),
         ct_observerCount = de_independentObservers state, ct_commitment = hex_of_bytes (de_confidenceCommitment state)\<rparr>) } }"

section \<open>The status of an observation\<close>

record ObservationChainStatus =
  os_network :: string
  os_on_chain :: bool
  os_program :: string
  os_protocol_id :: string
  os_device_id :: string
  os_epoch :: jsnum
  os_paid :: "bool option"
  os_independent_observers :: "int option"
  os_paid_slots_used :: "int option"
  os_observation_root :: "string option"

definition finalizedObservationStatus ::
  "chain \<Rightarrow> account_reader \<Rightarrow> pubkey \<Rightarrow> bytes \<Rightarrow> ObservationRelayPayload \<Rightarrow> string \<Rightarrow> ObservationChainStatus option" where
  "finalizedObservationStatus ch read program protocol p network =
     (if rp_protocolID p \<noteq> hex_of_bytes protocol then None
      else do {
        a \<leftarrow> observationAddresses ch program protocol (node_hex (rp_deviceID p)) (rp_epoch p) (node_hex (au_nullifier (rp_auth p)));
        rows \<leftarrow> read [oa_commitment a, oa_deviceEpoch a];
        if length rows \<noteq> 2 then None
        else let base = \<lparr>os_network = network, os_on_chain = False, os_program = ch_toBase58 ch program, os_protocol_id = rp_protocolID p,
               os_device_id = rp_deviceID p, os_epoch = rp_epoch p, os_paid = None, os_independent_observers = None,
               os_paid_slots_used = None, os_observation_root = None\<rparr>
        in if row_null 0 rows then Some base
        else do {
          d \<leftarrow> trusted_data program (row_at 0 rows); r \<leftarrow> decodeObservationCommitment ch d;
          if \<not> commitment_matches r p then None
          else do {
            e \<leftarrow> trusted_data program (row_at 1 rows); epoch \<leftarrow> decodeDeviceEpoch ch e;
            if de_independentObservers epoch < 1 \<or> de_paidSlotsUsed epoch > de_independentObservers epoch \<or>
               oc_slotPaid r \<and> de_paidSlotsUsed epoch < 1 then None
            else Some (base\<lparr>os_on_chain := True, os_paid := Some (oc_slotPaid r),
              os_independent_observers := Some (de_independentObservers epoch), os_paid_slots_used := Some (de_paidSlotsUsed epoch),
              os_observation_root := Some (hex_of_bytes (de_observationRoot epoch))\<rparr>) } } })"

definition source_status :: "chain \<Rightarrow> policy_source \<Rightarrow> account_reader \<Rightarrow> ObservationRelayPayload \<Rightarrow> ObservationChainStatus option" where
  "source_status ch so read p = finalizedObservationStatus ch read (so_program so) (so_protocol so) p
     (if takeWhile (\<lambda>c. c \<noteq> CHR ''/'') (so_paymentScope so) = DEVNET_GENESIS then ''devnet'' else ''local-validator'')"

section \<open>Lemmas\<close>

lemma hex_lower_hex [simp]: "is_hex_char c \<Longrightarrow> hex_lower c = c"
  by (auto simp: hex_lower_def is_hex_char_def hex_digits_def)

lemma node_hex_lower: "is_hex n s \<Longrightarrow> node_hex s = bytes_of_hex s"
  by (simp add: node_hex_def is_hex_def list_all_iff cong: map_cong)

lemma node_hex_of_bytes [simp]: "node_hex (hex_of_bytes b) = b"
  using node_hex_lower [of "2 * length b" "hex_of_bytes b"] by (simp add: is_hex_of_bytes)

lemma decodeProtocol_ok: "decodeProtocol ch d = Some c \<Longrightarrow> protocol_ok c"
  using rd_protocol_Some by (auto simp: decodeProtocol_def reader_finish_def bind_eq_Some_conv split: if_splits)

lemma payment_state_Some:
  assumes "payment_state ch so read pseudonym = Some (p, config, settings, payout)"
  obtains a rows where "registryAddresses ch (so_program so) (so_protocol so) = Some a"
    "paymentAddresses ch (so_program so) (so_protocol so) (bytes_of_hex pseudonym) = Some p"
    "read [ra_config a, py_payout p, py_settings p] = Some rows"
    "protocol_ok config" "pc_protocolId config = so_protocol so" "pc_escrow config = ra_escrow a"
    "ps_mint settings = ch_usdc ch" "row_null 1 rows \<longleftrightarrow> payout = None"
    "\<forall>y. payout = Some y \<longrightarrow> payout_ok y \<and> hex_of_bytes (po_pseudonym y) = pseudonym \<and> po_protocol y = so_protocol so \<and>
       po_mint y = ch_usdc ch \<and> Option.bind (trusted_data (so_program so) (row_at 1 rows)) (decodePayout ch) = Some y"
proof -
  have "is_hex 64 pseudonym" using assms by (auto simp: payment_state_def split: if_splits)
  then show thesis using assms unfolding payment_state_def
    by (auto simp: bind_eq_Some_conv simp del: trusted_data_Some split: if_splits option.splits
        dest!: decodeProtocol_ok dest: decodePayout_sound intro!: that)
qed

text \<open>The parts of a snapshot and where they were read.\<close>

lemma chain_snapshot_Inr:
  assumes "chain_snapshot ch so read t = Inr s"
  obtains a address rows config enrollment device where
    "registryAddresses ch (so_program so) (so_protocol so) = Some a" "so_protocol so = ot_protocolID t"
    "ra_device a (ot_deviceID t) = Some address"
    "read ([ra_config a, address, ra_enrollment a, ch_pda ch [bytes_of_string ''obs'', ot_nullifier t] (so_program so)] @
      (if so_keyDigest so = None then [] else [ch_pda ch [bytes_of_string ''observation-verifier''] (so_program so)])) = Some rows"
    "\<forall>k. so_keyDigest so = Some k \<longrightarrow> map_option ov_keyDigest
      (Option.bind (trusted_data (so_program so) (row_at 4 rows)) (decodeObservationVerifier ch)) = Some k"
    "Option.bind (trusted_data (so_program so) (row_at 0 rows)) (decodeProtocol ch) = Some config"
    "pc_protocolId config = so_protocol so" "JInt (pc_policyVersion config) = so_policyVersion so" "pc_epochSeconds config \<noteq> 0"
    "Option.bind (trusted_data (so_program so) (row_at 2 rows)) (decodeEnrollment ch) = Some enrollment"
    "ss_roots s = map (\<lambda>r. dec_str (be_val r)) (activeRoots enrollment)" "ss_nullifierUsed s \<longleftrightarrow> \<not> row_null 3 rows"
    "(if row_null 1 rows then device = None else Option.bind (trusted_data (so_program so) (row_at 1 rows)) (decodeDevice ch) = device \<and> device \<noteq> None)"
    "\<forall>d. device = Some d \<longrightarrow> dr_deviceId d = ot_deviceID t \<and> dr_registeredAt d > 0"
    "ss_device s = map_option (\<lambda>d. \<lparr>dv_key = dr_key d, dv_curve = JInt (dr_curve d), dv_capabilities = dr_capabilities d\<rparr>) device"
proof -
  have "so_protocol so = ot_protocolID t" using assms by (auto simp: chain_snapshot_def split: if_splits)
  with assms show thesis unfolding chain_snapshot_def Let_def
    by (auto simp: bind_eq_Some_conv not_le simp del: trusted_data_Some split: if_splits option.splits intro!: that)
qed

section \<open>Properties\<close>



section \<open>Concrete accounts\<close>

definition demo_source :: policy_source where
  "demo_source = \<lparr>so_target = ''t'', so_paymentScope = ''s'', so_program = replicate 32 3, so_protocol = replicate 32 1,
     so_minimumRSSI = JInt (-100), so_policyVersion = JInt 7, so_keyDigest = None\<rparr>"

definition program_account :: "string \<Rightarrow> bytes \<Rightarrow> AccountInfo option" where
  "program_account name data = Some \<lparr>ac_owner = replicate 32 3, ac_executable = False,
     ac_data = discriminator (lib_chain demo_lib) ''account'' name @ data\<rparr>"

definition demo_config :: ProtocolConfig where
  "demo_config = \<lparr>pc_authority = replicate 32 4, pc_protocolId = replicate 32 1, pc_epochSeconds = 60, pc_verifier = replicate 32 5,
     pc_policyVersion = 7, pc_rewardMint = ch_usdc sample_chain, pc_rewardPerSlot = 5, pc_slotsPerEpoch = 3,
     pc_escrow = take 32 (bytes_of_string ''escrow'' @ replicate 32 1)\<rparr>"

definition demo_rows :: "AccountInfo option list" where
  "demo_rows = [program_account ''ProtocolConfig'' (protocol_bytes demo_config),
     program_account ''DeviceRegistry'' (zeros 32 @ replicate 32 3 @ [1, 0, 0] @ le_num 8 9 @ le_num 4 2 @ zeros 39),
     program_account ''EnrollmentAuthority'' (replicate 32 6 @ le_num 8 1 @ zeros 128), None]"

definition demo_chain_snapshot :: policy_snapshot where
  "demo_chain_snapshot = demo_snapshot\<lparr>ss_verifier := Some (hex_of_bytes (replicate 32 5))\<rparr>"

lemma demo_chain_read: "chain_snapshot (lib_chain demo_lib) demo_source (\<lambda>_. Some demo_rows) demo_transcript = Inr demo_chain_snapshot"
  by code_simp

lemma demo_chain_checked:
  "receive_checked demo_lib demo_service demo_context (Inr demo_chain_snapshot) (JInt 300000) demo_db =
     Continue (demo_chain_snapshot, demo_key 3, demo_key 5)"
proof -
  have f: "rc_transcript demo_context = demo_transcript" "rc_envelope demo_context = demo_envelope" "rc_match demo_context"
      "rc_hash demo_context = hex_of_bytes (zeros 32)" "rc_digest demo_context = hex_of_bytes (zeros 32)"
      "oe_key_id demo_envelope = b64_enc (zeros 32)" "b64_dec (oe_assertion demo_envelope) = sample_assertion"
      "oe_public demo_envelope ! 0 = ''0''"
    by (simp_all add: demo_context_def demo_envelope_def del: b64_enc.simps)
  have s: "ss_epochSeconds demo_chain_snapshot = JInt 60" "ss_minimumRSSI demo_chain_snapshot = JInt (-100)" "ss_roots demo_chain_snapshot = [''0'']"
    "lib_x509 demo_lib = sample_x509" "sp_attest demo_service = \<lparr>av_policy = sample_policy, av_rpID = zeros 32\<rparr>"
    "device_known demo_lib demo_chain_snapshot demo_transcript" "counter_enabled demo_chain_snapshot"
    using demo_device by (simp_all add: demo_chain_snapshot_def demo_snapshot_def demo_lib_def demo_service_def device_known_def counter_enabled_def)
  have "previous h d demo_db = Inr False" for h d by (simp add: previous_def demo_db_def fresh_policy_db_def)
  with demo_device demo_asserted s(6,7) show ?thesis
    by (simp add: receive_checked_def f s demo_policy_key demo_time del: b64_enc.simps)
qed


definition claim_chain :: chain where
  "claim_chain = sample_chain\<lparr>ch_pda := \<lambda>seeds p. take 32 (concat seeds @ p @ zeros 32), ch_sha256 := \<lambda>_. zeros 32,
     ch_ofBase58 := \<lambda>s. if is_hex 64 s then Some (bytes_of_hex s) else None\<rparr>"

definition claim_source :: policy_source where
  "claim_source = the (policySource claim_chain (replicate 32 3) (replicate 32 1) ''t'' (JInt (-90)) (JInt 7) None)"

definition claim_rows :: "AccountInfo option list" where
  "claim_rows = [program_account ''ProtocolConfig'' (protocol_bytes (demo_config\<lparr>pc_escrow := take 32 (bytes_of_string ''escrow'' @ replicate 32 1)\<rparr>)),
     program_account ''Payout'' (payout_bytes (sample_payout\<lparr>po_protocol := replicate 32 1, po_mint := ch_usdc sample_chain\<rparr>)),
     program_account ''PaymentSettings'' (replicate 32 4 @ ch_usdc sample_chain @ replicate 32 5 @ [0, 0])]"

definition claim_token :: "AccountInfo option" where
  "claim_token = Some \<lparr>ac_owner = ch_token sample_chain, ac_executable = False,
     ac_data = ch_usdc sample_chain @ replicate 32 2 @ zeros 44 @ [1] @ zeros 56\<rparr>"

lemma claim_source_open: "policySource claim_chain (replicate 32 3) (replicate 32 1) ''t'' (JInt (-90)) (JInt 7) None = Some claim_source"
  by code_simp

lemma demo_claim:
  "claim claim_chain claim_source (\<lambda>_. Some claim_rows) (\<lambda>_. Some [claim_token]) 5000 (hex_of_bytes (zeros 32))
     (hex_of_bytes (replicate 32 2)) (hex_of_bytes (replicate 32 8)) None \<noteq> None"
  by code_simp


end
