(* ===== verification/Eligibility.thy ===== *)
theory Eligibility
  imports Chain_State
begin

text \<open>
  The eligibility quotes of \<^verbatim>\<open>device-eligibility.ts\<close>: which devices have open paid slots and what a slot pays.
  Every \<^verbatim>\<open>EligibilityError\<close> code is a constructor; the account reader and the RPC answers are arguments.
\<close>

datatype eligibility_error =
    EG_invalid_input | EG_invalid_config | EG_invalid_target | EG_protocol_unknown | EG_account_mismatch | EG_rpc_unavailable

record DeviceSlots =
  ds_registered :: bool
  ds_protocol_id :: string
  ds_open_slots :: int
  ds_reward :: string
  ds_policy_version :: int

section \<open>Arguments and amounts\<close>

definition elig_id :: "jsval \<Rightarrow> bytes option" where
  "elig_id v =
     (case v of JStr s \<Rightarrow>
        let body = (if take 2 s \<in> {''0x'', ''0X''} then drop 2 s else s)
        in if is_hex 64 (map hex_lower body) then Some (node_hex body) else None
      | _ \<Rightarrow> None)"

definition epochNumber :: "jsval \<Rightarrow> int option" where
  "epochNumber v =
     (case v of JStr s \<Rightarrow>
        if \<not> (is_decimal s \<and> length s \<le> 10) then None else if dec_val s > 0xffffffff then None else Some (dec_val s)
      | _ \<Rightarrow> None)"

definition strip_zeros :: "string \<Rightarrow> string" where
  "strip_zeros s = rev (dropWhile (\<lambda>c. c = CHR ''0'') (rev s))"

definition decimalReward :: "int \<Rightarrow> string" where
  "decimalReward v =
     (let fraction = strip_zeros (pad_zero 6 (dec_str (v mod 1000000)))
      in dec_str (v div 1000000) @ (if fraction \<noteq> [] then ''.'' @ fraction else []))"

section \<open>The service\<close>

record eligibility_service =
  es_program :: pubkey
  es_protocol :: bytes
  es_rewardMint :: pubkey

definition eligibilityService :: "pubkey \<Rightarrow> string \<Rightarrow> pubkey \<Rightarrow> eligibility_error + eligibility_service" where
  "eligibilityService program protocolID rewardMint =
     ebind (of_opt EG_invalid_config (elig_id (JStr protocolID))) (\<lambda>protocol.
     if all_zero protocol \<or> program = zeros 32 \<or> rewardMint = zeros 32 then Inl EG_invalid_config
     else Inr \<lparr>es_program = program, es_protocol = protocol, es_rewardMint = rewardMint\<rparr>)"

definition openEligibility ::
  "chain \<Rightarrow> rpc_url option \<Rightarrow> string \<Rightarrow> string \<Rightarrow> string option \<Rightarrow> string option \<Rightarrow> account_fetch \<Rightarrow>
     eligibility_error + eligibility_service" where
  "openEligibility ch url programID protocolID rewardMintID rpc_genesis fetch =
     ebind (of_opt EG_invalid_config url) (\<lambda>u.
     ebind (of_opt EG_invalid_config (ch_ofBase58 ch programID)) (\<lambda>program.
     ebind (of_opt EG_invalid_config (case rewardMintID of None \<Rightarrow> Some (ch_usdc ch) | Some m \<Rightarrow> ch_ofBase58 ch m)) (\<lambda>mint.
     let loc = url_hostname u \<in> {''localhost'', ''127.0.0.1'', ''[::1]''}
     in if \<not> loc \<and> url_protocol u \<noteq> ''https:'' \<or> loc \<and> url_protocol u \<notin> {''http:'', ''https:''} then Inl EG_invalid_target
     else ebind (eligibilityService program protocolID mint) (\<lambda>service.
     ebind (of_opt EG_rpc_unavailable rpc_genesis) (\<lambda>genesis.
     if \<not> loc \<and> genesis \<noteq> DEVNET_GENESIS then Inl EG_invalid_target
     else ebind (of_opt EG_rpc_unavailable (fetch program)) (\<lambda>account.
     if (case account of None \<Rightarrow> True | Some a \<Rightarrow> \<not> ac_executable a \<or> ac_owner a \<noteq> ch_loader ch) then Inl EG_invalid_target
     else Inr service))))))"

text \<open>The arguments of a quote: device, epoch and protocol.\<close>

definition quote_arguments ::
  "eligibility_service \<Rightarrow> jsval \<Rightarrow> jsval \<Rightarrow> jsval \<Rightarrow> (bytes \<times> int \<times> bytes) option" where
  "quote_arguments svc deviceID epochValue protocolID = do {
     device \<leftarrow> elig_id deviceID; epoch \<leftarrow> epochNumber epochValue;
     protocol \<leftarrow> (if protocolID = JUndef then Some (es_protocol svc) else elig_id protocolID);
     if all_zero protocol then None else Some (device, epoch, protocol) }"

definition quote_addresses :: "chain \<Rightarrow> eligibility_service \<Rightarrow> bytes \<Rightarrow> int \<Rightarrow> bytes \<Rightarrow> (RegistryAddresses \<times> pubkey list) option" where
  "quote_addresses ch svc device epoch protocol = do {
     a \<leftarrow> registryAddresses ch (es_program svc) protocol;
     d \<leftarrow> ra_device a device; e \<leftarrow> ra_epoch a device (JInt epoch);
     p \<leftarrow> paymentAddresses ch (es_program svc) protocol (zeros 32);
     Some (a, [ra_config a, d, e, py_settings p, ra_escrow a]) }"

definition quote_config :: "chain \<Rightarrow> eligibility_service \<Rightarrow> RegistryAddresses \<Rightarrow> bytes \<Rightarrow> AccountInfo option list \<Rightarrow> ProtocolConfig option" where
  "quote_config ch svc a protocol rows = do {
     c \<leftarrow> trusted_data (es_program svc) (row_at 0 rows); config \<leftarrow> decodeProtocol ch c;
     if pc_protocolId config \<noteq> protocol \<or> pc_epochSeconds config = 0 \<or> pc_policyVersion config = 0 \<or> pc_authority config = zeros 32 \<or>
        pc_verifier config = zeros 32 \<or> pc_escrow config \<noteq> ra_escrow a \<or> pc_rewardMint config \<noteq> es_rewardMint svc \<or>
        pc_slotsPerEpoch config > 0 \<and> pc_rewardPerSlot config = 0 then None
     else Some config }"

definition escrow_balance :: "AccountInfo option list \<Rightarrow> int" where
  "escrow_balance rows = (case row_at 4 rows of None \<Rightarrow> 0 | Some a \<Rightarrow> le_val (subarray 64 72 (ac_data a)))"

definition quote_slots ::
  "chain \<Rightarrow> eligibility_service \<Rightarrow> RegistryAddresses \<Rightarrow> bytes \<Rightarrow> bytes \<Rightarrow> AccountInfo option list \<Rightarrow> (DeviceSlots \<times> int) option" where
  "quote_slots ch svc a device protocol rows = do {
     config \<leftarrow> quote_config ch svc a protocol rows;
     let base = \<lparr>ds_registered = False, ds_protocol_id = ''0x'' @ hex_of_bytes protocol, ds_open_slots = 0, ds_reward = ''0'',
       ds_policy_version = pc_policyVersion config\<rparr>;
     if row_null 1 rows then (if \<not> row_null 2 rows then None else Some (base, pc_epochSeconds config))
     else do {
       d \<leftarrow> trusted_data (es_program svc) (row_at 1 rows); record \<leftarrow> decodeDevice ch d;
       if dr_deviceId record \<noteq> device \<or> deviceId ch (dr_key record) \<noteq> Some device \<or> all_zero (dr_key record) \<or> dr_curve record \<noteq> 1 \<or>
          dr_registeredAt record \<le> 0 then None
       else do {
         state \<leftarrow> (if row_null 2 rows then Some None
           else do { e \<leftarrow> trusted_data (es_program svc) (row_at 2 rows); map_option Some (decodeDeviceEpoch ch e) });
         if (case state of None \<Rightarrow> False | Some s \<Rightarrow> de_paidSlotsUsed s > de_independentObservers s) then None
         else do {
           s \<leftarrow> trusted_data (es_program svc) (row_at 3 rows); settings \<leftarrow> decodePaymentSettings ch s;
           if ps_mint settings \<noteq> es_rewardMint svc \<or> \<not> token_account ch (es_rewardMint svc) (ra_config a) (row_at 4 rows) then None
           else do {
             let funded = (if pc_rewardPerSlot config > 0 then escrow_balance rows div pc_rewardPerSlot config else 0);
             let left = max 0 (pc_slotsPerEpoch config - (case state of None \<Rightarrow> 0 | Some s \<Rightarrow> de_paidSlotsUsed s));
             r \<leftarrow> splitReward (pc_rewardPerSlot config) (JInt (ps_feeBps settings));
             Some (base\<lparr>ds_registered := True, ds_open_slots := (if funded < left then funded else left), ds_reward := decimalReward (rs_net r)\<rparr>,
               pc_epochSeconds config) } } } } }"

definition eligibility_quote ::
  "chain \<Rightarrow> eligibility_service \<Rightarrow> account_reader \<Rightarrow> jsval \<Rightarrow> jsval \<Rightarrow> jsval \<Rightarrow> eligibility_error + DeviceSlots \<times> int" where
  "eligibility_quote ch svc read deviceID epochValue protocolID =
     ebind (of_opt EG_invalid_input (quote_arguments svc deviceID epochValue protocolID)) (\<lambda>(device, epoch, protocol).
     ebind (of_opt EG_rpc_unavailable (do {
        (a, keys) \<leftarrow> quote_addresses ch svc device epoch protocol; rows \<leftarrow> read keys; Some (a, rows) })) (\<lambda>(a, rows).
     if length rows \<noteq> 5 then Inl EG_rpc_unavailable
     else if row_null 0 rows then Inl EG_protocol_unknown
     else of_opt EG_account_mismatch (quote_slots ch svc a device protocol rows)))"

definition eligibility_slots ::
  "chain \<Rightarrow> eligibility_service \<Rightarrow> account_reader \<Rightarrow> jsval \<Rightarrow> jsval \<Rightarrow> jsval \<Rightarrow> eligibility_error + DeviceSlots" where
  "eligibility_slots ch svc read deviceID epochValue protocolID =
     ebind (eligibility_quote ch svc read deviceID epochValue protocolID) (\<lambda>q. Inr (fst q))"

section \<open>Reward texts\<close>

text \<open>The amount in millionths a reward text denotes.\<close>

definition reward_value :: "string \<Rightarrow> int" where
  "reward_value s = dec_val (takeWhile (\<lambda>c. c \<noteq> CHR ''.'') s) * 1000000 +
     dec_val (take 6 (drop 1 (dropWhile (\<lambda>c. c \<noteq> CHR ''.'') s) @ replicate 6 CHR ''0''))"

lemma strip_zeros_pad: "\<exists>k. s = strip_zeros s @ replicate k CHR ''0''"
proof -
  have "rev s = takeWhile (\<lambda>c. c = CHR ''0'') (rev s) @ dropWhile (\<lambda>c. c = CHR ''0'') (rev s)" by simp
  moreover have "takeWhile (\<lambda>c. c = CHR ''0'') (rev s) = replicate (length (takeWhile (\<lambda>c. c = CHR ''0'') (rev s))) CHR ''0''"
    by (rule replicate_length_same [symmetric]) (auto dest: set_takeWhileD)
  ultimately have "s = rev (dropWhile (\<lambda>c. c = CHR ''0'') (rev s)) @ rev (replicate (length (takeWhile (\<lambda>c. c = CHR ''0'') (rev s))) CHR ''0'')"
    by (metis rev_append rev_rev_ident)
  then show ?thesis by (metis strip_zeros_def rev_replicate)
qed

lemma strip_zeros_restore:
  assumes "length s = 6"
  shows "take 6 (strip_zeros s @ replicate 6 CHR ''0'') = s"
proof -
  obtain k where k: "s = strip_zeros s @ replicate k CHR ''0''" using strip_zeros_pad by blast
  then have l: "length (strip_zeros s) + k = 6" using assms by (metis length_append length_replicate)
  then have "take 6 (strip_zeros s @ replicate 6 CHR ''0'') = strip_zeros s @ replicate k CHR ''0''" by (simp add: take_replicate min_def)
  with k show ?thesis by simp
qed

lemma dec_str_no_point: "0 \<le> i \<Longrightarrow> \<forall>c\<in>set (dec_str i). c \<noteq> CHR ''.''"
proof -
  assume "0 \<le> i"
  then have "\<forall>c\<in>set (dec_str i). is_digit c" using dec_str_nat_digits [of "nat i"] by (simp add: dec_str_def list_all_iff)
  moreover have "\<not> is_digit CHR ''.''" by (simp add: is_digit_def dec_digits_def)
  ultimately show ?thesis by blast
qed

lemma decimalReward_value:
  assumes "0 \<le> v"
  shows "reward_value (decimalReward v) = v"
proof -
  let ?w = "dec_str (v div 1000000)" and ?f = "pad_zero 6 (dec_str (v mod 1000000))"
  have "nat (v mod 1000000) < 10 ^ 6" by (simp add: nat_less_iff)
  from length_dec_str_nat_le [OF this] have f: "length ?f = 6" by (simp add: length_pad_zero dec_str_def)
  have v: "dec_val ?f = v mod 1000000" by (simp add: dec_val_pad)
  have np: "\<forall>c\<in>set ?w. c \<noteq> CHR ''.''" using assms by (intro dec_str_no_point) (simp add: pos_imp_zdiv_nonneg_iff)
  have w: "dec_val ?w = v div 1000000" using assms by (simp add: pos_imp_zdiv_nonneg_iff)
  show ?thesis
  proof (cases "strip_zeros ?f = []")
    case True
    with strip_zeros_restore [OF f] have "?f = replicate 6 CHR ''0''" by simp
    moreover have "takeWhile (\<lambda>c. c \<noteq> CHR ''.'') ?w = ?w" "dropWhile (\<lambda>c. c \<noteq> CHR ''.'') ?w = []" using np by auto
    moreover have "decimalReward v = ?w" using True by (simp add: decimalReward_def)
    ultimately have "reward_value (decimalReward v) = dec_val ?w * 1000000 + dec_val ?f" by (simp only: reward_value_def) simp
    with v w show ?thesis by simp
  next
    case False
    then have "takeWhile (\<lambda>c. c \<noteq> CHR ''.'') (decimalReward v) = ?w" "dropWhile (\<lambda>c. c \<noteq> CHR ''.'') (decimalReward v) = CHR ''.'' # strip_zeros ?f"
      using np by (simp_all add: decimalReward_def takeWhile_append dropWhile_append)
    then show ?thesis using strip_zeros_restore [OF f] v w by (simp add: reward_value_def)
  qed
qed

section \<open>Properties\<close>

lemma quote_arguments_lengths:
  "quote_arguments svc d e p = Some (device, epoch, protocol) \<Longrightarrow> length (es_protocol svc) = 32 \<Longrightarrow>
     length device = 32 \<and> length protocol = 32 \<and> 0 \<le> epoch \<and> epoch \<le> 0xffffffff"
proof -
  have "length b = 32" if "elig_id v = Some b" for v b
    using that hex_of_bytes_of_hex [of 32] by (auto simp: elig_id_def node_hex_def Let_def split: jsval.splits if_splits)
  moreover have "0 \<le> n \<and> n \<le> 0xffffffff" if "epochNumber v = Some n" for v n
    using that by (auto simp: epochNumber_def dec_val_def split: jsval.splits if_splits)
  moreover assume "quote_arguments svc d e p = Some (device, epoch, protocol)" "length (es_protocol svc) = 32"
  ultimately show ?thesis by (auto simp: quote_arguments_def bind_eq_Some_conv split: if_splits)
qed

lemma quote_addresses_Some:
  "length device = 32 \<Longrightarrow> length protocol = 32 \<Longrightarrow> 0 \<le> epoch \<Longrightarrow> epoch \<le> 0xffffffff \<Longrightarrow>
     \<exists>a keys. quote_addresses ch svc device epoch protocol = Some (a, keys)"
  by (simp add: quote_addresses_def registryAddresses_def paymentAddresses_def u32_def)

lemma eligibilityService_protocol: "eligibilityService program protocolID mint = Inr svc \<Longrightarrow> length (es_protocol svc) = 32"
  using hex_of_bytes_of_hex [of 32]
  by (auto simp: eligibilityService_def elig_id_def node_hex_def Let_def ebind_eq_Inr split: if_splits)

lemma decodeDeviceEpoch_paid: "decodeDeviceEpoch ch d = Some s \<Longrightarrow> 0 \<le> de_paidSlotsUsed s"
  by (auto simp: decodeDeviceEpoch_def reader_finish_def rd_le_def bind_eq_Some_conv Let_def split: if_splits)

lemma splitReward_net: "splitReward gross bps = Some r \<Longrightarrow> 0 \<le> rs_net r"
proof -
  assume r: "splitReward gross bps = Some r"
  then have g: "0 \<le> gross" "jint bps \<le> 10000" "rs_net r = gross - gross * jint bps div 10000"
    by (cases bps; auto simp: splitReward_def Let_def split: if_splits)+
  have "gross * jint bps div 10000 \<le> gross * 10000 div 10000" using g by (intro zdiv_mono1 mult_left_mono) auto
  with g show ?thesis by simp
qed


text \<open>C29. A quote never promises more than the chain can pay: a registered device has at most the slots of the epoch
  that are not yet paid, the escrow holds the full reward of every open slot, and the reward shown denotes exactly
  what is left of a slot's reward after the fee; a device without account has no open slot.\<close>

theorem quote_funded:
  assumes "eligibility_quote ch svc read deviceID epochValue protocolID = Inr (q, seconds)"
  shows "\<exists>device epoch protocol a keys rows config. quote_arguments svc deviceID epochValue protocolID = Some (device, epoch, protocol) \<and>
    quote_addresses ch svc device epoch protocol = Some (a, keys) \<and> read keys = Some rows \<and>
    quote_config ch svc a protocol rows = Some config \<and> seconds = pc_epochSeconds config \<and> seconds > 0 \<and>
    0 \<le> ds_open_slots q \<and> ds_open_slots q \<le> pc_slotsPerEpoch config \<and>
    ds_open_slots q * pc_rewardPerSlot config \<le> escrow_balance rows \<and>
    (ds_registered q \<longleftrightarrow> \<not> row_null 1 rows) \<and> (\<not> ds_registered q \<longrightarrow> ds_open_slots q = 0 \<and> ds_reward q = ''0'') \<and>
    (ds_registered q \<longrightarrow> (\<exists>settings r. Option.bind (trusted_data (es_program svc) (row_at 3 rows)) (decodePaymentSettings ch) = Some settings \<and>
       splitReward (pc_rewardPerSlot config) (JInt (ps_feeBps settings)) = Some r \<and> reward_value (ds_reward q) = rs_net r \<and>
       (\<forall>s. Option.bind (trusted_data (es_program svc) (row_at 2 rows)) (decodeDeviceEpoch ch) = Some s \<longrightarrow>
          ds_open_slots q \<le> max 0 (pc_slotsPerEpoch config - de_paidSlotsUsed s))))"
proof -
  obtain device epoch protocol a keys rows where q: "quote_arguments svc deviceID epochValue protocolID = Some (device, epoch, protocol)"
    "quote_addresses ch svc device epoch protocol = Some (a, keys)" "read keys = Some rows" "quote_slots ch svc a device protocol rows = Some (q, seconds)"
    using assms by (auto simp: eligibility_quote_def ebind_eq_Inr bind_eq_Some_conv split: if_splits)
  obtain config where c: "quote_config ch svc a protocol rows = Some config" using q(4) by (auto simp: quote_slots_def bind_eq_Some_conv)
  have ok: "protocol_ok config" "pc_epochSeconds config \<noteq> 0" using c decodeProtocol_ok by (auto simp: quote_config_def bind_eq_Some_conv split: if_splits)
  then have p: "0 < pc_epochSeconds config" "0 \<le> pc_slotsPerEpoch config" "0 \<le> pc_rewardPerSlot config" by (auto simp: protocol_ok_def)
  have bal: "0 \<le> escrow_balance rows" by (simp add: escrow_balance_def split: option.splits)
  show ?thesis
  proof (cases "row_null 1 rows")
    case True
    with q(4) c have "q = \<lparr>ds_registered = False, ds_protocol_id = ''0x'' @ hex_of_bytes protocol, ds_open_slots = 0, ds_reward = ''0'',
       ds_policy_version = pc_policyVersion config\<rparr>" "seconds = pc_epochSeconds config"
      by (auto simp: quote_slots_def split: if_splits)
    with q c p bal True show ?thesis by auto
  next
    case False
    obtain state settings r where s: "(if row_null 2 rows then state = None
        else Option.bind (trusted_data (es_program svc) (row_at 2 rows)) (decodeDeviceEpoch ch) = state)"
      "Option.bind (trusted_data (es_program svc) (row_at 3 rows)) (decodePaymentSettings ch) = Some settings"
      "splitReward (pc_rewardPerSlot config) (JInt (ps_feeBps settings)) = Some r" "seconds = pc_epochSeconds config" "ds_registered q"
      "ds_reward q = decimalReward (rs_net r)" "ds_open_slots q = (let funded = (if pc_rewardPerSlot config > 0 then escrow_balance rows div pc_rewardPerSlot config else 0);
         left = max 0 (pc_slotsPerEpoch config - (case state of None \<Rightarrow> 0 | Some s \<Rightarrow> de_paidSlotsUsed s)) in if funded < left then funded else left)"
      using q(4) c False unfolding quote_slots_def Let_def
      by (auto simp: bind_eq_Some_conv simp del: trusted_data_Some split: if_splits)
    let ?open = "ds_open_slots q" and ?paid = "case state of None \<Rightarrow> 0 | Some s \<Rightarrow> de_paidSlotsUsed s"
    have paid: "0 \<le> ?paid" using s(1) decodeDeviceEpoch_paid by (auto simp: bind_eq_Some_conv split: option.splits if_splits)
    have o: "0 \<le> ?open" "?open \<le> max 0 (pc_slotsPerEpoch config - ?paid)" "?open * pc_rewardPerSlot config \<le> escrow_balance rows"
    proof -
      let ?funded = "if pc_rewardPerSlot config > 0 then escrow_balance rows div pc_rewardPerSlot config else 0"
      have f: "0 \<le> ?funded" "?funded * pc_rewardPerSlot config \<le> escrow_balance rows"
        using bal minus_mod_eq_div_mult [of "escrow_balance rows" "pc_rewardPerSlot config"]
        by (auto simp: pos_imp_zdiv_nonneg_iff simp flip: minus_mod_eq_div_mult)
      show "0 \<le> ?open" "?open \<le> max 0 (pc_slotsPerEpoch config - ?paid)" using f(1) by (auto simp: s(7) Let_def)
      have "?open \<le> ?funded" by (auto simp: s(7) Let_def)
      then have "?open * pc_rewardPerSlot config \<le> ?funded * pc_rewardPerSlot config" using p(3) by (intro mult_right_mono)
      with f(2) show "?open * pc_rewardPerSlot config \<le> escrow_balance rows" by linarith
    qed
    have "?open \<le> pc_slotsPerEpoch config" using o(2) paid p(2) by linarith
    moreover have "?open \<le> max 0 (pc_slotsPerEpoch config - de_paidSlotsUsed x)"
      if "Option.bind (trusted_data (es_program svc) (row_at 2 rows)) (decodeDeviceEpoch ch) = Some x" for x
    proof -
      have "\<not> row_null 2 rows" using that by (auto simp: row_null_def row_at_def bind_eq_Some_conv)
      with s(1) that o(2) show ?thesis by auto
    qed
    moreover have "reward_value (ds_reward q) = rs_net r" using decimalReward_value splitReward_net [OF s(3)] s(6) by simp
    ultimately show ?thesis using q(1-3) c p(1) s(2-5) o(1,3) False
      by (intro exI [of _ device] exI [of _ epoch] exI [of _ protocol] exI [of _ a] exI [of _ keys] exI [of _ rows] exI [of _ config] conjI)
        (assumption | simp)+
  qed
qed

section \<open>Concrete accounts\<close>

definition demo_eligibility :: eligibility_service where
  "demo_eligibility = \<lparr>es_program = replicate 32 3, es_protocol = replicate 32 1, es_rewardMint = ch_usdc sample_chain\<rparr>"

text \<open>The hash of this chain maps every key to the device with the zero identifier.\<close>

definition eligibility_rows :: "AccountInfo option list" where
  "eligibility_rows = [program_account ''ProtocolConfig'' (protocol_bytes demo_config),
     program_account ''DeviceRegistry'' (zeros 32 @ replicate 32 3 @ [1, 0, 0] @ le_num 8 9 @ le_num 4 2 @ zeros 39), None,
     program_account ''PaymentSettings'' (replicate 32 4 @ ch_usdc sample_chain @ replicate 32 5 @ le_num 2 2000),
     Some \<lparr>ac_owner = ch_token sample_chain, ac_executable = False,
       ac_data = ch_usdc sample_chain @ take 32 (bytes_of_string ''protocol'' @ replicate 32 1) @ le_num 8 12 @ zeros 36 @ [1] @ zeros 56\<rparr>]"

lemma demo_quote:
  "eligibility_quote (lib_chain demo_lib) demo_eligibility (\<lambda>_. Some eligibility_rows) (JStr (hex_of_bytes (zeros 32))) (JStr ''5'') JUndef =
     Inr (\<lparr>ds_registered = True, ds_protocol_id = ''0x'' @ hex_of_bytes (replicate 32 1), ds_open_slots = 2, ds_reward = ''0.000004'',
       ds_policy_version = 7\<rparr>, 60)"
  by code_simp

theorem quote_funded_witness: "\<exists>config. pc_rewardPerSlot config * 2 \<le> escrow_balance eligibility_rows \<and>
   (\<exists>a. quote_config (lib_chain demo_lib) demo_eligibility a (replicate 32 1) eligibility_rows = Some config)"
proof -
  have "quote_arguments demo_eligibility (JStr (hex_of_bytes (zeros 32))) (JStr ''5'') JUndef = Some (zeros 32, 5, replicate 32 1)" by code_simp
  with quote_funded [OF demo_quote] show ?thesis by (auto simp: mult.commute)
qed


end
