(* ===== verification/Confidence_Store.thy ===== *)
theory Confidence_Store
  imports Confidence
begin

text \<open>
  The encrypted confidence inputs of \<^verbatim>\<open>confidence-store.ts\<close>: sealing for a recipient and opening again.  The
  key objects, X25519, HKDF and AES-GCM of node's crypto module are a parameter record; the fresh key pair and nonce
  are arguments.  A \<^verbatim>\<open>throw\<close> is \<open>None\<close>.
\<close>

record 'k sealing =
  sl_type :: "'k \<Rightarrow> string"
  sl_private :: "'k \<Rightarrow> bool"
  sl_public :: "'k \<Rightarrow> 'k"
  sl_export :: "'k \<Rightarrow> bytes"
  sl_import :: "bytes \<Rightarrow> 'k option"
  sl_dh :: "'k \<Rightarrow> 'k \<Rightarrow> bytes option"
  sl_hkdf :: "bytes \<Rightarrow> bytes \<Rightarrow> bytes \<Rightarrow> bytes"
  sl_encrypt :: "bytes \<Rightarrow> bytes \<Rightarrow> bytes \<Rightarrow> bytes \<Rightarrow> bytes \<times> bytes"
  sl_decrypt :: "bytes \<Rightarrow> bytes \<Rightarrow> bytes \<Rightarrow> bytes \<Rightarrow> bytes \<Rightarrow> bytes option"

definition publicBytes :: "'k sealing \<Rightarrow> 'k \<Rightarrow> bytes option" where
  "publicBytes sl key =
     (if sl_type sl key \<noteq> ''x25519'' then None else Some (sl_export sl (if sl_private sl key then sl_public sl key else key)))"

definition sharedKey :: "'k sealing \<Rightarrow> 'k \<Rightarrow> 'k \<Rightarrow> bytes \<Rightarrow> bytes option" where
  "sharedKey sl privateKey publicKey aad =
     map_option (\<lambda>secret. sl_hkdf sl secret aad (bytes_of_string ''Pathnod/confidence-encryption/v0'')) (sl_dh sl privateKey publicKey)"

text \<open>\<^verbatim>\<open>JSON.stringify(input)\<close>: an undefined evidence is left out.  Counts that are no safe integers are outside the
  printer's model and refused here.\<close>

definition input_json :: "ConfidenceInput \<Rightarrow> json option" where
  "input_json i = do {
     count \<leftarrow> (case ci_reenrollmentCount i of None \<Rightarrow> Some JsonNull
       | Some n \<Rightarrow> if int_in n (- (2 ^ 53 - 1)) (2 ^ 53 - 1) then Some (JsonInt (jint n)) else None);
     Some (JsonObj ([(''transcript'', JsonStr (ci_transcript i))] @
       (case ci_evidence i of None \<Rightarrow> [] | Some e \<Rightarrow> [(''evidence'', JsonStr e)]) @ [(''reenrollmentCount'', count)])) }"

definition seal_aad :: "string \<Rightarrow> string \<Rightarrow> bytes" where
  "seal_aad target h = bytes_of_string (target @ ''/'' @ h)"

definition sealConfidenceInput ::
  "'k sealing \<Rightarrow> 'k \<Rightarrow> bytes \<Rightarrow> 'k \<Rightarrow> string \<Rightarrow> string \<Rightarrow> ConfidenceInput \<Rightarrow> string option" where
  "sealConfidenceInput sl ephemeral iv recipient target h input = do {
     _ \<leftarrow> publicBytes sl recipient;
     key \<leftarrow> sharedKey sl ephemeral recipient (seal_aad target h);
     plain \<leftarrow> input_json input;
     let (ciphertext, tag) = sl_encrypt sl key iv (seal_aad target h) (bytes_of_string (stringify plain));
     e \<leftarrow> publicBytes sl (sl_public sl ephemeral);
     Some (stringify (JsonObj [(''version'', JsonInt 1), (''ephemeral'', JsonStr (b64_enc e)), (''iv'', JsonStr (b64_enc iv)),
       (''ciphertext'', JsonStr (b64_enc ciphertext)), (''tag'', JsonStr (b64_enc tag))])) }"

text \<open>\<^verbatim>\<open>Buffer.from(value, "base64")\<close> on the text fields of a sealed value.\<close>

definition text_field :: "jsval \<Rightarrow> string \<Rightarrow> bytes option" where
  "text_field v k = (case js_get v k of JStr s \<Rightarrow> Some (node_b64 s) | _ \<Rightarrow> None)"

definition openConfidenceInput :: "'k sealing \<Rightarrow> 'k \<Rightarrow> string \<Rightarrow> string \<Rightarrow> string \<Rightarrow> jsval option" where
  "openConfidenceInput sl recipient target h sealed =
     (if length sealed > 200000 \<or> \<not> sl_private sl recipient then None
      else do {
        _ \<leftarrow> publicBytes sl recipient;
        v \<leftarrow> json_parse sealed;
        if js_get v ''version'' \<noteq> JNum (JInt 1) then None
        else do {
          e \<leftarrow> text_field v ''ephemeral''; ephemeral \<leftarrow> sl_import sl e; _ \<leftarrow> publicBytes sl ephemeral;
          iv \<leftarrow> text_field v ''iv''; tag \<leftarrow> text_field v ''tag'';
          if length iv \<noteq> 12 \<or> length tag \<noteq> 16 then None
          else do {
            key \<leftarrow> sharedKey sl recipient ephemeral (seal_aad target h);
            ciphertext \<leftarrow> text_field v ''ciphertext'';
            plain \<leftarrow> sl_decrypt sl key iv (seal_aad target h) tag ciphertext;
            json_parse (string_of_bytes plain) } } })"

section \<open>Properties\<close>

lemma input_json_parse:
  assumes "input_json i = Some j"
  shows "json_parse (stringify j) = Some (input_value i)"
proof -
  have "json_ok j \<and> js_of_json j = input_value i"
    using assms by (auto simp: input_json_def input_value_def bind_eq_Some_conv index_key_def is_decimal_def is_digit_def dec_digits_def
        split: option.splits if_splits jsnum.splits)
  with json_parse_stringify show ?thesis by metis
qed

text \<open>C39. A sealed input opens again: whatever is sealed for a recipient under a target and a transcript hash is opened by
  the recipient's private key under the same target and hash to the same input, when the sealed text is within
  the size limit.  The laws of the cryptographic library are the hypotheses: an exported public key imports again,
  both sides of the exchange agree, and decryption undoes encryption.\<close>

theorem seal_open:
  assumes "sealConfidenceInput sl ephemeral iv (sl_public sl recipient) target h input = Some sealed" and "length sealed \<le> 200000"
    and "sl_private sl recipient" and "sl_type sl recipient = ''x25519''" and "length iv = 12"
    and "\<And>k. sl_import sl (sl_export sl (sl_public sl k)) = Some (sl_public sl k)"
    and "\<And>k. \<not> sl_private sl (sl_public sl k)" and "\<And>a b. sl_dh sl a (sl_public sl b) = sl_dh sl b (sl_public sl a)"
    and "\<And>k n a m c t. sl_encrypt sl k n a m = (c, t) \<Longrightarrow> length t = 16 \<and> sl_decrypt sl k n a t c = Some m"
  shows "openConfidenceInput sl recipient target h sealed = Some (input_value input)"
proof -
  obtain key j e where k: "sharedKey sl ephemeral (sl_public sl recipient) (seal_aad target h) = Some key" "input_json input = Some j"
    "publicBytes sl (sl_public sl ephemeral) = Some e"
    using assms(1) by (auto simp: sealConfidenceInput_def bind_eq_Some_conv case_prod_beta)
  obtain c t where s: "sl_encrypt sl key iv (seal_aad target h) (bytes_of_string (stringify j)) = (c, t)" by fastforce
  have sealed: "sealed = stringify (JsonObj [(''version'', JsonInt 1), (''ephemeral'', JsonStr (b64_enc e)), (''iv'', JsonStr (b64_enc iv)),
       (''ciphertext'', JsonStr (b64_enc c)), (''tag'', JsonStr (b64_enc t))])"
    using assms(1) k s by (auto simp: sealConfidenceInput_def bind_eq_Some_conv simp del: stringify.simps)
  let ?v = "JObj [(''version'', JNum (JInt 1)), (''ephemeral'', JStr (b64_enc e)), (''iv'', JStr (b64_enc iv)),
       (''ciphertext'', JStr (b64_enc c)), (''tag'', JStr (b64_enc t))]"
  have v: "json_parse sealed = Some ?v" unfolding sealed
    by (subst json_parse_stringify) (simp_all add: index_key_def is_decimal_def is_digit_def dec_digits_def)
  have f: "text_field ?v ''ephemeral'' = Some e" "text_field ?v ''iv'' = Some iv" "text_field ?v ''ciphertext'' = Some c"
    "text_field ?v ''tag'' = Some t" "js_get ?v ''version'' = JNum (JInt 1)" by (simp_all add: text_field_def)
  have e: "e = sl_export sl (sl_public sl ephemeral)" "publicBytes sl (sl_public sl ephemeral) \<noteq> None"
    using k(3) assms(7) by (auto simp: publicBytes_def split: if_splits)
  have "sharedKey sl recipient (sl_public sl ephemeral) (seal_aad target h) = Some key"
    using k(1) assms(8) by (simp add: sharedKey_def)
  moreover have "length t = 16" "sl_decrypt sl key iv (seal_aad target h) t c = Some (bytes_of_string (stringify j))" using assms(9) [OF s] by auto
  moreover have "publicBytes sl recipient \<noteq> None" using assms(4) by (simp add: publicBytes_def)
  ultimately show ?thesis
    using assms(2,3,5,6) v f e k(3) input_json_parse [OF k(2)] by (auto simp: openConfidenceInput_def)
qed

text \<open>A toy library: keys are their bytes with a private flag, the shared secret is the same for everyone, the cipher
  the identity.\<close>

definition toy_sealing :: "(bool \<times> bytes) sealing" where
  "toy_sealing = \<lparr>sl_type = (\<lambda>_. ''x25519''), sl_private = fst, sl_public = (\<lambda>k. (False, snd k)), sl_export = snd,
     sl_import = (\<lambda>b. Some (False, b)), sl_dh = (\<lambda>_ _. Some []), sl_hkdf = (\<lambda>_ _ _. []), sl_encrypt = (\<lambda>_ _ _ m. (m, zeros 16)),
     sl_decrypt = (\<lambda>_ _ _ _ c. Some c)\<rparr>"

definition toy_input :: ConfidenceInput where
  "toy_input = \<lparr>ci_transcript = ''AA=='', ci_evidence = None, ci_reenrollmentCount = None\<rparr>"

lemma toy_sealed: "map_option length (sealConfidenceInput toy_sealing (True, [1]) (zeros 12) (False, [2]) ''t'' ''h'' toy_input) = Some 169"
  by code_simp

theorem seal_open_witness:
  "\<exists>sealed. sealConfidenceInput toy_sealing (True, [1]) (zeros 12) (False, [2]) ''t'' ''h'' toy_input = Some sealed \<and>
     openConfidenceInput toy_sealing (True, [2]) ''t'' ''h'' sealed = Some (input_value toy_input)"
proof -
  obtain sealed where s: "sealConfidenceInput toy_sealing (True, [1]) (zeros 12) (sl_public toy_sealing (True, [2])) ''t'' ''h'' toy_input = Some sealed"
    "length sealed \<le> 200000"
    using toy_sealed by (cases "sealConfidenceInput toy_sealing (True, [1]) (zeros 12) (False, [2]) ''t'' ''h'' toy_input") (auto simp: toy_sealing_def)
  from seal_open [OF s] have "openConfidenceInput toy_sealing (True, [2]) ''t'' ''h'' sealed = Some (input_value toy_input)"
    by (auto simp: toy_sealing_def)
  with s(1) show ?thesis by (auto simp: toy_sealing_def)
qed

end
