(* ===== verification/Confidence_Chain.thy ===== *)
theory Confidence_Chain
  imports Chain_State
begin

text \<open>
  Confidence from the chain (\<^verbatim>\<open>confidence-chain.ts\<close>) and the account snapshot of the Gate 2 check
  (\<^verbatim>\<open>gate2-evidence.ts\<close>).  The program accounts and the registry accounts of two RPC calls are arguments.
  The theory composes the account decoders, the transcript decoder, the device signatures and the score: a report
  is computed from exactly the observations on the chain.
\<close>

section \<open>Commitments\<close>

definition transcript_bound ::
  "chain \<Rightarrow> pubkey \<Rightarrow> pubkey \<Rightarrow> ObservationCommitment \<Rightarrow> ConfidenceInput \<Rightarrow> DeviceRegistry \<Rightarrow> ObservationTranscript \<Rightarrow> bool" where
  "transcript_bound ch program address r input device t =
     (map_option oa_commitment (observationAddresses ch program (ot_protocolID t) (ot_deviceID t) (ot_epoch t) (ot_nullifier t)) = Some address \<and>
      oc_protocolID r = ot_protocolID t \<and> oc_deviceID r = ot_deviceID t \<and> JInt (oc_epoch r) = ot_epoch t \<and> oc_nullifier r = ot_nullifier t \<and>
      oc_pseudonym r = ot_pseudonym t \<and> JInt (oc_observerClass r) = ot_observerClass t \<and>
      observationTranscriptHash (ch_sha256 ch) t = Some (oc_transcriptHash r) \<and> oc_evidenceHash r = ot_evidenceHash t \<and>
      dr_deviceId device = ot_deviceID t \<and> dr_key device = ot_publicKey t \<and> JInt (dr_curve device) = ot_curve t \<and> ot_curve t = JInt 1 \<and>
      observationEvidenceHash (ch_sha256 ch) (map_option node_b64 (ci_evidence input)) = ot_evidenceHash t \<and>
      ch_sha256 ch (bytes_of_string ''Pathnod/device/v0'' @ ot_publicKey t) = ot_deviceID t)"

text \<open>Whether the function returns.\<close>

definition validateConfidenceCommitment ::
  "chain \<Rightarrow> ed25519 \<Rightarrow> pubkey \<Rightarrow> pubkey \<Rightarrow> AccountInfo \<Rightarrow> ConfidenceInput \<Rightarrow> DeviceRegistry \<Rightarrow> bool" where
  "validateConfidenceCommitment ch ed program address account input device =
     (if ac_executable account \<or> ac_owner account \<noteq> program then False
      else case decodeObservationCommitment ch (ac_data account) of None \<Rightarrow> False
        | Some r \<Rightarrow> (case decodeObservationTranscript (node_b64 (ci_transcript input)) (JInt 5) of None \<Rightarrow> False
          | Some t \<Rightarrow> transcript_bound ch program address r input device t \<and>
              list_all (\<lambda>c. ed_verify ed (ot_publicKey t) (deviceChallengeDigest (ch_sha256 ch) t c) (tc_signature c)) (ot_challenges t)))"

section \<open>The snapshot\<close>

text \<open>\<^verbatim>\<open>[...new Set(values)]\<close>: the values in the order of their first occurrence.\<close>

definition unique :: "'a list \<Rightarrow> 'a list" where
  "unique xs = rev (remdups (rev xs))"

definition right_of :: "'e + 'a \<Rightarrow> 'a option" where
  "right_of m = (case m of Inl _ \<Rightarrow> None | Inr x \<Rightarrow> Some x)"

lemma right_of_Some [simp]: "right_of m = Some x \<longleftrightarrow> m = Inr x"
  by (simp add: right_of_def split: sum.splits)

record ConfidenceSnapshot =
  cn_report :: ConfidenceReport
  cn_commitment :: string
  cn_config :: ProtocolConfig
  cn_deviceEpoch :: DeviceEpoch
  cn_addresses :: ObservationAddresses

definition decode_commitments ::
  "chain \<Rightarrow> (pubkey \<times> AccountInfo) list \<Rightarrow> (pubkey \<times> AccountInfo \<times> ObservationCommitment) list option" where
  "decode_commitments ch rows =
     those (map (\<lambda>(address, account). map_option (\<lambda>r. (address, account, r)) (decodeObservationCommitment ch (ac_data account))) rows)"

fun collect_history ::
  "chain \<Rightarrow> ed25519 \<Rightarrow> pubkey \<Rightarrow> bytes \<Rightarrow> (string \<rightharpoonup> ConfidenceInput) \<Rightarrow> (string \<rightharpoonup> DeviceRegistry) \<Rightarrow>
     (pubkey \<times> AccountInfo \<times> ObservationCommitment) list \<Rightarrow> ConfidenceInput list option" where
  "collect_history ch ed program protocol inputs registered [] = Some []"
| "collect_history ch ed program protocol inputs registered ((address, account, r) # rest) =
     (if oc_protocolID r \<noteq> protocol then None
      else do {
        input \<leftarrow> inputs (hex_of_bytes (oc_transcriptHash r));
        device \<leftarrow> registered (hex_of_bytes (oc_deviceID r));
        if \<not> validateConfidenceCommitment ch ed program address account input device then None
        else do {
          history \<leftarrow> collect_history ch ed program protocol inputs registered rest;
          Some (input # history) } })"

definition target_commitments ::
  "bytes \<Rightarrow> jsnum \<Rightarrow> (pubkey \<times> AccountInfo \<times> ObservationCommitment) list \<Rightarrow> ObservationCommitment list" where
  "target_commitments deviceID epoch commitments =
     filter (\<lambda>r. oc_deviceID r = deviceID \<and> JInt (oc_epoch r) = epoch) (map (snd \<circ> snd) commitments)"

definition native_order :: "ObservationCommitment list \<Rightarrow> string list" where
  "native_order target = map (\<lambda>r. hex_of_bytes (oc_transcriptHash r)) (sort_key oc_submittedAt target)"

definition readConfidenceSnapshot ::
  "chain \<Rightarrow> ed25519 \<Rightarrow> (pubkey \<times> AccountInfo) list option \<Rightarrow> account_reader \<Rightarrow> pubkey \<Rightarrow> bytes \<Rightarrow> bytes \<Rightarrow> jsnum \<Rightarrow>
     (string \<rightharpoonup> ConfidenceInput) \<Rightarrow> string list option \<Rightarrow> jsnum \<Rightarrow> ConfidenceSnapshot option" where
  "readConfidenceSnapshot ch ed programAccounts read program protocol deviceID epoch inputs order evaluationTime = do {
     every \<leftarrow> programAccounts;
     if length every > 10000 then None
     else do {
       commitments \<leftarrow> decode_commitments ch every;
       let devices = unique (map (\<lambda>(_, _, r). hex_of_bytes (oc_deviceID r)) commitments);
       if hex_of_bytes deviceID \<notin> set devices then None
       else do {
         a \<leftarrow> observationAddresses ch program protocol deviceID epoch (zeros 32);
         deviceKeys \<leftarrow> those (map (\<lambda>id. ra_device a (bytes_of_hex id)) devices);
         let keys = [ra_config a, oa_deviceEpoch a] @ deviceKeys;
         if length keys > 100 then None
         else do {
           rows \<leftarrow> read keys;
           c \<leftarrow> trusted_data program (row_at 0 rows); config \<leftarrow> decodeProtocol ch c;
           e \<leftarrow> trusted_data program (row_at 1 rows); deviceEpoch \<leftarrow> decodeDeviceEpoch ch e;
           if pc_protocolId config \<noteq> protocol \<or> length e \<noteq> 587 then None
           else do {
             records \<leftarrow> those (map (\<lambda>i. Option.bind (trusted_data program (row_at (i + 2) rows)) (decodeDevice ch)) [0..<length devices]);
             let registered = map_of (zip devices records);
             history \<leftarrow> collect_history ch ed program protocol inputs registered commitments;
             let target = target_commitments deviceID epoch commitments;
             if int (length target) \<noteq> de_independentObservers deviceEpoch then None
             else do {
               let transcriptOrder = (case order of Some given \<Rightarrow> given | None \<Rightarrow> native_order target);
               device \<leftarrow> registered (hex_of_bytes deviceID);
               report \<leftarrow> right_of (computeConfidence (ch_sha256 ch) (\<lambda>k. ch_ofBase58 ch k \<noteq> None)
                   \<lparr>cs_program = ch_toBase58 ch program, cs_protocolID = hex_of_bytes protocol, cs_deviceID = hex_of_bytes deviceID,
                    cs_epoch = epoch, cs_policyVersion = JInt (pc_policyVersion config), cs_epochSeconds = JInt (pc_epochSeconds config),
                    cs_evaluatedAtMilliseconds = evaluationTime, cs_observationRoot = hex_of_bytes (de_observationRoot deviceEpoch),
                    cs_transcriptOrder = transcriptOrder, cs_claimedGeohash6 = dr_claimedGeohash device\<rparr> history);
               commitment \<leftarrow> confidenceCommitment (ch_sha256 ch) (report_value report);
               Some \<lparr>cn_report = report, cn_commitment = commitment, cn_config = config, cn_deviceEpoch = deviceEpoch, cn_addresses = a\<rparr> } } } } } }"

section \<open>Gate 2\<close>

definition gate2_token :: "chain \<Rightarrow> pubkey \<Rightarrow> AccountInfo option \<Rightarrow> string option" where
  "gate2_token ch authority row =
     (if token_account ch (ch_usdc ch) authority row then map_option (\<lambda>a. dec_str (le_val (subarray 64 72 (ac_data a)))) row else None)"

definition gate2_matches :: "ObservationCommitment \<Rightarrow> ObservationRelayPayload \<Rightarrow> bytes \<Rightarrow> bytes \<Rightarrow> bool" where
  "gate2_matches r p protocol device =
     (oc_protocolID r = protocol \<and> oc_deviceID r = device \<and> JInt (oc_epoch r) = rp_epoch p \<and>
      hex_of_bytes (oc_transcriptHash r) = au_transcriptHash (rp_auth p) \<and> Some (hex_of_bytes (oc_evidenceHash r)) = au_evidenceHash (rp_auth p) \<and>
      hex_of_bytes (oc_nullifier r) = au_nullifier (rp_auth p) \<and> hex_of_bytes (oc_pseudonym r) = au_pseudonym (rp_auth p) \<and>
      oc_observerClass r = 1 \<and> au_observerClass (rp_auth p) = JInt 1)"

definition gate2Snapshot :: "chain \<Rightarrow> account_reader \<Rightarrow> pubkey \<Rightarrow> ObservationRelayPayload \<Rightarrow> Gate2Snapshot option" where
  "gate2Snapshot ch read program p = do {
     let protocol = node_hex (rp_protocolID p);
     let device = node_hex (rp_deviceID p);
     a \<leftarrow> observationAddresses ch program protocol device (rp_epoch p) (node_hex (au_nullifier (rp_auth p)));
     y \<leftarrow> paymentAddresses ch program protocol (node_hex (au_pseudonym (rp_auth p)));
     rows \<leftarrow> read [ra_config a, oa_commitment a, oa_deviceEpoch a, py_payout y, ra_escrow a, py_feeVault y, py_vault y, py_settings y];
     if length rows \<noteq> 8 then None
     else do {
       c \<leftarrow> trusted_data program (row_at 0 rows); config \<leftarrow> decodeProtocol ch c;
       s \<leftarrow> trusted_data program (row_at 7 rows); settings \<leftarrow> decodePaymentSettings ch s;
       if ps_mint settings \<noteq> ch_usdc ch \<or> ps_feeBps settings \<noteq> 2000 then None
       else if pc_protocolId config \<noteq> protocol \<or> pc_rewardMint config \<noteq> ch_usdc ch \<or> pc_escrow config \<noteq> ra_escrow a then None
       else do {
         d \<leftarrow> trusted_data program (row_at 1 rows); r \<leftarrow> decodeObservationCommitment ch d;
         if \<not> gate2_matches r p protocol device then None
         else do {
           e \<leftarrow> trusted_data program (row_at 2 rows); epoch \<leftarrow> decodeDeviceEpoch ch e;
           q \<leftarrow> trusted_data program (row_at 3 rows); payout \<leftarrow> decodePayout ch q;
           if po_protocol payout \<noteq> protocol \<or> hex_of_bytes (po_pseudonym payout) \<noteq> au_pseudonym (rp_auth p) \<or> po_mint payout \<noteq> ch_usdc ch then None
           else if de_independentObservers epoch \<noteq> 1 \<or> de_paidSlotsUsed epoch \<noteq> 1 \<or> \<not> oc_slotPaid r then None
           else do {
             tree \<leftarrow> appendObservationTree (ch_sha256 ch) (replicate 16 (zeros 32)) (JInt 0) (oc_transcriptHash r);
             if de_observationRoot epoch \<noteq> tr_root tree then None
             else do {
               escrow \<leftarrow> gate2_token ch (ra_config a) (row_at 4 rows); feeVault \<leftarrow> gate2_token ch (ps_treasury settings) (row_at 5 rows);
               payoutVault \<leftarrow> gate2_token ch (py_payout y) (row_at 6 rows);
               Some \<lparr>gs_commitment = ch_toBase58 ch (oa_commitment a), gs_independentObservers = de_independentObservers epoch,
                 gs_paidSlotsUsed = de_paidSlotsUsed epoch, gs_observationRoot = hex_of_bytes (de_observationRoot epoch),
                 gs_slotPaid = oc_slotPaid r, gs_gross = dec_str (po_gross payout), gs_fees = dec_str (po_fees payout),
                 gs_available = dec_str (po_available payout), gs_withdrawn = dec_str (po_withdrawn payout), gs_payoutNonce = dec_str (po_nonce payout),
                 gs_escrow = escrow, gs_feeVault = feeVault, gs_payoutVault = payoutVault\<rparr> } } } } } }"

section \<open>The observations on the chain\<close>

lemma strictBase64_node: "strictBase64 s = Some b \<Longrightarrow> node_b64 s = b"
  by (auto simp: strictBase64_def Let_def node_b64_pattern split: if_splits)

lemma those_map_all2: "those (map f xs) = Some ys \<longleftrightarrow> list_all2 (\<lambda>x y. f x = Some y) xs ys"
proof (induction xs arbitrary: ys)
  case (Cons x xs)
  then show ?case by (cases ys) (auto split: option.splits)
qed auto

lemma decode_commitments_Some:
  assumes "decode_commitments ch rows = Some cs"
  shows "list_all2 (\<lambda>row c. fst c = fst row \<and> fst (snd c) = snd row \<and> decodeObservationCommitment ch (ac_data (snd row)) = Some (snd (snd c))) rows cs"
  using assms unfolding decode_commitments_def those_map_all2 by (rule list_all2_mono) auto

lemma decoded_rows:
  assumes "decode_commitments ch rows = Some cs"
  shows "\<forall>c\<in>set cs. decodeObservationCommitment ch (ac_data (fst (snd c))) = Some (snd (snd c))"
proof
  fix c assume "c \<in> set cs"
  then obtain i where "i < length cs" "cs ! i = c" by (auto simp: in_set_conv_nth)
  with list_all2_nthD2 [OF decode_commitments_Some [OF assms], of i]
  show "decodeObservationCommitment ch (ac_data (fst (snd c))) = Some (snd (snd c))" by simp
qed

text \<open>What the collected inputs are bound to.\<close>

definition input_bound ::
  "chain \<Rightarrow> ed25519 \<Rightarrow> pubkey \<Rightarrow> (string \<rightharpoonup> ConfidenceInput) \<Rightarrow> pubkey \<times> AccountInfo \<times> ObservationCommitment \<Rightarrow> ConfidenceInput \<Rightarrow> bool" where
  "input_bound ch ed program inputs row input =
     (case row of (address, account, r) \<Rightarrow> inputs (hex_of_bytes (oc_transcriptHash r)) = Some input \<and> ac_owner account = program \<and>
        (\<exists>t device. decodeObservationTranscript (node_b64 (ci_transcript input)) (JInt 5) = Some t \<and>
          transcript_bound ch program address r input device t \<and>
          list_all (\<lambda>c. ed_verify ed (ot_publicKey t) (deviceChallengeDigest (ch_sha256 ch) t c) (tc_signature c)) (ot_challenges t)))"

lemma collect_history_bound:
  "collect_history ch ed program protocol inputs registered rows = Some history \<Longrightarrow>
     \<forall>row\<in>set rows. decodeObservationCommitment ch (ac_data (fst (snd row))) = Some (snd (snd row)) \<Longrightarrow>
     list_all2 (input_bound ch ed program inputs) rows history"
proof (induction rows arbitrary: history)
  case (Cons row rows)
  obtain address account r where row: "row = (address, account, r)" by (cases row)
  then obtain input device rest where h: "inputs (hex_of_bytes (oc_transcriptHash r)) = Some input"
    "validateConfidenceCommitment ch ed program address account input device" "history = input # rest"
    "collect_history ch ed program protocol inputs registered rows = Some rest"
    using Cons.prems(1) by (auto simp: bind_eq_Some_conv split: if_splits)
  have "input_bound ch ed program inputs row input" using h(1,2) Cons.prems(2) row
    by (auto simp: input_bound_def validateConfidenceCommitment_def split: if_splits option.splits)
  with Cons.IH [OF h(4)] Cons.prems(2) h(3) show ?case by auto
qed simp

lemma length_filter_all2: "list_all2 (\<lambda>x y. P x = Q y) xs ys \<Longrightarrow> length (filter P xs) = length (filter Q ys)"
  by (induction rule: list_all2_induct) auto

text \<open>The target epoch of the score is the target epoch on the chain.\<close>

lemma target_lengths:
  assumes "list_all2 (input_bound ch ed program inputs) rows history"
    and "list_all2 (\<lambda>i r. confidence_record_of (ch_sha256 ch) s i = Inr r) history rs"
    and "cs_deviceID s = hex_of_bytes deviceID" and "cs_epoch s = epoch"
  shows "length (target_records s (sort_key rv_hash rs)) = length (target_commitments deviceID epoch rows)"
proof -
  have "list_all2 (\<lambda>row r. oc_deviceID (snd (snd row)) = ot_deviceID (rv_transcript r) \<and> JInt (oc_epoch (snd (snd row))) = ot_epoch (rv_transcript r)) rows rs"
  proof (rule list_all2_trans [OF _ assms(1,2)])
    fix row i r assume b: "input_bound ch ed program inputs row i" and c: "confidence_record_of (ch_sha256 ch) s i = Inr r"
    obtain t device where t: "decodeObservationTranscript (node_b64 (ci_transcript i)) (JInt 5) = Some t"
      "transcript_bound ch program (fst row) (snd (snd row)) i device t" using b by (auto simp: input_bound_def split: prod.splits)
    have "rv_transcript r = t" using c t(1)
      by (auto simp: confidence_record_of_def ebind_eq_Inr dest!: strictBase64_node split: if_splits)
    with t(2) show "oc_deviceID (snd (snd row)) = ot_deviceID (rv_transcript r) \<and> JInt (oc_epoch (snd (snd row))) = ot_epoch (rv_transcript r)"
      by (simp add: transcript_bound_def)
  qed
  then have "list_all2 (\<lambda>row r. (oc_deviceID (snd (snd row)) = deviceID \<and> JInt (oc_epoch (snd (snd row))) = epoch) =
      (hex_of_bytes (ot_deviceID (rv_transcript r)) = cs_deviceID s \<and> ot_epoch (rv_transcript r) = cs_epoch s)) rows rs"
    by (rule list_all2_mono) (simp add: assms(3,4))
  from length_filter_all2 [OF this] show ?thesis
    by (simp add: target_records_def target_commitments_def filter_map comp_def filter_sort)
qed

lemma compute_parts:
  assumes "computeConfidence sha valid_key s inputs = Inr report"
  obtains rs tree where "list_all2 (\<lambda>i r. confidence_record_of sha s i = Inr r) inputs rs" "cfr_scope report = s"
    "cfr_raw report = int (length (target_records s (sort_key rv_hash rs)))" "length (cs_transcriptOrder s) = length (target_records s (sort_key rv_hash rs))"
    "append_all sha (cs_transcriptOrder s) empty_tree = Some tree" "hex_of_bytes (tr_root tree) = cs_observationRoot s"
proof -
  obtain records target window where h: "confidence_history sha valid_key s inputs = Inr (records, target, window)"
    "confidence_report sha s records target window = Inr report"
    using assms by (auto simp: computeConfidence_def ebind_eq_Inr)
  obtain rs where r: "list_all2 (\<lambda>i r. confidence_record_of sha s i = Inr r) inputs rs" "records = sort_key rv_hash rs" "target = target_records s records"
    by (rule confidence_history_facts [OF h(1)])
  have "cfr_scope report = s \<and> cfr_raw report = int (length target)"
    using h(2) by (auto simp: confidence_report_def Let_def ebind_eq_Inr)
  moreover obtain tree where "append_all sha (cs_transcriptOrder s) empty_tree = Some tree" "hex_of_bytes (tr_root tree) = cs_observationRoot s"
      "length target = length (cs_transcriptOrder s)"
    using h(1) by (auto simp: confidence_history_def ebind_eq_Inr Let_def split: if_splits)
  ultimately show thesis using r by (intro that [of rs tree]) auto
qed

lemma snapshot_parts:
  assumes "readConfidenceSnapshot ch ed (Some accounts) read program protocol deviceID epoch inputs order now = Some snap"
  obtains commitments registered history s where
    "computeConfidence (ch_sha256 ch) (\<lambda>k. ch_ofBase58 ch k \<noteq> None) s history = Inr (cn_report snap)"
    "cs_deviceID s = hex_of_bytes deviceID" "cs_epoch s = epoch" "cs_observationRoot s = hex_of_bytes (de_observationRoot (cn_deviceEpoch snap))"
    "decode_commitments ch accounts = Some commitments"
    "cs_transcriptOrder s = (case order of Some given \<Rightarrow> given | None \<Rightarrow> native_order (target_commitments deviceID epoch commitments))"
    "collect_history ch ed program protocol inputs registered commitments = Some history"
    "int (length (target_commitments deviceID epoch commitments)) = de_independentObservers (cn_deviceEpoch snap)"
    "confidenceCommitment (ch_sha256 ch) (report_value (cn_report snap)) = Some (cn_commitment snap)" "length accounts \<le> 10000"
  using assms unfolding readConfidenceSnapshot_def Let_def
  by (auto simp: bind_eq_Some_conv simp del: trusted_data_Some not_None_eq split: if_splits intro!: that)

section \<open>Properties\<close>


section \<open>Concrete accounts\<close>

definition demo_observation :: "pubkey \<times> AccountInfo" where
  "demo_observation = (take 32 (bytes_of_string ''obs'' @ zeros 32), \<lparr>ac_owner = replicate 32 3, ac_executable = False,
     ac_data = zeros 8 @ replicate 32 1 @ zeros 32 @ le_num 4 5 @ zeros 64 @ [1] @ zeros 64 @ [1] @ le_num 8 9\<rparr>)"

definition demo_epoch_rows :: "AccountInfo option list" where
  "demo_epoch_rows = [program_account ''ProtocolConfig'' (protocol_bytes demo_config),
     program_account ''DeviceEpoch'' (le_num 2 1 @ [1] @ zeros 576),
     program_account ''DeviceRegistry'' (zeros 32 @ replicate 32 3 @ [1, 0, 0] @ le_num 8 9 @ le_num 4 2 @ zeros 39)]"

definition demo_confidence_inputs :: "string \<rightharpoonup> ConfidenceInput" where
  "demo_confidence_inputs = [hex_of_bytes (zeros 32) \<mapsto>
     \<lparr>ci_transcript = b64_enc (transcript_bytes demo_transcript), ci_evidence = None, ci_reenrollmentCount = None\<rparr>]"

definition demo_commitment :: ObservationCommitment where
  "demo_commitment = \<lparr>oc_protocolID = replicate 32 1, oc_deviceID = zeros 32, oc_epoch = 5, oc_nullifier = zeros 32, oc_pseudonym = zeros 32,
     oc_observerClass = 1, oc_transcriptHash = zeros 32, oc_evidenceHash = zeros 32, oc_slotPaid = True, oc_submittedAt = 9\<rparr>"

definition demo_device_account :: DeviceRegistry where
  "demo_device_account = \<lparr>dr_deviceId = zeros 32, dr_key = replicate 32 3, dr_curve = 1, dr_externalAsset = None, dr_linked = False,
     dr_registeredAt = 9, dr_capabilities = 2, dr_claimedGeohash = None\<rparr>"

definition demo_epoch :: DeviceEpoch where
  "demo_epoch = \<lparr>de_independentObservers = 1, de_paidSlotsUsed = 1, de_observationRoot = zeros 32, de_confidenceCommitment = zeros 32,
     de_frontier = Some (replicate 16 (zeros 32))\<rparr>"

lemma demo_decoded:
  "decode_commitments (lib_chain demo_lib) [demo_observation] = Some [(fst demo_observation, snd demo_observation, demo_commitment)]"
  by code_simp

lemma demo_row_data:
  "Option.bind (trusted_data (replicate 32 3) (row_at 0 demo_epoch_rows)) (decodeProtocol (lib_chain demo_lib)) = Some demo_config"
  "Option.bind (trusted_data (replicate 32 3) (row_at 2 demo_epoch_rows)) (decodeDevice (lib_chain demo_lib)) = Some demo_device_account"
  by code_simp+

lemma demo_epoch_data:
  "\<exists>e. trusted_data (replicate 32 3) (row_at 1 demo_epoch_rows) = Some e \<and> length e = 587 \<and> decodeDeviceEpoch (lib_chain demo_lib) e = Some demo_epoch"
proof -
  have "map_option length (trusted_data (replicate 32 3) (row_at 1 demo_epoch_rows)) = Some 587"
    "Option.bind (trusted_data (replicate 32 3) (row_at 1 demo_epoch_rows)) (decodeDeviceEpoch (lib_chain demo_lib)) = Some demo_epoch"
    by code_simp+
  then show ?thesis by (cases "trusted_data (replicate 32 3) (row_at 1 demo_epoch_rows)") (auto simp del: trusted_data_Some)
qed

definition chain_input :: ConfidenceInput where
  "chain_input = \<lparr>ci_transcript = b64_enc (transcript_bytes demo_transcript), ci_evidence = None, ci_reenrollmentCount = None\<rparr>"

definition chain_scope :: ConfidenceScope where
  "chain_scope = demo_scope\<lparr>cs_program := hex_of_bytes (replicate 32 3), cs_deviceID := hex_of_bytes (zeros 32), cs_policyVersion := JInt 7\<rparr>"

definition chain_record :: RecordValue where
  "chain_record = \<lparr>rv_hash = hex_of_bytes (zeros 32), rv_transcript = demo_transcript, rv_input = chain_input,
     rv_pseudonym = hex_of_bytes (zeros 32), rv_slot = hex_of_bytes (zeros 32) @ ''/'' @ dec_str 5\<rparr>"

lemma chain_transcript:
  "validateObservationTranscript demo_transcript (JInt 5)"
  "decodeObservationTranscript (transcript_bytes demo_transcript) (JInt 5) = Some demo_transcript"
  "observationTranscriptHash (\<lambda>_. zeros 32) demo_transcript = Some (zeros 32)"
proof -
  show v: "validateObservationTranscript demo_transcript (JInt 5)"
    by (simp add: demo_transcript_def sample_transcript_def sample_challenge_def validateObservationTranscript_def
        challenge_ok_def local_ok_def field_ok_def u64_ok_def all_zero_def BN254_MODULUS_def
        zeros_def [of 6] replicate_eq_replicate list_all_iff)
  show "decodeObservationTranscript (transcript_bytes demo_transcript) (JInt 5) = Some demo_transcript" by (rule decode_transcript_bytes [OF v])
  show "observationTranscriptHash (\<lambda>_. zeros 32) demo_transcript = Some (zeros 32)"
    using v by (simp add: observationTranscriptHash_def encodeObservationTranscript_def)
qed

lemma demo_transcript_fields [simp]:
  "ot_protocolID demo_transcript = replicate 32 1" "ot_observationTimeMilliseconds demo_transcript = 300000" "ot_epoch demo_transcript = JInt 5"
  "ot_evidenceHash demo_transcript = zeros 32" "ot_pseudonym demo_transcript = zeros 32" "ot_deviceID demo_transcript = zeros 32"
  "ot_nullifier demo_transcript = zeros 32" "ot_publicKey demo_transcript = replicate 32 3" "ot_curve demo_transcript = JInt 1"
  "ot_observerClass demo_transcript = JInt 1"
  by (simp_all add: demo_transcript_def sample_transcript_def)

lemma chain_record_of: "confidence_record_of (\<lambda>_. zeros 32) chain_scope chain_input = Inr chain_record"
proof -
  have "strictBase64 (b64_enc (transcript_bytes demo_transcript)) = Some (transcript_bytes demo_transcript)"
    using strictBase64_enc demo_transcript_bytes by simp
  then show ?thesis
    by (simp add: confidence_record_of_def chain_input_def chain_transcript chain_scope_def demo_scope_def input_evidence_def
        observationEvidenceHash_def chain_record_def del: b64_enc.simps)
qed

lemma chain_history:
  "confidence_history (\<lambda>_. zeros 32) (\<lambda>k. ch_ofBase58 (lib_chain demo_lib) k \<noteq> None) chain_scope [chain_input] =
     Inr ([chain_record], [chain_record], [chain_record])"
proof -
  have hex: "is_hex 64 (hex_of_bytes (zeros 32))" "is_hex 64 (hex_of_bytes (replicate 32 1))"
    using is_hex_of_bytes [of "zeros 32"] is_hex_of_bytes [of "replicate 32 1"] by simp_all
  have s: "scope_ok chain_scope [chain_input]" using hex by (simp add: scope_ok_def chain_scope_def demo_scope_def maximumHistoryRecords_def)
  have h: "history_loop (\<lambda>_. zeros 32) chain_scope [chain_input] {} = Inr [chain_record]" using chain_record_of by simp
  have f: "target_records chain_scope [chain_record] = [chain_record]" "window_records chain_scope [chain_record] = [chain_record]"
    "rv_hash chain_record = hex_of_bytes (zeros 32)"
    by (simp_all add: target_records_def window_records_def chain_scope_def demo_scope_def chain_record_def WINDOW_MS_def)
  obtain t where t: "append_all (\<lambda>_. zeros 32) [hex_of_bytes (zeros 32)] empty_tree = Some t" "tr_root t = zeros 32"
    using one_leaf_tree by blast
  have o: "cs_transcriptOrder chain_scope = [hex_of_bytes (zeros 32)]" "cs_observationRoot chain_scope = hex_of_bytes (zeros 32)"
    "ch_ofBase58 (lib_chain demo_lib) (cs_program chain_scope) \<noteq> None"
    by (simp_all add: chain_scope_def demo_scope_def demo_lib_def sample_chain_def)
  have p: "length (pseudonyms [chain_record] [chain_record]) \<le> maximumHistoryPseudonyms"
    by (simp add: pseudonyms_def maximumHistoryPseudonyms_def)
  show ?thesis unfolding confidence_history_def using p o(3)
    by (simp add: s h [simplified] chain_record_of f o(1,2) t Let_def del: append_all.simps)
qed

lemma chain_collected:
  "collect_history (lib_chain demo_lib) accept_all (replicate 32 3) (replicate 32 1) demo_confidence_inputs
     [hex_of_bytes (zeros 32) \<mapsto> demo_device_account] [(fst demo_observation, snd demo_observation, demo_commitment)] = Some [chain_input]"
proof -
  have "map_option oa_commitment (observationAddresses (lib_chain demo_lib) (replicate 32 3) (replicate 32 1) (zeros 32) (JInt 5) (zeros 32)) =
      Some (fst demo_observation)" by code_simp
  moreover have "decodeObservationCommitment (lib_chain demo_lib) (ac_data (snd demo_observation)) = Some demo_commitment"
    using decoded_rows [OF demo_decoded] by simp
  moreover have "ac_executable (snd demo_observation) = False" "ac_owner (snd demo_observation) = replicate 32 3" by (simp_all add: demo_observation_def)
  moreover have "ch_sha256 (lib_chain demo_lib) = (\<lambda>_. zeros 32)" by (simp add: demo_lib_def)
  ultimately have "validateConfidenceCommitment (lib_chain demo_lib) accept_all (replicate 32 3) (fst demo_observation) (snd demo_observation)
      chain_input demo_device_account"
    by (simp add: validateConfidenceCommitment_def chain_input_def chain_transcript transcript_bound_def demo_commitment_def demo_device_account_def
        observationEvidenceHash_def accept_all_def list_all_iff del: b64_enc.simps)
  then show ?thesis by (simp add: demo_confidence_inputs_def demo_commitment_def chain_input_def)
qed

lemma chain_addresses:
  "\<exists>a d. observationAddresses (lib_chain demo_lib) (replicate 32 3) (replicate 32 1) (zeros 32) (JInt 5) (zeros 32) = Some a \<and>
     ra_device a (zeros 32) = Some d"
proof -
  have "map_option (\<lambda>a. ra_device a (zeros 32) \<noteq> None)
      (observationAddresses (lib_chain demo_lib) (replicate 32 3) (replicate 32 1) (zeros 32) (JInt 5) (zeros 32)) = Some True" by code_simp
  then show ?thesis by auto
qed

lemma chain_report:
  "\<exists>report c. computeConfidence (\<lambda>_. zeros 32) (\<lambda>k. ch_ofBase58 (lib_chain demo_lib) k \<noteq> None) chain_scope [chain_input] = Inr report \<and>
     confidenceCommitment (\<lambda>_. zeros 32) (report_value report) = Some c"
proof -
  obtain m gs b report where r: "confidence_report (\<lambda>_. zeros 32) chain_scope [chain_record] [chain_record] [chain_record] = Inr report"
    by (rule confidence_report_ok [OF chain_history])
  with report_canonical [OF chain_history r] chain_history show ?thesis by (auto simp: computeConfidence_def)
qed

lemma chain_snapshot_read:
  "\<exists>snap. readConfidenceSnapshot (lib_chain demo_lib) accept_all (Some [demo_observation]) (\<lambda>_. Some demo_epoch_rows) (replicate 32 3)
     (replicate 32 1) (zeros 32) (JInt 5) demo_confidence_inputs None (JInt 300000) = Some snap \<and> cn_deviceEpoch snap = demo_epoch"
proof -
  obtain a d where a: "observationAddresses (lib_chain demo_lib) (replicate 32 3) (replicate 32 1) (zeros 32) (JInt 5) (zeros 32) = Some a"
    "ra_device a (zeros 32) = Some d" using chain_addresses by blast
  obtain e where e: "trusted_data (replicate 32 3) (row_at 1 demo_epoch_rows) = Some e" "length e = 587"
    "decodeDeviceEpoch (lib_chain demo_lib) e = Some demo_epoch" using demo_epoch_data by blast
  obtain c where c: "trusted_data (replicate 32 3) (row_at 0 demo_epoch_rows) = Some c" "decodeProtocol (lib_chain demo_lib) c = Some demo_config"
    using demo_row_data(1) by (auto simp: bind_eq_Some_conv simp del: trusted_data_Some)
  obtain report cm where r: "computeConfidence (\<lambda>_. zeros 32) (\<lambda>k. ch_ofBase58 (lib_chain demo_lib) k \<noteq> None) chain_scope [chain_input] = Inr report"
    "confidenceCommitment (\<lambda>_. zeros 32) (report_value report) = Some cm" using chain_report by blast
  have f: "oc_deviceID demo_commitment = zeros 32" "oc_epoch demo_commitment = 5" "oc_transcriptHash demo_commitment = zeros 32"
    "de_independentObservers demo_epoch = 1" "de_observationRoot demo_epoch = zeros 32" "dr_claimedGeohash demo_device_account = None"
    "pc_protocolId demo_config = replicate 32 1" "pc_policyVersion demo_config = 7" "pc_epochSeconds demo_config = 60"
    "ch_sha256 (lib_chain demo_lib) = (\<lambda>_. zeros 32)"
    by (simp_all add: demo_commitment_def demo_epoch_def demo_device_account_def demo_config_def demo_lib_def)
  have s: "\<lparr>cs_program = ch_toBase58 (lib_chain demo_lib) (replicate 32 3), cs_protocolID = hex_of_bytes (replicate 32 1), cs_deviceID = hex_of_bytes (zeros 32),
      cs_epoch = JInt 5, cs_policyVersion = JInt 7, cs_epochSeconds = JInt 60, cs_evaluatedAtMilliseconds = JInt 300000,
      cs_observationRoot = hex_of_bytes (zeros 32), cs_transcriptOrder = [hex_of_bytes (zeros 32)], cs_claimedGeohash6 = None\<rparr> = chain_scope"
    by (simp add: chain_scope_def demo_scope_def demo_lib_def sample_chain_def)
  have t: "target_commitments (zeros 32) (JInt 5) [(fst demo_observation, snd demo_observation, demo_commitment)] = [demo_commitment]"
    by (simp add: target_commitments_def f)
  have u: "[0..<1] = [0::nat]" "unique [hex_of_bytes (zeros 32)] = [hex_of_bytes (zeros 32)]" by (simp_all add: unique_def upt_rec)
  show ?thesis unfolding readConfidenceSnapshot_def Let_def
    using chain_collected r
    by (simp add: demo_decoded a e c f s t u r native_order_def demo_row_data(2) right_of_def del: trusted_data_Some One_nat_def add_2_eq_Suc add_2_eq_Suc' not_None_eq collect_history.simps)
qed


end
