(* ===== verification/Policy_Status.thy ===== *)
theory Policy_Status
  imports Chain_State Confidence
begin

text \<open>
  The read-only reports of \<^verbatim>\<open>observation-policy.ts\<close>: \<^verbatim>\<open>confidenceStatus\<close>, \<^verbatim>\<open>observationStatus\<close>, \<^verbatim>\<open>payout\<close> and
  \<^verbatim>\<open>claimQuote\<close>.  The tables \<^verbatim>\<open>confidence_reports_v0\<close> and \<^verbatim>\<open>gate2_replays_v0\<close> are created by other programs and may be
  missing; the methods of the source are optional.  Composed with the Solana source, a report that is served as published
  is the one the chain commits to.
\<close>

section \<open>Reports\<close>

record ReportRow =
  rw_device_id :: string
  rw_epoch :: int
  rw_target :: string
  rw_commitment :: string
  rw_report :: string
  rw_signature :: string

record ReplayRow =
  rl_transcript_hash :: string
  rl_signature :: string
  rl_error_code :: int
  rl_unchanged :: int

datatype confidence_answer = ConfidenceStale | ConfidencePublished string jsval string

text \<open>\<^verbatim>\<open>value.length\<close>: of an array, of a text in UTF-16 units, of an object its own field; \<open>None\<close> is the exception for
  \<^verbatim>\<open>null\<close> and \<^verbatim>\<open>undefined\<close>.\<close>

definition utf16_units :: "char \<Rightarrow> nat" where
  "utf16_units c = (let n = of_char c :: nat in if 0x80 \<le> n \<and> n < 0xC0 then 0 else if 0xF0 \<le> n then 2 else 1)"

fun js_length :: "jsval \<Rightarrow> jsval option" where
  "js_length JUndef = None"
| "js_length JNull = None"
| "js_length (JArr vs) = Some (JNum (JInt (int (length vs))))"
| "js_length (JStr s) = Some (JNum (JInt (int (sum_list (map utf16_units s)))))"
| "js_length v = Some (js_get v ''length'')"

text \<open>The stored report agrees with the chain; the conditions in the order of the code, \<open>None\<close> when one of them throws.\<close>

definition report_current :: "ReportRow \<Rightarrow> jsval \<Rightarrow> ConfidenceState option \<Rightarrow> bool option" where
  "report_current row report chain =
     (case chain of None \<Rightarrow> Some False
      | Some c \<Rightarrow>
          let scope = js_get report ''scope''
          in if ct_commitment c \<noteq> rw_commitment row \<or> JStr (ct_observationRoot c) \<noteq> js_get scope ''observationRoot'' then Some False
             else map_option (\<lambda>n. JNum (JInt (ct_observerCount c)) = n \<and> JNum (JInt (ct_policyVersion c)) = js_get scope ''policyVersion'' \<and>
                 JStr (ct_program c) = js_get scope ''program'' \<and> JStr (ct_protocolID c) = js_get scope ''protocolID'')
               (js_length (js_get scope ''transcriptOrder'')))"

definition confidence_answer_of ::
  "hash \<Rightarrow> (string \<Rightarrow> jsnum \<Rightarrow> ConfidenceState option option) \<Rightarrow> string \<Rightarrow> jsnum \<Rightarrow> ReportRow \<Rightarrow> confidence_answer option" where
  "confidence_answer_of sha state device epoch row = do {
     report \<leftarrow> json_parse (rw_report row);
     chain \<leftarrow> state device epoch;
     commitment \<leftarrow> confidenceCommitment sha report;
     if commitment \<noteq> rw_commitment row \<or> js_get (js_get report ''scope'') ''deviceID'' \<noteq> JStr device \<or>
        js_get (js_get report ''scope'') ''epoch'' \<noteq> JNum epoch then None
     else do {
       current \<leftarrow> report_current row report chain;
       Some (if current then ConfidencePublished (rw_commitment row) report (rw_signature row) else ConfidenceStale) } }"

definition confidenceStatus ::
  "hash \<Rightarrow> string \<Rightarrow> (string \<Rightarrow> jsnum \<Rightarrow> ConfidenceState option option) option \<Rightarrow> ReportRow list option \<Rightarrow> string \<Rightarrow> jsnum \<Rightarrow>
     policy_error + confidence_answer option" where
  "confidenceStatus sha target source reports device epoch =
     (if \<not> is_hex 64 device \<or> \<not> int_in epoch 0 0xffffffff then Inl PE_internal
      else case source of None \<Rightarrow> Inl PE_dependency_unavailable
      | Some state \<Rightarrow>
          (case reports of None \<Rightarrow> Inr None
           | Some rows \<Rightarrow>
               (case find (\<lambda>r. rw_device_id r = device \<and> rw_epoch r = jint epoch \<and> rw_target r = target) rows of None \<Rightarrow> Inr None
                | Some row \<Rightarrow> map_sum id Some (of_opt PE_dependency_unavailable (confidence_answer_of sha state device epoch row)))))"

section \<open>Observations\<close>

record ObservationStatus =
  ov_chain :: ObservationChainStatus
  ov_transcript_hash :: string
  ov_status :: string
  ov_transaction_signature :: "string option"
  ov_duplicate :: "string option"

fun relay_status_text :: "relay_status \<Rightarrow> string" where
  "relay_status_text Queued = ''queued''"
| "relay_status_text Submitted = ''submitted''"
| "relay_status_text Confirmed = ''confirmed''"
| "relay_status_text Failed = ''failed''"

definition duplicate_of :: "ObservationChainStatus \<Rightarrow> ReplayRow option \<Rightarrow> string option" where
  "duplicate_of chain replay =
     (case replay of Some r \<Rightarrow> if os_on_chain chain \<and> rl_error_code r = 6001 \<and> rl_unchanged r = 1 then Some (rl_signature r) else None
      | None \<Rightarrow> None)"

text \<open>The \<open>duplicate\<close> field holds the signature of the rejected replay.  The jobs are \<open>None\<close> when the relay was never set up,
  where the query throws.\<close>

definition observationStatus ::
  "(ObservationRelayPayload \<Rightarrow> ObservationChainStatus option) option \<Rightarrow> RelayJob list option \<Rightarrow> ReplayRow list option \<Rightarrow> string \<Rightarrow>
     policy_error + ObservationStatus option" where
  "observationStatus source jobs replays h =
     (if \<not> is_hex 64 h then Inl PE_internal
      else case source of None \<Rightarrow> Inl PE_dependency_unavailable
      | Some status \<Rightarrow>
          (case jobs of None \<Rightarrow> Inl PE_internal
           | Some rows \<Rightarrow>
               (case find (\<lambda>j. rj_transcript_hash j = h) rows of None \<Rightarrow> Inr None
                | Some job \<Rightarrow>
                    if au_transcriptHash (rp_auth (rj_payload job)) \<noteq> h then Inl PE_dependency_unavailable
                    else case status (rj_payload job) of None \<Rightarrow> Inl PE_dependency_unavailable
                    | Some chain \<Rightarrow>
                        let replay = Option.bind replays (find (\<lambda>r. rl_transcript_hash r = h))
                        in Inr (Some \<lparr>ov_chain = chain, ov_transcript_hash = h,
                          ov_status = (if os_on_chain chain then ''finalized'' else relay_status_text (rj_status job)),
                          ov_transaction_signature = (if os_on_chain chain \<and> rj_status job = Confirmed then rj_signature job else None),
                          ov_duplicate = duplicate_of chain replay\<rparr>))))"

section \<open>Payouts\<close>

text \<open>The source's own exceptions pass through as plain errors.\<close>

definition policy_payout :: "(string \<Rightarrow> 'a option) option \<Rightarrow> string \<Rightarrow> policy_error + 'a" where
  "policy_payout source pseudonym =
     (case source of None \<Rightarrow> Inl PE_dependency_unavailable | Some payout \<Rightarrow> of_opt PE_internal (payout pseudonym))"

definition claimQuote ::
  "(string \<Rightarrow> string \<Rightarrow> string \<Rightarrow> string option \<Rightarrow> ClaimAuthorization option) option \<Rightarrow> string \<Rightarrow> string \<Rightarrow> string \<Rightarrow> policy_error + ClaimAuthorization" where
  "claimQuote source pseudonym withdrawalKey destination =
     (case source of None \<Rightarrow> Inl PE_dependency_unavailable | Some offer \<Rightarrow> of_opt PE_internal (offer pseudonym withdrawalKey destination None))"

section \<open>Properties\<close>

lemma map_sum_Inr: "map_sum id f m = Inr y \<longleftrightarrow> (\<exists>x. m = Inr x \<and> f x = y)"
  by (cases m) auto

lemma confidenceStatus_published:
  assumes "confidenceStatus sha target (Some state) reports device epoch = Inr (Some (ConfidencePublished c report signature))"
  obtains rows row chain where "reports = Some rows" "row \<in> set rows" "rw_device_id row = device" "rw_epoch row = jint epoch" "rw_target row = target"
    "rw_commitment row = c" "rw_signature row = signature" "json_parse (rw_report row) = Some report" "confidenceCommitment sha report = Some c"
    "state device epoch = Some (Some chain)" "ct_commitment chain = c" "report_current row report (Some chain) = Some True"
    "js_get (js_get report ''scope'') ''deviceID'' = JStr device" "js_get (js_get report ''scope'') ''epoch'' = JNum epoch"
proof -
  obtain rows row where r: "reports = Some rows"
    "find (\<lambda>r. rw_device_id r = device \<and> rw_epoch r = jint epoch \<and> rw_target r = target) rows = Some row"
    "confidence_answer_of sha state device epoch row = Some (ConfidencePublished c report signature)"
    using assms by (auto simp: confidenceStatus_def map_sum_Inr split: if_splits option.splits)
  obtain chain where a: "json_parse (rw_report row) = Some report" "state device epoch = Some chain" "confidenceCommitment sha report = Some c"
    "rw_commitment row = c" "rw_signature row = signature" "report_current row report chain = Some True"
    "js_get (js_get report ''scope'') ''deviceID'' = JStr device" "js_get (js_get report ''scope'') ''epoch'' = JNum epoch"
    using r(3) by (auto simp: confidence_answer_of_def bind_eq_Some_conv split: if_splits)
  from a(6) obtain cs where "chain = Some cs" "ct_commitment cs = c"
    using a(4) by (auto simp: report_current_def Let_def split: option.splits if_splits)
  with r a that show thesis by (auto simp: find_Some_iff intro: nth_mem)
qed

lemma confidenceState_Some:
  assumes "confidenceState ch so read device epoch = Some (Some c)"
  obtains a rows d state where
    "observationAddresses ch (so_program so) (so_protocol so) (node_hex device) epoch (zeros 32) = Some a"
    "read [ra_config a, oa_deviceEpoch a] = Some rows" "trusted_data (so_program so) (row_at 1 rows) = Some d"
    "decodeDeviceEpoch ch d = Some state" "ct_observationRoot c = hex_of_bytes (de_observationRoot state)"
    "ct_observerCount c = de_independentObservers state" "ct_commitment c = hex_of_bytes (de_confidenceCommitment state)"
  using assms unfolding confidenceState_def
  by (auto simp: bind_eq_Some_conv simp del: trusted_data_Some split: if_splits intro!: that)

text \<open>C10. A confidence report is served as published only when the chain commits to it: the program's device epoch account of
  that device and epoch holds the hash of the served report, and its root and observer count are those the report states.\<close>

theorem published_report_on_chain:
  assumes "confidenceStatus (ch_sha256 ch) target (Some (confidenceState ch so read)) reports device epoch =
    Inr (Some (ConfidencePublished c report signature))"
  shows "\<exists>a rows d state. observationAddresses ch (so_program so) (so_protocol so) (node_hex device) epoch (zeros 32) = Some a \<and>
    read [ra_config a, oa_deviceEpoch a] = Some rows \<and> trusted_data (so_program so) (row_at 1 rows) = Some d \<and>
    decodeDeviceEpoch ch d = Some state \<and> hex_of_bytes (de_confidenceCommitment state) = c \<and>
    confidenceCommitment (ch_sha256 ch) report = Some c \<and>
    js_get (js_get report ''scope'') ''observationRoot'' = JStr (hex_of_bytes (de_observationRoot state)) \<and>
    js_length (js_get (js_get report ''scope'') ''transcriptOrder'') = Some (JNum (JInt (de_independentObservers state))) \<and>
    js_get (js_get report ''scope'') ''deviceID'' = JStr device \<and> js_get (js_get report ''scope'') ''epoch'' = JNum epoch"
proof (rule confidenceStatus_published [OF assms], goal_cases)
  case (1 rws row chain)
  show ?case
  proof (rule confidenceState_Some [OF 1(10)], goal_cases)
    case (1 a rows d state)
    with \<open>report_current row report (Some chain) = Some True\<close> \<open>ct_commitment chain = c\<close> \<open>confidenceCommitment (ch_sha256 ch) report = Some c\<close>
      \<open>js_get (js_get report ''scope'') ''deviceID'' = JStr device\<close> \<open>js_get (js_get report ''scope'') ''epoch'' = JNum epoch\<close>
    show ?case by (auto simp: report_current_def Let_def split: if_splits simp del: trusted_data_Some)
  qed
qed

text \<open>C36. An observation is reported as finalized only when its commitment account is on the chain, field by field that of the
  validated payload, with consistent accounting; a transaction signature is shown only for a confirmed job, and a
  rejected duplicate only for a recorded replay.\<close>

theorem finalized_status_on_chain:
  assumes "observationStatus (Some (source_status ch so read)) jobs replays h = Inr (Some v)" and "ov_status v = ''finalized''"
  shows "\<exists>rows job a accounts d r. jobs = Some rows \<and> job \<in> set rows \<and> rj_transcript_hash job = h \<and>
    observationAddresses ch (so_program so) (so_protocol so) (node_hex (rp_deviceID (rj_payload job))) (rp_epoch (rj_payload job))
      (node_hex (au_nullifier (rp_auth (rj_payload job)))) = Some a \<and>
    read [oa_commitment a, oa_deviceEpoch a] = Some accounts \<and> trusted_data (so_program so) (row_at 0 accounts) = Some d \<and>
    decodeObservationCommitment ch d = Some r \<and> commitment_matches r (rj_payload job) \<and> os_paid (ov_chain v) = Some (oc_slotPaid r) \<and>
    (ov_transaction_signature v \<noteq> None \<longrightarrow> rj_status job = Confirmed \<and> ov_transaction_signature v = rj_signature job)"
proof -
  obtain rows job chain where s: "jobs = Some rows" "find (\<lambda>j. rj_transcript_hash j = h) rows = Some job" "ov_chain v = chain"
    "source_status ch so read (rj_payload job) = Some chain" "os_on_chain chain"
    "ov_transaction_signature v \<noteq> None \<longrightarrow> rj_status job = Confirmed \<and> ov_transaction_signature v = rj_signature job"
  proof -
    have n: "relay_status_text st \<noteq> ''finalized''" for st by (cases st) simp_all
    show thesis using assms that n
      by (auto simp: observationStatus_def Let_def split: if_splits option.splits)
  qed
  obtain a accounts d r where "observationAddresses ch (so_program so) (so_protocol so) (node_hex (rp_deviceID (rj_payload job)))
      (rp_epoch (rj_payload job)) (node_hex (au_nullifier (rp_auth (rj_payload job)))) = Some a"
    "read [oa_commitment a, oa_deviceEpoch a] = Some accounts" "trusted_data (so_program so) (row_at 0 accounts) = Some d"
    "decodeObservationCommitment ch d = Some r" "commitment_matches r (rj_payload job)" "os_paid chain = Some (oc_slotPaid r)"
    using s(4,5) unfolding source_status_def finalizedObservationStatus_def
    by (auto simp: bind_eq_Some_conv Let_def simp del: trusted_data_Some split: if_splits)
  with s show ?thesis by (auto simp: find_Some_iff simp del: trusted_data_Some intro!: exI [of _ rows] exI [of _ job])
qed

section \<open>Concrete accounts\<close>

definition report_json :: json where
  "report_json = JsonObj [(''scope'', JsonObj [(''program'', JsonStr (hex_of_bytes (replicate 32 3))), (''protocolID'', JsonStr (hex_of_bytes (replicate 32 1))),
     (''deviceID'', JsonStr (hex_of_bytes (zeros 32))), (''epoch'', JsonInt 5), (''policyVersion'', JsonInt 7),
     (''observationRoot'', JsonStr (hex_of_bytes (zeros 32))), (''transcriptOrder'', JsonArr [JsonStr (hex_of_bytes (zeros 32))])])]"

definition report_row :: ReportRow where
  "report_row = \<lparr>rw_device_id = hex_of_bytes (zeros 32), rw_epoch = 5, rw_target = ''t'', rw_commitment = hex_of_bytes (zeros 32),
     rw_report = stringify report_json, rw_signature = ''sig''\<rparr>"

definition epoch_rows :: "AccountInfo option list" where
  "epoch_rows = [program_account ''ProtocolConfig'' (protocol_bytes demo_config), program_account ''DeviceEpoch'' (le_num 2 1 @ [1] @ zeros 576)]"

definition epoch_state :: ConfidenceState where
  "epoch_state = \<lparr>ct_program = hex_of_bytes (replicate 32 3), ct_protocolID = hex_of_bytes (replicate 32 1), ct_policyVersion = 7,
     ct_observationRoot = hex_of_bytes (zeros 32), ct_observerCount = 1, ct_commitment = hex_of_bytes (zeros 32)\<rparr>"

lemma demo_confidence_state:
  "confidenceState (lib_chain demo_lib) demo_source (\<lambda>_. Some epoch_rows) (hex_of_bytes (zeros 32)) (JInt 5) = Some (Some epoch_state)"
  by code_simp

theorem published_report_on_chain_witness:
  "confidenceStatus (ch_sha256 (lib_chain demo_lib)) ''t'' (Some (confidenceState (lib_chain demo_lib) demo_source (\<lambda>_. Some epoch_rows)))
     (Some [report_row]) (hex_of_bytes (zeros 32)) (JInt 5) =
     Inr (Some (ConfidencePublished (hex_of_bytes (zeros 32)) (js_of_json report_json) ''sig'')) \<and>
   (\<exists>d state. trusted_data (replicate 32 3) (row_at 1 epoch_rows) = Some d \<and> decodeDeviceEpoch (lib_chain demo_lib) d = Some state \<and>
      hex_of_bytes (de_confidenceCommitment state) = hex_of_bytes (zeros 32))"
proof -
  have j: "json_parse (stringify report_json) = Some (js_of_json report_json)"
    by (rule json_parse_stringify) (simp add: report_json_def index_key_def is_decimal_def is_digit_def dec_digits_def)
  have c: "confidenceCommitment (\<lambda>_. zeros 32) (js_of_json report_json) = Some (hex_of_bytes (zeros 32))" by code_simp
  have g: "confidence_answer_of (\<lambda>_. zeros 32) (confidenceState (lib_chain demo_lib) demo_source (\<lambda>_. Some epoch_rows)) (hex_of_bytes (zeros 32)) (JInt 5)
      report_row = Some (ConfidencePublished (hex_of_bytes (zeros 32)) (js_of_json report_json) ''sig'')"
    unfolding confidence_answer_of_def report_row_def ReportRow.simps j demo_confidence_state Option.bind.bind_lunit c
    by (simp add: report_current_def epoch_state_def report_json_def)
  have h: "is_hex 64 (hex_of_bytes (zeros 32))" using is_hex_of_bytes [of "zeros 32"] by simp
  have s: "confidenceStatus (ch_sha256 (lib_chain demo_lib)) ''t'' (Some (confidenceState (lib_chain demo_lib) demo_source (\<lambda>_. Some epoch_rows)))
     (Some [report_row]) (hex_of_bytes (zeros 32)) (JInt 5) =
     Inr (Some (ConfidencePublished (hex_of_bytes (zeros 32)) (js_of_json report_json) ''sig''))"
    using g h by (simp add: confidenceStatus_def demo_lib_def) (simp add: report_row_def)
  from published_report_on_chain [OF s] s show ?thesis by (auto simp: demo_source_def simp del: trusted_data_Some)
qed

definition status_source :: policy_source where
  "status_source = demo_source\<lparr>so_protocol := node_hex (rp_protocolID sample_payload)\<rparr>"

definition status_rows :: "AccountInfo option list" where
  "status_rows = [Some sample_commitment_account, Some \<lparr>ac_owner = replicate 32 3, ac_executable = False,
     ac_data = discriminator sample_chain ''account'' ''DeviceEpoch'' @ le_num 2 1 @ [1] @ zeros 576\<rparr>]"

lemma demo_status:
  "map_sum id (map_option ov_status) (observationStatus (Some (source_status sample_chain status_source (\<lambda>_. Some status_rows)))
     (Some [sample_job]) None (rj_transcript_hash sample_job)) = Inr (Some ''finalized'')"
  by code_simp

theorem finalized_status_on_chain_witness:
  "\<exists>d r. trusted_data (replicate 32 3) (row_at 0 status_rows) = Some d \<and> decodeObservationCommitment sample_chain d = Some r \<and>
     commitment_matches r (rj_payload sample_job)"
proof -
  obtain v where v: "observationStatus (Some (source_status sample_chain status_source (\<lambda>_. Some status_rows))) (Some [sample_job]) None
      (rj_transcript_hash sample_job) = Inr (Some v)" "ov_status v = ''finalized''"
    using demo_status by (auto simp: map_sum_Inr)
  from finalized_status_on_chain [OF v] show ?thesis by (auto simp: status_source_def demo_source_def simp del: trusted_data_Some)
qed

end
