(* ===== verification/Proof_Worker.thy ===== *)
theory Proof_Worker
  imports Policy Json_Parse Observation
begin

text \<open>
  The pinned proof verifier of \<^verbatim>\<open>observation-groth16.ts\<close> and the lossy UTF-8 decoding of \<^verbatim>\<open>Buffer.toString("utf8")\<close> it reads its
  key file with.  The verdict of one proof is the outcome of a race between the worker's message, its error and exit
  events, a failed send and a timer; the race is a run over the events in the order in which they are delivered.
\<close>

section \<open>Lossy UTF-8 decoding\<close>

text \<open>A maximal ill-formed part is replaced by U+FFFD.\<close>

definition replacement :: bytes where
  "replacement = [0xEF, 0xBF, 0xBD]"

fun utf8_lossy :: "bytes \<Rightarrow> bytes" where
  "utf8_lossy [] = []"
| "utf8_lossy (b # bs) =
     (let u = uint b in
      if u < 0x80 then b # utf8_lossy bs
      else if 0xC2 \<le> u \<and> u \<le> 0xDF then
        (case bs of c # r \<Rightarrow> if utf8_tail c then b # c # utf8_lossy r else replacement @ utf8_lossy bs | [] \<Rightarrow> replacement)
      else if 0xE0 \<le> u \<and> u \<le> 0xEF then
        (case bs of c # r \<Rightarrow>
           if utf8_cont (if u = 0xE0 then 0xA0 else 0x80) (if u = 0xED then 0x9F else 0xBF) c then
             (case r of d # s \<Rightarrow> if utf8_tail d then b # c # d # utf8_lossy s else replacement @ utf8_lossy r | [] \<Rightarrow> replacement)
           else replacement @ utf8_lossy bs
         | [] \<Rightarrow> replacement)
      else if 0xF0 \<le> u \<and> u \<le> 0xF4 then
        (case bs of c # r \<Rightarrow>
           if utf8_cont (if u = 0xF0 then 0x90 else 0x80) (if u = 0xF4 then 0x8F else 0xBF) c then
             (case r of d # s \<Rightarrow>
                if utf8_tail d then
                  (case s of e # t \<Rightarrow> if utf8_tail e then b # c # d # e # utf8_lossy t else replacement @ utf8_lossy s | [] \<Rightarrow> replacement)
                else replacement @ utf8_lossy r
              | [] \<Rightarrow> replacement)
           else replacement @ utf8_lossy bs
         | [] \<Rightarrow> replacement)
      else replacement @ utf8_lossy bs)"

lemma utf8_lossy_id: "utf8_ok b \<Longrightarrow> utf8_lossy b = b"
proof (induction b rule: utf8_ok.induct)
  case (2 b bs)
  consider "uint b < 0x80" | "0xC2 \<le> uint b" "uint b \<le> 0xDF" | "0xE0 \<le> uint b" "uint b \<le> 0xEF" | "0xF0 \<le> uint b" "uint b \<le> 0xF4"
    using 2(5) by (fastforce simp: Let_def split: if_splits)
  then show ?case
  proof cases
    case 1 with 2 show ?thesis by simp
  next
    case 2 with \<open>utf8_ok (b # bs)\<close> "2.IH"(2) show ?thesis by (cases bs) (simp_all add: Let_def)
  next
    case 3 with \<open>utf8_ok (b # bs)\<close> "2.IH"(3) show ?thesis by (cases bs; cases "tl bs") (simp_all add: Let_def)
  next
    case 4 with \<open>utf8_ok (b # bs)\<close> "2.IH"(4) show ?thesis by (cases bs; cases "tl bs"; cases "tl (tl bs)") (simp_all add: Let_def)
  qed
qed simp

definition to_text :: "bytes \<Rightarrow> string" where
  "to_text b = string_of_bytes (utf8_lossy b)"

section \<open>The pinned key\<close>

record PinnedGroth16Verifier =
  pg_digest :: string
  pg_keyDigest :: string
  pg_key :: jsval

fun js_is_array :: "jsval \<Rightarrow> bool" where
  "js_is_array (JArr _) = True"
| "js_is_array _ = False"

definition vk_shape :: "jsval \<Rightarrow> bool" where
  "vk_shape key = (js_get key ''protocol'' = JStr ''groth16'' \<and> js_get key ''curve'' = JStr ''bn128'' \<and> js_get key ''nPublic'' = JNum (JInt 7) \<and>
     (case js_get key ''IC'' of JArr ic \<Rightarrow> length ic = 8 | _ \<Rightarrow> False) \<and> js_is_array (js_get key ''vk_alpha_1'') \<and>
     js_is_array (js_get key ''vk_beta_2'') \<and> js_is_array (js_get key ''vk_gamma_2'') \<and> js_is_array (js_get key ''vk_delta_2''))"

text \<open>The constructor on the size and the contents of the key file.\<close>

definition pinnedGroth16Verifier :: "hash \<Rightarrow> nat \<Rightarrow> bytes \<Rightarrow> string \<Rightarrow> PinnedGroth16Verifier option" where
  "pinnedGroth16Verifier sha fileSize contents expectedSHA256 =
     (if \<not> is_hex 64 expectedSHA256 \<or> fileSize > 64 * 1024 then None
      else if hex_of_bytes (sha contents) \<noteq> expectedSHA256 then None
      else do {
        key \<leftarrow> json_parse (to_text contents);
        if \<not> vk_shape key then None
        else do {
          keyDigest \<leftarrow> verificationKeyDigest sha key;
          Some \<lparr>pg_digest = hex_of_bytes (sha contents), pg_keyDigest = keyDigest, pg_key = key\<rparr> } })"

section \<open>One verification\<close>

datatype worker_event = WMessage jsval | WError | WExit | WTimeout | WSent bool

text \<open>The worker as \<^verbatim>\<open>groth16-worker.ts\<close> answers: \<open>verify\<close> is \<^verbatim>\<open>groth16.verify\<close>, \<open>None\<close> when it throws.\<close>

definition worker_answer :: "(jsval \<Rightarrow> string list \<Rightarrow> 'p \<Rightarrow> bool option) \<Rightarrow> jsval \<Rightarrow> string list \<Rightarrow> 'p \<Rightarrow> jsval" where
  "worker_answer verify key inputs prf = (case verify key inputs prf of Some b \<Rightarrow> JBool b | None \<Rightarrow> JBool False)"

record race =
  wr_settled :: bool
  wr_killed :: bool
  wr_result :: "bool option option"

definition race_start :: race where
  "race_start = \<lparr>wr_settled = False, wr_killed = False, wr_result = None\<rparr>"

definition finish :: "bool option \<Rightarrow> race \<Rightarrow> race" where
  "finish v s = (if wr_settled s then s else \<lparr>wr_settled = True, wr_killed = True, wr_result = Some v\<rparr>)"

fun on_event :: "worker_event \<Rightarrow> race \<Rightarrow> race" where
  "on_event (WMessage v) s = finish (Some (v = JBool True)) s"
| "on_event WError s = finish None s"
| "on_event WExit s = finish None s"
| "on_event WTimeout s = finish None s"
| "on_event (WSent failed) s = (if failed then finish None s else s)"

text \<open>The promise of \<^verbatim>\<open>verify\<close> after the events so far: pending, rejected (\<open>Some None\<close>) or resolved with a verdict.\<close>

definition proof_verify :: "worker_event list \<Rightarrow> bool option option" where
  "proof_verify events = wr_result (fold on_event events race_start)"

fun decides :: "worker_event \<Rightarrow> bool" where
  "decides (WSent failed) = failed"
| "decides _ = True"

fun verdict :: "worker_event \<Rightarrow> bool option" where
  "verdict (WMessage v) = Some (v = JBool True)"
| "verdict _ = None"

lemma on_event_settled: "wr_settled s \<Longrightarrow> on_event e s = s"
  by (cases e) (simp_all add: finish_def)

lemma fold_settled: "wr_settled s \<Longrightarrow> fold on_event es s = s"
  by (induction es) (simp_all add: on_event_settled)

lemma on_event_open:
  "\<not> wr_settled s \<Longrightarrow> on_event e s = (if decides e then \<lparr>wr_settled = True, wr_killed = True, wr_result = Some (verdict e)\<rparr> else s)"
  by (cases e) (simp_all add: finish_def)

lemma race_first:
  "\<not> wr_settled s \<Longrightarrow> fold on_event es s =
     (case find decides es of None \<Rightarrow> s | Some e \<Rightarrow> \<lparr>wr_settled = True, wr_killed = True, wr_result = Some (verdict e)\<rparr>)"
proof (induction es arbitrary: s)
  case (Cons e es)
  then show ?case by (cases "decides e") (simp_all add: on_event_open fold_settled)
qed simp

text \<open>The first decisive event settles a verification and nothing after it changes the verdict: a proof counts as valid only if
  the worker's first decisive word is true, and once the time limit has been reached a verdict or a failure is there.\<close>

theorem first_event_decides:
  "proof_verify (before @ e # after) =
     (case proof_verify before of Some r \<Rightarrow> Some r | None \<Rightarrow> if decides e then Some (verdict e) else proof_verify after) \<and>
   (proof_verify events = Some (Some True) \<longleftrightarrow> (\<exists>xs ys. events = xs @ WMessage (JBool True) # ys \<and> list_all (\<lambda>x. \<not> decides x) xs)) \<and>
   proof_verify (before @ WTimeout # after) \<noteq> None"
proof -
  have eq: "proof_verify es = map_option verdict (find decides es)" for es
    by (simp add: proof_verify_def race_first race_start_def split: option.splits)
  have "find decides events = Some (WMessage (JBool True)) \<longleftrightarrow>
      (\<exists>xs ys. events = xs @ WMessage (JBool True) # ys \<and> list_all (\<lambda>x. \<not> decides x) xs)"
  proof
    assume "find decides events = Some (WMessage (JBool True))"
    then show "\<exists>xs ys. events = xs @ WMessage (JBool True) # ys \<and> list_all (\<lambda>x. \<not> decides x) xs"
    proof (induction events)
      case (Cons e es)
      then show ?case by (cases "decides e") (force intro: exI [of _ "[]"], metis append_Cons find.simps(2) list.pred_inject(2))
    qed simp
  next
    assume "\<exists>xs ys. events = xs @ WMessage (JBool True) # ys \<and> list_all (\<lambda>x. \<not> decides x) xs"
    then obtain xs ys where "events = xs @ WMessage (JBool True) # ys" "list_all (\<lambda>x. \<not> decides x) xs" by blast
    then show "find decides events = Some (WMessage (JBool True))" by (induction xs arbitrary: events) auto
  qed
  moreover have "verdict e = Some True \<longleftrightarrow> e = WMessage (JBool True)" for e by (cases e) auto
  moreover have "find decides (xs @ ys) = (case find decides xs of None \<Rightarrow> find decides ys | Some z \<Rightarrow> Some z)" for xs ys
    by (induction xs) auto
  ultimately show ?thesis by (auto simp: eq split: option.splits)
qed

text \<open>The verifier is pinned: its key is the file whose SHA-256 was configured, and the key digest compared with the chain is the
  hash of the bytes to which the circuit package converts exactly this key.\<close>

theorem pinned_key:
  assumes "pinnedGroth16Verifier sha fileSize contents expected = Some v"
  shows "hex_of_bytes (sha contents) = expected \<and> json_parse (to_text contents) = Some (pg_key v) \<and>
    (\<exists>b. convertVerificationKey (pg_key v) = Some b \<and>
       pg_keyDigest v = hex_of_bytes (sha (bytes_of_string ''Pathnod/groth16-key/v0'' @ b)))"
  using assms by (auto simp: pinnedGroth16Verifier_def bind_eq_Some_conv verificationKeyDigest_eq split: if_splits)

definition vk_json :: json where
  "vk_json = (let g = JsonArr [JsonStr ''1'', JsonStr ''2'', JsonStr ''1''];
       h = JsonArr [JsonArr [JsonStr ''1'', JsonStr ''2''], JsonArr [JsonStr ''3'', JsonStr ''4''], JsonArr [JsonStr ''1'', JsonStr ''0'']]
     in JsonObj [(''protocol'', JsonStr ''groth16''), (''curve'', JsonStr ''bn128''), (''nPublic'', JsonInt 7), (''vk_alpha_1'', g),
       (''vk_beta_2'', h), (''vk_gamma_2'', h), (''vk_delta_2'', h), (''IC'', JsonArr (replicate 8 g))])"

lemma pinned_demo:
  "\<exists>v. pinnedGroth16Verifier (\<lambda>_. zeros 32) 600 (bytes_of_string (stringify vk_json)) (hex_of_bytes (zeros 32)) = Some v"
proof -
  have t: "to_text (bytes_of_string (stringify vk_json)) = stringify vk_json"
  proof -
    have "utf8_ok (bytes_of_string (stringify vk_json))" by code_simp
    then show ?thesis by (simp add: to_text_def utf8_lossy_id)
  qed
  have j: "json_parse (stringify vk_json) = Some (js_of_json vk_json)"
    by (rule json_parse_stringify) (simp add: vk_json_def Let_def index_key_def is_decimal_def is_digit_def dec_digits_def eval_nat_numeral)
  have s: "vk_shape (js_of_json vk_json)" by code_simp
  have d: "verificationKeyDigest (\<lambda>_. zeros 32) (js_of_json vk_json) \<noteq> None" by code_simp
  have h: "is_hex 64 (hex_of_bytes (zeros 32))" using is_hex_of_bytes [of "zeros 32"] by simp
  show ?thesis using d by (auto simp: pinnedGroth16Verifier_def t j s h)
qed

theorem pinned_key_witness:
  "\<exists>v b. pinnedGroth16Verifier (\<lambda>_. zeros 32) 600 (bytes_of_string (stringify vk_json)) (hex_of_bytes (zeros 32)) = Some v \<and>
     convertVerificationKey (pg_key v) = Some b"
proof -
  obtain v where v: "pinnedGroth16Verifier (\<lambda>_. zeros 32) 600 (bytes_of_string (stringify vk_json)) (hex_of_bytes (zeros 32)) = Some v"
    using pinned_demo by blast
  from pinned_key [OF v] v show ?thesis by blast
qed

end
