(* ===== verification/Http.thy ===== *)
theory Http
  imports Policy_Status Proof_Worker Eligibility Root_Publication
begin

text \<open>
  The HTTP server of \<^verbatim>\<open>enrollment-http.ts\<close>: reading a request body, routing, the calls into the services, and the mapping
  of their errors to statuses.  The URL and the headers are as the \<^verbatim>\<open>URL\<close> class and the \<^verbatim>\<open>http\<close> module deliver them.  A
  response body is the value that is handed to \<^verbatim>\<open>JSON.stringify\<close>.  The server limits concurrent validations by a counter;
  a step relation interleaves the phases of all admitted requests with each other and with everything else that
  happens to the policy's database.
\<close>

section \<open>Requests and responses\<close>

definition MAX_BODY :: nat where "MAX_BODY = 128 * 1024"

record http_url =
  hu_pathname :: string
  hu_search :: string
  hu_params :: "(string \<times> string) list"

text \<open>The body arrives in chunks; an aborted stream throws after them.\<close>

record http_request =
  hr_method :: string
  hr_url :: "http_url option"
  hr_headers :: "string \<rightharpoonup> string"
  hr_remote :: "string option"
  hr_chunks :: "bytes list"
  hr_aborted :: bool

datatype http_error = HPolicy policy_error | HInbox inbox_error | HEligibility eligibility_error | HEnroll enroll_error | HOther

datatype http_body =
    BError string "string option" | BHealth | BRoot string int "PublisherStatus option" | BSlots DeviceSlots | BConfidence confidence_answer
  | BReceipt string | BInboxReceipt string | BStatus ObservationStatus | BPayout PayoutReport | BClaim ClaimAuthorization
  | BAuthorized ClaimAuthorization string string | BChallenge string string purpose int | BPath MerklePath

record http_response =
  hs_status :: nat
  hs_headers :: "(string \<times> string) list"
  hs_body :: http_body

definition send_with :: "(string \<times> string) list \<Rightarrow> nat \<Rightarrow> http_body \<Rightarrow> http_response" where
  "send_with extra status body = \<lparr>hs_status = status,
     hs_headers = extra @ [(''content-type'', ''application/json; charset=utf-8''), (''cache-control'', ''no-store'')], hs_body = body\<rparr>"

abbreviation http_send :: "nat \<Rightarrow> http_body \<Rightarrow> http_response" where
  "http_send \<equiv> send_with []"

abbreviation send_error :: "nat \<Rightarrow> string \<Rightarrow> http_response" where
  "send_error status code \<equiv> http_send status (BError code None)"

abbreviation bad_input :: http_error where
  "bad_input \<equiv> HEnroll (EErr E_invalid_input None)"

fun read_parts :: "nat \<Rightarrow> bytes list \<Rightarrow> bytes option" where
  "read_parts sofar [] = Some []"
| "read_parts sofar (p # ps) =
     (if sofar + length p > MAX_BODY then None else map_option (\<lambda>b. p @ b) (read_parts (sofar + length p) ps))"

definition request_body :: "http_request \<Rightarrow> string list \<Rightarrow> string list \<Rightarrow> http_error + jsval" where
  "request_body rq required optional =
     (if map_option (takeWhile (\<lambda>c. c \<noteq> CHR '';'')) (hr_headers rq ''content-type'') \<noteq> Some ''application/json'' then Inl bad_input
      else case read_parts 0 (hr_chunks rq) of None \<Rightarrow> Inl bad_input
      | Some b \<Rightarrow>
          if hr_aborted rq then Inl HOther
          else of_opt bad_input (Option.bind (json_parse (to_text b)) (\<lambda>v. js_record v required optional)))"

text \<open>The function \<^verbatim>\<open>object\<close>.\<close>

definition object_bytes :: "jsval \<Rightarrow> http_error + bytes" where
  "object_bytes v =
     (case v of JStr s \<Rightarrow> if s = [] \<or> length s > MAX_BODY then Inl bad_input else of_opt bad_input (strict_b64 s)
      | _ \<Rightarrow> Inl bad_input)"

definition challenge_body :: "EnrollmentChallenge \<Rightarrow> http_body" where
  "challenge_body c = BChallenge (ecl_id c) (b64_enc (ecl_bytes c)) (ecl_mode c) (ecl_expiresAt c)"

section \<open>Errors\<close>

fun policy_code :: "policy_error \<Rightarrow> string" where
  "policy_code PE_DEVICE_UNKNOWN = ''E_DEVICE_UNKNOWN''" | "policy_code PE_DEV_SIG = ''E_DEV_SIG''"
| "policy_code PE_DEV_COUNTER = ''E_DEV_COUNTER''" | "policy_code PE_RTT = ''E_RTT''" | "policy_code PE_EPOCH = ''E_EPOCH''"
| "policy_code PE_ASSERTION = ''E_ASSERTION''" | "policy_code PE_ZK = ''E_ZK''" | "policy_code PE_NULLIFIER = ''E_NULLIFIER''"
| "policy_code PE_RSSI = ''E_RSSI''" | "policy_code PE_dependency_unavailable = ''observation_dependency_unavailable''"
| "policy_code PE_capacity = ''observation_capacity''" | "policy_code PE_invalid_observation = ''invalid_observation''"
| "policy_code PE_internal = ''internal_error''"

text \<open>A malformed envelope reaches the policy as an inbox error, any other exception is internal.\<close>

fun policy_http_status :: "policy_error \<Rightarrow> nat" where
  "policy_http_status PE_dependency_unavailable = 503" | "policy_http_status PE_capacity = 507"
| "policy_http_status PE_invalid_observation = 400" | "policy_http_status PE_internal = 500" | "policy_http_status _ = 422"

fun inbox_code :: "inbox_error \<Rightarrow> string" where
  "inbox_code Invalid_observation = ''invalid_observation''" | "inbox_code Receipt_conflict = ''receipt_conflict''"
| "inbox_code Inbox_full = ''inbox_full''"

fun inbox_http_status :: "inbox_error \<Rightarrow> nat" where
  "inbox_http_status Receipt_conflict = 409" | "inbox_http_status Inbox_full = 507" | "inbox_http_status _ = 400"

fun eligibility_code :: "eligibility_error \<Rightarrow> string" where
  "eligibility_code EG_invalid_input = ''invalid_input''" | "eligibility_code EG_invalid_config = ''invalid_config''"
| "eligibility_code EG_invalid_target = ''invalid_target''" | "eligibility_code EG_protocol_unknown = ''protocol_unknown''"
| "eligibility_code EG_account_mismatch = ''account_mismatch''" | "eligibility_code EG_rpc_unavailable = ''rpc_unavailable''"

fun eligibility_http_status :: "eligibility_error \<Rightarrow> nat" where
  "eligibility_http_status EG_invalid_input = 400" | "eligibility_http_status EG_protocol_unknown = 404" | "eligibility_http_status _ = 503"

fun enroll_code_text :: "enroll_code \<Rightarrow> string" where
  "enroll_code_text E_invalid_input = ''invalid_input''" | "enroll_code_text E_unknown_observer = ''unknown_observer''"
| "enroll_code_text E_already_enrolled = ''already_enrolled''" | "enroll_code_text E_invalid_challenge = ''invalid_challenge''"
| "enroll_code_text E_invalid_attestation = ''invalid_attestation''" | "enroll_code_text E_tree_full = ''tree_full''"
| "enroll_code_text E_challenge_limit = ''challenge_limit''"

fun enroll_http_status :: "enroll_code \<Rightarrow> nat" where
  "enroll_http_status E_challenge_limit = 429" | "enroll_http_status E_unknown_observer = 404" | "enroll_http_status E_already_enrolled = 409"
| "enroll_http_status E_tree_full = 507" | "enroll_http_status _ = 400"

fun error_response :: "bool \<Rightarrow> http_error \<Rightarrow> http_response" where
  "error_response production (HPolicy e) = send_error (policy_http_status e) (policy_code e)"
| "error_response production (HInbox e) = send_error (inbox_http_status e) (inbox_code e)"
| "error_response production (HEligibility e) = send_error (eligibility_http_status e) (eligibility_code e)"
| "error_response production (HEnroll (EErr code reason)) =
     http_send (enroll_http_status code) (BError (enroll_code_text code) (if production then None else reason))"
| "error_response production _ = send_error 500 ''internal_error''"

fun respond :: "bool \<Rightarrow> http_error + http_response \<Rightarrow> http_response" where
  "respond production (Inl e) = error_response production e"
| "respond production (Inr r) = r"

section \<open>Routing\<close>

text \<open>What the handler is created with; a receipt inbox and a policy exclude each other.\<close>

record server_config =
  cg_eligibility :: bool
  cg_inbox :: bool
  cg_policy :: bool

definition createEnrollmentServer :: "bool \<Rightarrow> bool \<Rightarrow> bool \<Rightarrow> server_config option" where
  "createEnrollmentServer eligibility inbox policy =
     (if inbox \<and> policy then None else Some \<lparr>cg_eligibility = eligibility, cg_inbox = inbox, cg_policy = policy\<rparr>)"

datatype http_call =
    CRoot | CQuote jsval jsval jsval | CConfidence string jsnum | CReceive | CInbox jsval | CStatus string | CPayout string
  | CClaimQuote string string string | CAuthorize jsval | CEnrollChallenge jsval jsval | CEnroll jsval jsval jsval bytes
  | CTreeChallenge jsval jsval | CTreePath jsval jsval jsval bytes

definition param_all :: "string \<Rightarrow> http_url \<Rightarrow> string list" where
  "param_all k url = map snd (filter (\<lambda>p. fst p = k) (hu_params url))"

definition param_get :: "jsval \<Rightarrow> string \<Rightarrow> http_url \<Rightarrow> jsval" where
  "param_get missing k url = (case param_all k url of [] \<Rightarrow> missing | v # _ \<Rightarrow> JStr v)"

definition header_value :: "http_request \<Rightarrow> string \<Rightarrow> jsval" where
  "header_value rq k = (case hr_headers rq k of None \<Rightarrow> JUndef | Some v \<Rightarrow> JStr v)"

fun js_text :: "jsval \<Rightarrow> string option" where
  "js_text (JStr s) = Some s"
| "js_text _ = None"

definition all_texts :: "jsval \<Rightarrow> bool" where
  "all_texts v = (case v of JObj fs \<Rightarrow> list_all (\<lambda>(k, x). js_text x \<noteq> None) fs | _ \<Rightarrow> True)"

definition text_of :: "jsval \<Rightarrow> string \<Rightarrow> string" where
  "text_of v k = (case js_get v k of JStr s \<Rightarrow> s | _ \<Rightarrow> [])"

definition route_slots :: "server_config \<Rightarrow> http_request \<Rightarrow> http_url \<Rightarrow> string \<Rightarrow> http_error + (http_response + http_call)" where
  "route_slots cfg rq url device =
     (if hr_method rq \<noteq> ''GET'' then Inr (Inl (send_with [(''allow'', ''GET'')] 405 (BError ''method_not_allowed'' None)))
      else if list_ex (\<lambda>p. fst p \<noteq> ''epoch'' \<and> fst p \<noteq> ''protocol_id'') (hu_params url) \<or> length (param_all ''epoch'' url) \<noteq> 1 \<or>
         length (param_all ''protocol_id'' url) > 1 then Inl (HEligibility EG_invalid_input)
      else if \<not> cg_eligibility cfg then Inr (Inl (send_error 503 ''eligibility_unavailable''))
      else Inr (Inr (CQuote (JStr device) (param_get JNull ''epoch'' url) (param_get JUndef ''protocol_id'' url))))"

definition route_confidence :: "server_config \<Rightarrow> http_url \<Rightarrow> string \<Rightarrow> http_error + (http_response + http_call)" where
  "route_confidence cfg url device =
     (if list_ex (\<lambda>p. fst p \<noteq> ''epoch'') (hu_params url) then Inl (HEligibility EG_invalid_input)
      else case param_all ''epoch'' url of [epoch] \<Rightarrow>
          if \<not> is_decimal epoch \<or> dec_val epoch > 0xffffffff then Inl (HEligibility EG_invalid_input)
          else if \<not> cg_policy cfg then Inr (Inl (send_error 503 ''observation_dependency_unavailable''))
          else Inr (Inr (CConfidence device (JInt (dec_val epoch))))
        | _ \<Rightarrow> Inl (HEligibility EG_invalid_input))"

definition observation_fields :: "string list" where
  "observation_fields = [''transcript'', ''assertion'', ''key_id'', ''zk'']"

definition route_observation :: "server_config \<Rightarrow> nat \<Rightarrow> http_request \<Rightarrow> http_error + (http_response + http_call)" where
  "route_observation cfg validating rq =
     (if hr_method rq \<noteq> ''POST'' then Inr (Inl (send_with [(''allow'', ''POST'')] 405 (BError ''method_not_allowed'' None)))
      else if cg_policy cfg then (if validating \<ge> 2 then Inr (Inl (send_error 429 ''observation_busy'')) else Inr (Inr CReceive))
      else if \<not> cg_inbox cfg then Inr (Inl (send_error 503 ''observation_receiver_unavailable''))
      else if (case hr_remote rq of None \<Rightarrow> True | Some a \<Rightarrow> a \<notin> {''127.0.0.1'', ''::1'', ''::ffff:127.0.0.1''})
      then Inr (Inl (send_error 403 ''development_receiver_local_only''))
      else ebind (request_body rq observation_fields [''evidence'']) (\<lambda>v. Inr (Inr (CInbox v))))"

definition route_payments :: "server_config \<Rightarrow> http_request \<Rightarrow> string \<Rightarrow> http_error + (http_response + http_call)" where
  "route_payments cfg rq path =
     (if \<not> cg_policy cfg then Inr (Inl (send_error 503 ''payments_unavailable''))
      else if path = ''/payouts/quote'' then
        ebind (request_body rq [''pseudonym'', ''withdrawal_key'', ''destination''] []) (\<lambda>v.
          if \<not> all_texts v then Inl bad_input
          else Inr (Inr (CClaimQuote (text_of v ''pseudonym'') (text_of v ''withdrawal_key'') (text_of v ''destination''))))
      else
        ebind (request_body rq [''pseudonym'', ''withdrawal_key'', ''destination'', ''key_id'', ''assertion'', ''expires_at''] []) (\<lambda>v.
          if \<not> all_texts v then Inl bad_input else Inr (Inr (CAuthorize v))))"

definition route_enrollment :: "http_request \<Rightarrow> http_url \<Rightarrow> string \<Rightarrow> http_error + (http_response + http_call)" where
  "route_enrollment rq url path =
     (if hr_method rq = ''POST'' \<and> path = ''/enroll/challenge'' then
        ebind (request_body rq [''commitment'', ''keyID''] []) (\<lambda>v. Inr (Inr (CEnrollChallenge (js_get v ''commitment'') (js_get v ''keyID''))))
      else if hr_method rq = ''POST'' \<and> path = ''/enroll'' then
        ebind (request_body rq [''challengeID'', ''commitment'', ''keyID'', ''object''] []) (\<lambda>v.
          ebind (object_bytes (js_get v ''object'')) (\<lambda>b.
            Inr (Inr (CEnroll (js_get v ''challengeID'') (js_get v ''commitment'') (js_get v ''keyID'') b))))
      else if hr_method rq = ''POST'' \<and> path = ''/tree/challenge'' then
        ebind (request_body rq [''commitment'', ''keyID''] []) (\<lambda>v. Inr (Inr (CTreeChallenge (js_get v ''commitment'') (js_get v ''keyID''))))
      else if hr_method rq = ''GET'' \<and> path = ''/tree'' then
        ebind (object_bytes (header_value rq ''x-pathnod-assertion'')) (\<lambda>b.
          Inr (Inr (CTreePath (header_value rq ''x-pathnod-challenge-id'') (param_get JNull ''commitment'' url) (header_value rq ''x-pathnod-key-id'') b)))
      else Inr (Inl (send_error 404 ''not_found'')))"

text \<open>The handler up to the call into a service: a response, a call, or an exception.\<close>

definition dispatch :: "server_config \<Rightarrow> nat \<Rightarrow> http_request \<Rightarrow> http_error + (http_response + http_call)" where
  "dispatch cfg validating rq =
     (case hr_url rq of None \<Rightarrow> Inl HOther
      | Some url \<Rightarrow>
          let path = hu_pathname url; seg = split_slash path; get = (hr_method rq = ''GET'')
          in if get \<and> path = ''/health'' then Inr (Inl (http_send 200 BHealth))
             else if get \<and> path = ''/root'' then Inr (Inr CRoot)
             else if length seg = 4 \<and> seg ! 0 = [] \<and> seg ! 1 = ''devices'' \<and> seg ! 2 \<noteq> [] \<and> seg ! 3 = ''slots''
             then route_slots cfg rq url (seg ! 2)
             else if get \<and> length seg = 4 \<and> seg ! 0 = [] \<and> seg ! 1 = ''devices'' \<and> is_hex 64 (seg ! 2) \<and> seg ! 3 = ''confidence''
             then route_confidence cfg url (seg ! 2)
             else if path = ''/observations'' then route_observation cfg validating rq
             else if get \<and> length seg = 4 \<and> seg ! 0 = [] \<and> seg ! 1 = ''observations'' \<and> is_hex 64 (seg ! 2) \<and> seg ! 3 = ''status'' then
               (if \<not> cg_policy cfg \<or> hu_search url \<noteq> [] then Inr (Inl (send_error 503 ''observation_dependency_unavailable''))
                else Inr (Inr (CStatus (seg ! 2))))
             else if get \<and> length seg = 3 \<and> seg ! 0 = [] \<and> seg ! 1 = ''payouts'' \<and> is_hex 64 (seg ! 2) then
               (if \<not> cg_policy cfg \<or> hu_search url \<noteq> [] then Inr (Inl (send_error 503 ''payments_unavailable''))
                else Inr (Inr (CPayout (seg ! 2))))
             else if hr_method rq = ''POST'' \<and> (path = ''/payouts/quote'' \<or> path = ''/payouts/authorize'') then route_payments cfg rq path
             else route_enrollment rq url path)"

section \<open>Calls\<close>

text \<open>The answers of the services that only read.\<close>

record read_env =
  ev_root :: "enroll_error + RootRow"
  ev_publisher :: "(enroll_error + PublisherStatus) option"
  ev_quote :: "jsval \<Rightarrow> jsval \<Rightarrow> jsval \<Rightarrow> eligibility_error + DeviceSlots \<times> int"
  ev_confidence :: "string \<Rightarrow> jsnum \<Rightarrow> policy_error + confidence_answer option"
  ev_status :: "string \<Rightarrow> policy_error + ObservationStatus option"
  ev_payout :: "string \<Rightarrow> policy_error + PayoutReport"
  ev_claimQuote :: "string \<Rightarrow> string \<Rightarrow> string \<Rightarrow> policy_error + ClaimAuthorization"

fun lift_error :: "('e \<Rightarrow> http_error) \<Rightarrow> 'e + 'a \<Rightarrow> http_error + 'a" where
  "lift_error f (Inl e) = Inl (f e)"
| "lift_error f (Inr x) = Inr x"

fun read_reply :: "read_env \<Rightarrow> http_call \<Rightarrow> http_error + http_response" where
  "read_reply env CRoot =
     ebind (lift_error HEnroll (ev_root env)) (\<lambda>row.
     ebind (case ev_publisher env of None \<Rightarrow> Inr None | Some r \<Rightarrow> map_sum id Some (lift_error HEnroll r)) (\<lambda>publication.
       Inr (http_send 200 (BRoot (rr_root row) (rr_revision row) publication))))"
| "read_reply env (CQuote device epoch protocol) =
     ebind (lift_error HEligibility (ev_quote env device epoch protocol)) (\<lambda>(slots, seconds).
       Inr (send_with [(''x-pathnod-epoch-seconds'', dec_str seconds)] 200 (BSlots slots)))"
| "read_reply env (CConfidence device epoch) =
     ebind (lift_error HPolicy (ev_confidence env device epoch)) (\<lambda>answer.
       Inr (case answer of Some a \<Rightarrow> http_send 200 (BConfidence a) | None \<Rightarrow> send_error 404 ''confidence_unknown''))"
| "read_reply env (CStatus h) =
     ebind (lift_error HPolicy (ev_status env h)) (\<lambda>answer.
       Inr (case answer of Some a \<Rightarrow> http_send 200 (BStatus a) | None \<Rightarrow> send_error 404 ''observation_unknown''))"
| "read_reply env (CPayout p) = ebind (lift_error HPolicy (ev_payout env p)) (\<lambda>r. Inr (http_send 200 (BPayout r)))"
| "read_reply env (CClaimQuote p k d) = ebind (lift_error HPolicy (ev_claimQuote env p k d)) (\<lambda>r. Inr (http_send 200 (BClaim r)))"
| "read_reply env _ = Inl HOther"

text \<open>The calls into the enrollment service; \<open>ts\<close> are the clock readings.\<close>

fun enroll_call :: "service \<Rightarrow> 'g gate_ops \<Rightarrow> (nat \<Rightarrow> int) \<Rightarrow> http_call \<Rightarrow> 'g enroll_state \<Rightarrow> 'g enroll_state \<times> (http_error + http_response)" where
  "enroll_call svc ops ts (CEnrollChallenge c k) st =
     map_prod id (\<lambda>r. ebind (lift_error HEnroll r) (\<lambda>x. Inr (http_send 200 (challenge_body x)))) (issueEnrollmentChallenge svc ops c k (ts 0) st)"
| "enroll_call svc ops ts (CEnroll i c k b) st =
     map_prod id (\<lambda>r. ebind (lift_error HEnroll r) (\<lambda>p. Inr (http_send 200 (BPath p)))) (enroll svc ops i c k b (ts 0) (ts 1) (ts 2) (ts 3) st)"
| "enroll_call svc ops ts (CTreeChallenge c k) st =
     map_prod id (\<lambda>r. ebind (lift_error HEnroll r) (\<lambda>x. Inr (http_send 200 (challenge_body x)))) (issueTreeChallenge svc ops c k (ts 0) st)"
| "enroll_call svc ops ts (CTreePath i c k b) st =
     map_prod id (\<lambda>r. ebind (lift_error HEnroll r) (\<lambda>p. Inr (http_send 200 (BPath p)))) (treePath svc ops i c k b (ts 0) (ts 1) st)"
| "enroll_call svc ops ts _ st = (st, Inl HOther)"

definition inbox_call :: "hash \<Rightarrow> (int list \<Rightarrow> int) \<Rightarrow> int \<Rightarrow> int \<Rightarrow> jsval \<Rightarrow> InboxRow list \<Rightarrow> InboxRow list \<times> (http_error + http_response)" where
  "inbox_call sha poseidon limit now v rows =
     map_prod id (\<lambda>r. ebind (lift_error HInbox r) (\<lambda>h. Inr (http_send 202 (BInboxReceipt h)))) (inbox_receive sha poseidon limit v now rows)"

definition claim_call ::
  "policy_lib \<Rightarrow> policy_service \<Rightarrow> (string \<Rightarrow> string \<Rightarrow> string \<Rightarrow> string \<Rightarrow> ClaimAuthorization option) \<Rightarrow> jsval \<Rightarrow> policy_db \<Rightarrow>
     policy_db \<times> (http_error + http_response)" where
  "claim_call lib svc source v db =
     map_prod id (\<lambda>r. ebind (lift_error HPolicy r) (\<lambda>(a, verifier, signature). Inr (http_send 200 (BAuthorized a verifier signature))))
       (authorizeClaim lib svc \<lparr>cq_pseudonym = text_of v ''pseudonym'', cq_key_id = text_of v ''key_id'', cq_assertion = text_of v ''assertion''\<rparr>
         (source (text_of v ''pseudonym'') (text_of v ''withdrawal_key'') (text_of v ''destination'') (text_of v ''expires_at'')) db)"

definition receipt_reply :: "policy_error + string \<Rightarrow> http_error + http_response" where
  "receipt_reply r = ebind (lift_error HPolicy r) (\<lambda>h. Inr (http_send 202 (BReceipt h)))"

section \<open>The server\<close>

text \<open>The order of the sessions carries no meaning.  An admitted observation is read, then validated in the phases of the policy.\<close>

datatype http_session = ReadingBody http_request | Validating http_request session

fun session_request :: "http_session \<Rightarrow> http_request" where
  "session_request (ReadingBody rq) = rq"
| "session_request (Validating rq s) = rq"

record server_state =
  hx_db :: policy_db
  hx_validating :: nat
  hx_sessions :: "http_session list"
  hx_log :: "(http_request \<times> http_response) list"

definition answer_now :: "http_request \<Rightarrow> http_response \<Rightarrow> server_state \<Rightarrow> server_state" where
  "answer_now rq r st = st\<lparr>hx_log := hx_log st @ [(rq, r)]\<rparr>"

text \<open>The \<^verbatim>\<open>finally\<close> block runs before the exception reaches the handler.\<close>

definition settle :: "bool \<Rightarrow> http_session list \<Rightarrow> http_session \<Rightarrow> http_session list \<Rightarrow> http_error + http_response \<Rightarrow> server_state \<Rightarrow> server_state" where
  "settle production xs s ys r st =
     answer_now (session_request s) (respond production r) (st\<lparr>hx_validating := hx_validating st - 1, hx_sessions := xs @ ys\<rparr>)"

inductive server_step :: "policy_lib \<Rightarrow> policy_service \<Rightarrow> server_config \<Rightarrow> bool \<Rightarrow> server_state \<Rightarrow> server_state \<Rightarrow> bool"
  for lib svc cfg production where
  refused: "route_observation cfg (hx_validating st) rq = Inr (Inl r) \<Longrightarrow> server_step lib svc cfg production st (answer_now rq r st)"
| admitted: "route_observation cfg (hx_validating st) rq = Inr (Inr CReceive) \<Longrightarrow>
    server_step lib svc cfg production st (st\<lparr>hx_validating := hx_validating st + 1, hx_sessions := hx_sessions st @ [ReadingBody rq]\<rparr>)"
| unreadable: "hx_sessions st = xs @ ReadingBody rq # ys \<Longrightarrow> request_body rq observation_fields [''evidence''] = Inl e \<Longrightarrow>
    server_step lib svc cfg production st (settle production xs (ReadingBody rq) ys (Inl e) st)"
| early: "hx_sessions st = xs @ ReadingBody rq # ys \<Longrightarrow> request_body rq observation_fields [''evidence''] = Inr v \<Longrightarrow>
    receive_start lib v (hx_db st) = Done r \<Longrightarrow> server_step lib svc cfg production st (settle production xs (ReadingBody rq) ys (receipt_reply r) st)"
| parsed: "hx_sessions st = xs @ ReadingBody rq # ys \<Longrightarrow> request_body rq observation_fields [''evidence''] = Inr v \<Longrightarrow>
    receive_start lib v (hx_db st) = Continue rc \<Longrightarrow>
    server_step lib svc cfg production st (st\<lparr>hx_sessions := (xs @ ys) @ [Validating rq (AwaitSnapshot rc)]\<rparr>)"
| rejected: "hx_sessions st = xs @ Validating rq (AwaitSnapshot rc) # ys \<Longrightarrow> receive_checked lib svc rc snapshot now (hx_db st) = Done r \<Longrightarrow>
    server_step lib svc cfg production st (settle production xs (Validating rq (AwaitSnapshot rc)) ys (receipt_reply r) st)"
| checked: "hx_sessions st = xs @ Validating rq (AwaitSnapshot rc) # ys \<Longrightarrow> receive_checked lib svc rc snapshot now (hx_db st) = Continue c \<Longrightarrow>
    server_step lib svc cfg production st (st\<lparr>hx_sessions := xs @ Validating rq (AwaitProof rc c) # ys\<rparr>)"
| committed: "hx_sessions st = xs @ Validating rq (AwaitProof rc c) # ys \<Longrightarrow> receive_commit lib svc rc c valid now (hx_db st) = (db', r) \<Longrightarrow>
    server_step lib svc cfg production st (settle production xs (Validating rq (AwaitProof rc c)) ys (receipt_reply r) (st\<lparr>hx_db := db'\<rparr>))"
| elsewhere: "policy_step lib svc (hx_db st, []) (db', []) \<Longrightarrow> server_step lib svc cfg production st (st\<lparr>hx_db := db'\<rparr>)"

inductive server_run :: "policy_lib \<Rightarrow> policy_service \<Rightarrow> server_config \<Rightarrow> bool \<Rightarrow> server_state \<Rightarrow> server_state \<Rightarrow> bool"
  for lib svc cfg production st0 where
  server_start: "server_run lib svc cfg production st0 st0"
| server_next: "server_run lib svc cfg production st0 st \<Longrightarrow> server_step lib svc cfg production st st' \<Longrightarrow> server_run lib svc cfg production st0 st'"

definition fresh_server :: "policy_db \<Rightarrow> server_state" where
  "fresh_server db = \<lparr>hx_db = db, hx_validating = 0, hx_sessions = [], hx_log = []\<rparr>"

section \<open>The server refines the policy\<close>

text \<open>A concrete system whose every step is a step of the abstract one or invisible to it.\<close>

locale simulation =
  fixes abs :: "'c \<Rightarrow> 'a" and cstep :: "'c \<Rightarrow> 'c \<Rightarrow> bool" and astep :: "'a \<Rightarrow> 'a \<Rightarrow> bool"
  assumes simulates: "cstep c c' \<Longrightarrow> abs c' = abs c \<or> astep (abs c) (abs c')"
begin

lemma run_simulated: "rtranclp cstep c c' \<Longrightarrow> rtranclp astep (abs c) (abs c')"
  by (induction rule: rtranclp_induct) (auto dest: simulates intro: rtranclp.rtrancl_into_rtrancl)

lemma invariant_transfers:
  assumes "rtranclp cstep c c'" and "P (abs c)" and "\<And>a a'. astep a a' \<Longrightarrow> P a \<Longrightarrow> P a'"
  shows "P (abs c')"
  using run_simulated [OF assms(1)] assms(2,3) by (induction rule: rtranclp_induct) blast+

end

text \<open>Abstraction: the sessions of the policy among those of the server.\<close>

fun policy_sessions :: "http_session list \<Rightarrow> session list" where
  "policy_sessions [] = []"
| "policy_sessions (ReadingBody rq # ss) = policy_sessions ss"
| "policy_sessions (Validating rq s # ss) = s # policy_sessions ss"

lemma policy_sessions_append [simp]: "policy_sessions (xs @ ys) = policy_sessions xs @ policy_sessions ys"
  by (induction xs rule: policy_sessions.induct) simp_all

lemma policy_step_elsewhere:
  assumes "policy_step lib svc (db, []) (db', [])"
  shows "policy_step lib svc (db, ss) (db', ss)"
  using assms by (cases rule: policy_step.cases) (auto intro: policy_step.intros)

definition abs_server :: "server_state \<Rightarrow> policy_db \<times> session list" where
  "abs_server st = (hx_db st, policy_sessions (hx_sessions st))"

text \<open>Every step of the server is a step of the policy or leaves its state alone.\<close>

lemma server_simulation:
  "server_step lib svc cfg production st st' \<Longrightarrow> abs_server st' = abs_server st \<or> policy_step lib svc (abs_server st) (abs_server st')"
proof (induction rule: server_step.induct)
  case (parsed st xs rq ys v rc)
  then show ?case using policy_step.arrive [OF parsed(3), of svc "policy_sessions xs @ policy_sessions ys"] by (simp add: abs_server_def)
next
  case (rejected st xs rq rc ys snapshot now r)
  then show ?case by (auto simp: abs_server_def settle_def answer_now_def intro: policy_step.end_early)
next
  case (checked st xs rq rc ys snapshot now c)
  then show ?case by (auto simp: abs_server_def intro: policy_step.resume)
next
  case (committed st xs rq rc c ys valid now db' r)
  then show ?case by (auto simp: abs_server_def settle_def answer_now_def intro: policy_step.commit)
next
  case (elsewhere st db')
  then show ?case by (auto simp: abs_server_def intro: policy_step_elsewhere)
qed (simp_all add: abs_server_def answer_now_def settle_def)

interpretation server: simulation abs_server "server_step lib svc cfg production" "policy_step lib svc" for lib svc cfg production
  by unfold_locales (rule server_simulation)

lemma policy_run_steps: "policy_run lib svc st0 st \<longleftrightarrow> rtranclp (policy_step lib svc) st0 st"
proof
  show "policy_run lib svc st0 st \<Longrightarrow> rtranclp (policy_step lib svc) st0 st" by (induction rule: policy_run.induct) auto
  show "rtranclp (policy_step lib svc) st0 st \<Longrightarrow> policy_run lib svc st0 st"
    by (induction rule: rtranclp_induct) (auto intro: policy_run.intros)
qed

lemma server_run_steps: "server_run lib svc cfg production st0 st \<Longrightarrow> rtranclp (server_step lib svc cfg production) st0 st"
  by (induction rule: server_run.induct) auto

lemma server_run_policy: "server_run lib svc cfg production st0 st \<Longrightarrow> policy_run lib svc (abs_server st0) (abs_server st)"
  unfolding policy_run_steps by (intro server.run_simulated server_run_steps)

section \<open>Receipts\<close>

abbreviation validated :: "policy_db \<Rightarrow> string set" where
  "validated db \<equiv> vr_transcript_hash ` set (pd_validations db)"

lemma start_receipt: "receive_start lib v db = Done (Inr h) \<Longrightarrow> h \<in> validated db"
  by (auto simp: receive_start_def Let_def dest: previous_cases(2) split: option.splits sum.splits bool.splits prod.splits)

lemma checked_receipt:
  assumes "receive_checked lib svc rc snapshot now db = Done (Inr h)"
  shows "h \<in> validated db"
proof -
  have "previous (rc_hash rc) (rc_digest rc) db = Inr True \<and> h = rc_hash rc"
    using assms by (auto simp: receive_checked_def Let_def split: option.splits sum.splits bool.splits if_splits)
  then show ?thesis using previous_cases(2) by blast
qed

lemma commit_receipt:
  assumes "receive_commit lib svc rc c valid now db = (db', Inr h)"
  shows "h \<in> validated db'"
proof (cases "h \<in> validated db")
  case True
  with assms show ?thesis
    by (metis receive_commit_other sum.inject(2))
next
  case False
  obtain s key asserted where c: "c = (s, key, asserted)" by (cases c)
  obtain payload where "h = rc_hash rc" "receive_transaction lib svc rc s key asserted payload (jint now) db = Inr db'"
    by (rule receive_commit_new [OF assms [unfolded c] False])
  with receive_transaction_Inr show ?thesis by (fastforce simp: write_validation_def Let_def)
qed

lemma receipt_reply_202:
  assumes "hs_status (respond production (receipt_reply r)) = 202"
  shows "\<exists>h. r = Inr h \<and> hs_body (respond production (receipt_reply r)) = BReceipt h"
proof (cases r)
  case (Inl e)
  with assms show ?thesis by (cases e) (simp_all add: receipt_reply_def send_with_def)
qed (simp add: receipt_reply_def send_with_def)

lemma error_not_202: "hs_status (error_response production e) \<noteq> 202"
proof (cases e)
  case (HPolicy x) then show ?thesis by (cases x) (simp_all add: send_with_def)
next
  case (HInbox x) then show ?thesis by (cases x) (simp_all add: send_with_def)
next
  case (HEligibility x) then show ?thesis by (cases x) (simp_all add: send_with_def)
next
  case (HEnroll x)
  then show ?thesis
  proof (cases x)
    case (EErr c reason) with HEnroll show ?thesis by (cases c) (simp_all add: send_with_def)
  qed (simp_all add: send_with_def)
qed (simp add: send_with_def)

text \<open>The invariant of the server: the counter counts the sessions, at most two, and every receipt sent is backed by a
  validation.\<close>

definition receipts_backed :: "server_state \<Rightarrow> bool" where
  "receipts_backed st = (\<forall>(rq, r)\<in>set (hx_log st). hs_status r = 202 \<longrightarrow> (\<exists>h\<in>validated (hx_db st). hs_body r = BReceipt h))"

definition server_inv :: "server_state \<Rightarrow> bool" where
  "server_inv st = (hx_validating st = length (hx_sessions st) \<and> hx_validating st \<le> 2 \<and> receipts_backed st)"

lemma receipts_settle:
  assumes "receipts_backed st" "hs_status (respond production r) = 202 \<Longrightarrow> \<exists>h\<in>validated (hx_db st). hs_body (respond production r) = BReceipt h"
  shows "receipts_backed (settle production xs s ys r st)"
  using assms by (auto simp: receipts_backed_def settle_def answer_now_def)

lemma receipts_reply:
  assumes "receipts_backed st" "\<And>h. r = Inr h \<Longrightarrow> h \<in> validated (hx_db st)"
  shows "receipts_backed (settle production xs s ys (receipt_reply r) st)"
proof (rule receipts_settle [OF assms(1)])
  assume "hs_status (respond production (receipt_reply r)) = 202"
  with receipt_reply_202 assms(2) show "\<exists>h\<in>validated (hx_db st). hs_body (respond production (receipt_reply r)) = BReceipt h" by metis
qed

lemma receipts_db:
  assumes "receipts_backed st" "set (pd_validations (hx_db st)) \<subseteq> set (pd_validations db')"
  shows "receipts_backed (st\<lparr>hx_db := db'\<rparr>)"
  using assms unfolding receipts_backed_def by fastforce

lemma route_observation_response:
  "route_observation cfg n rq = Inr (Inl r) \<Longrightarrow> hs_status r \<noteq> 202"
  by (auto simp: route_observation_def send_with_def ebind_eq_Inr split: if_splits)

lemma route_observation_admits:
  "route_observation cfg n rq = Inr (Inr CReceive) \<Longrightarrow> n < 2"
  by (auto simp: route_observation_def ebind_eq_Inr split: if_splits)

lemma server_inv_settle:
  assumes "hx_sessions st = xs @ s # ys" "server_inv st" "receipts_backed (settle production xs s ys r st)"
  shows "server_inv (settle production xs s ys r st)"
  using assms by (auto simp: server_inv_def settle_def answer_now_def)

lemma server_step_inv:
  assumes "server_step lib svc cfg production st st'" "server_inv st" "policy_state_ok lib svc (abs_server st)"
  shows "server_inv st'"
proof -
  have adv: "set (pd_validations (hx_db st)) \<subseteq> set (pd_validations (hx_db st'))"
    using server_simulation [OF assms(1)] policy_step_ok [of lib svc "abs_server st" "abs_server st'"] assms(3)
    by (auto simp: abs_server_def policy_advance_def)
  show ?thesis using assms(1,2) adv
  proof (induction rule: server_step.induct)
    case (refused st rq r)
    then show ?case using route_observation_response by (auto simp: server_inv_def answer_now_def receipts_backed_def)
  next
    case (admitted st rq)
    then show ?case using route_observation_admits by (fastforce simp: server_inv_def receipts_backed_def)
  next
    case (unreadable st xs rq ys e)
    then show ?case using error_not_202 by (intro server_inv_settle receipts_settle) (auto simp: server_inv_def)
  next
    case (early st xs rq ys v r)
    then show ?case using start_receipt by (intro server_inv_settle receipts_reply) (auto simp: server_inv_def)
  next
    case (rejected st xs rq rc ys snapshot now r)
    then show ?case using checked_receipt by (intro server_inv_settle receipts_reply) (auto simp: server_inv_def)
  next
    case (committed st xs rq rc c ys valid now db' r)
    have b: "receipts_backed (st\<lparr>hx_db := db'\<rparr>)" using committed by (intro receipts_db) (auto simp: server_inv_def settle_def answer_now_def)
    then have "server_inv (st\<lparr>hx_db := db'\<rparr>)" using committed by (simp add: server_inv_def)
    with b committed commit_receipt show ?case by (intro server_inv_settle receipts_reply) auto
  next
    case (elsewhere st db')
    then show ?case using receipts_db by (simp add: server_inv_def)
  qed (auto simp: server_inv_def receipts_backed_def)
qed

lemma server_run_inv:
  assumes "server_run lib svc cfg production st0 st" "policy_state_ok lib svc (abs_server st0)" "server_inv st0"
  shows "server_inv st"
  using assms
proof (induction rule: server_run.induct)
  case (server_next st st')
  then have "policy_state_ok lib svc (abs_server st)" using policy_run_ok [OF server_run_policy [OF server_next(1)]] by blast
  with server_next server_step_inv [OF server_next(2)] show ?case by blast
qed simp

section \<open>Enrollment over HTTP\<close>

lemma lift_error_Inr [simp]: "lift_error f m = Inr x \<longleftrightarrow> m = Inr x"
  by (cases m) simp_all

lemma enroll_call_step: "fst (enroll_call svc ops ts call st) = st \<or> enroll_step svc ops st (fst (enroll_call svc ops ts call st))"
  by (cases call) (simp_all add: enroll_step.intros)

text \<open>A request to the enrollment routes, and what the gate does on its own in between.\<close>

definition enroll_request :: "service \<Rightarrow> 'g gate_ops \<Rightarrow> 'g enroll_state \<Rightarrow> 'g enroll_state \<Rightarrow> bool" where
  "enroll_request svc ops st st' = ((\<exists>ts call. st' = fst (enroll_call svc ops ts call st)) \<or> fst st' = fst st)"

lemma enroll_request_step:
  assumes "enroll_request svc ops st st'"
  shows "st' = st \<or> enroll_step svc ops st st'"
proof (cases "fst st' = fst st")
  case True
  then show ?thesis using enroll_step.gate_moves [of svc ops "fst st" "snd st" "snd st'"] by (metis prod.collapse)
next
  case False
  with assms enroll_call_step show ?thesis unfolding enroll_request_def by metis
qed

interpretation requests: simulation "\<lambda>st. st" "enroll_request svc ops" "enroll_step svc ops" for svc and ops :: "'g gate_ops"
  by unfold_locales (rule enroll_request_step)

definition current_path :: "service \<Rightarrow> MerklePath \<Rightarrow> enroll_db \<Rightarrow> bool" where
  "current_path svc p db = (path_valid svc p \<and> mp_root p = field_hex (merkle_root (tree_hash svc) 0 20 (leaf_ints svc db)))"

lemma enroll_path:
  assumes "svc_ok svc" "enroll_inv svc (fst st)"
  shows "enroll svc ops cid cv kv ob t1 t2 t3 t4 st = (st', Inr p) \<longrightarrow> current_path svc p (fst st')"
  unfolding enroll_def
proof (rule with_inputs_cases)
  fix c ident
  assume c: "in_field c"
  obtain db g res where e: "consume_enroll ops cid OpEnroll (field_hex c) ident t1 t2 st = ((db, g), res)" by (metis surj_pair)
  have "enroll_inv svc db" using inv_consume_enroll [OF assms(2), of ops cid OpEnroll "field_hex c" ident t1 t2] e by simp
  from enroll_transaction_correct [OF assms(1) this c]
  have path: "current_path svc p db'" if "enroll_transaction svc (field_hex c) ident t3 t4 db = Inr (db', p)" for db'
    using that by (simp add: current_path_def)
  show "(case consume_enroll ops cid OpEnroll (field_hex c) ident t1 t2 st of
         (st, Inl e) \<Rightarrow> (st, Inl e)
       | ((db, g), Inr challenge) \<Rightarrow>
           (case gate_accepts ops (ecr_mode challenge) (ecr_id challenge) ident ob g of
              (g, Inl e) \<Rightarrow> ((db, g), Inl e)
            | (g, Inr _) \<Rightarrow>
                (case enroll_transaction svc (field_hex c) ident t3 t4 db of
                   Inl e \<Rightarrow> ((db, g), Inl e)
                 | Inr (db', path) \<Rightarrow> ((db', g), Inr path)))) = (st', Inr p) \<longrightarrow> current_path svc p (fst st')"
    unfolding e using path by (auto split: sum.splits prod.splits)
qed simp

lemma tree_path:
  assumes "svc_ok svc" "enroll_inv svc (fst st)"
  shows "treePath svc ops cid cv kv ob t1 t2 st = (st', Inr p) \<longrightarrow> current_path svc p (fst st')"
  unfolding treePath_def
proof (rule with_inputs_cases)
  fix c ident
  obtain db g res where e: "consume_enroll ops cid OpTree (field_hex c) ident t1 t2 st = ((db, g), res)" by (metis surj_pair)
  have inv: "enroll_inv svc db" using inv_consume_enroll [OF assms(2), of ops cid OpTree "field_hex c" ident t1 t2] e by simp
  have path: "current_path svc p db" if "enrollment_of ident db = Some row" "merklePath svc row db = Inr p" for row
  proof -
    have "row \<in> set (en_enrollments db)" using that(1) by (auto simp: enrollment_of_def dest!: find_SomeD)
    from merklePath_correct [OF assms(1) inv this] that(2) show ?thesis by (auto simp: current_path_def)
  qed
  show "(case consume_enroll ops cid OpTree (field_hex c) ident t1 t2 st of
         (st, Inl e) \<Rightarrow> (st, Inl e)
       | ((db, g), Inr challenge) \<Rightarrow>
           (case gate_accepts ops ForAssertion (ecr_id challenge) ident ob g of
              (g, Inl e) \<Rightarrow> ((db, g), Inl e)
            | (g, Inr _) \<Rightarrow>
                (case enrollment_of ident db of
                   None \<Rightarrow> ((db, g), efail E_unknown_observer)
                 | Some record \<Rightarrow>
                     if er_commitment record \<noteq> field_hex c then ((db, g), efail E_unknown_observer)
                     else ((db, g), merklePath svc record db)))) = (st', Inr p) \<longrightarrow> current_path svc p (fst st')"
    unfolding e using path by (auto simp: efail_def split: sum.splits prod.splits option.splits)
qed simp

text \<open>Every Merkle path in a response is valid for the tree at the time of the response.\<close>

lemma served_paths_valid:
  assumes "\<And>xs. in_field (hash xs)" and "openEnrollment hash limit path now fresh_enroll_db = Inr (svc, db0)"
    and "rtranclp (enroll_request svc ops) (db0, g0) st" and "enroll_call svc ops ts call st = (st', Inr r)" and "hs_body r = BPath p"
  shows "current_path svc p (fst st')"
proof -
  have svc: "svc_ok svc" "enroll_inv svc db0" using openEnrollment_fresh [OF assms(1,2)] by simp_all
  have "enroll_inv svc (fst st)"
    by (rule requests.invariant_transfers [OF assms(3)]) (use svc inv_enroll_step in auto)
  note ok = svc(1) this
  note paths = enroll_path [OF ok] tree_path [OF ok]
  show ?thesis
  proof (cases call)
    case (CEnroll i c k b)
    obtain res where "enroll svc ops i c k b (ts 0) (ts 1) (ts 2) (ts 3) st = (st', res)" using assms(4) CEnroll
      by (cases "enroll svc ops i c k b (ts 0) (ts 1) (ts 2) (ts 3) st") auto
    moreover from this have "res = Inr p" using assms(4,5) CEnroll by (auto simp: ebind_eq_Inr send_with_def)
    ultimately show ?thesis using paths(1) by blast
  next
    case (CTreePath i c k b)
    obtain res where "treePath svc ops i c k b (ts 0) (ts 1) st = (st', res)" using assms(4) CTreePath
      by (cases "treePath svc ops i c k b (ts 0) (ts 1) st") auto
    moreover from this have "res = Inr p" using assms(4,5) CTreePath by (auto simp: ebind_eq_Inr send_with_def)
    ultimately show ?thesis using paths(2) by blast
  qed (use assms(4,5) in \<open>auto simp: ebind_eq_Inr send_with_def challenge_body_def map_prod_def split: prod.splits\<close>)
qed

section \<open>Properties\<close>

text \<open>C4. The server on top of the policy: however requests, their bodies, chain reads and proofs interleave, it never has more than
  two validations in progress and its counter is exact, whatever fails; what it does to the database is a run of the
  policy, so that the policy's guarantees hold behind the server; and an observation is answered with 202 only
  when its validation is on record.\<close>

theorem server_refines_policy:
  assumes "openPolicy lib production policy target scope capacity relay recipient (fresh_policy_db g e) = (db0, Some svc)"
    and "server_run lib svc cfg production' (fresh_server db0) st"
  shows "hx_validating st = length (hx_sessions st) \<and> hx_validating st \<le> 2 \<and> policy_run lib svc (db0, []) (abs_server st) \<and>
    policy_inv svc (hx_db st) \<and>
    (\<forall>(rq, r)\<in>set (hx_log st). hs_status r = 202 \<longrightarrow> (\<exists>row\<in>set (pd_validations (hx_db st)). hs_body r = BReceipt (vr_transcript_hash row)))"
proof -
  have ok: "policy_state_ok lib svc (abs_server (fresh_server db0))"
    using openPolicy_fresh [OF assms(1)] by (simp add: abs_server_def fresh_server_def)
  have i: "server_inv st"
    by (rule server_run_inv [OF assms(2) ok]) (simp add: server_inv_def fresh_server_def receipts_backed_def)
  have r: "policy_run lib svc (db0, []) (abs_server st)"
    using server_run_policy [OF assms(2)] by (simp add: abs_server_def fresh_server_def)
  have "policy_inv svc (hx_db st)" using policy_run_ok [OF r] openPolicy_fresh [OF assms(1)] by (simp add: policy_state_ok_def abs_server_def)
  with i r show ?thesis by (auto simp: server_inv_def receipts_backed_def)
qed

section \<open>A concrete request\<close>

definition demo_json :: json where
  "demo_json = JsonObj [(''transcript'', JsonStr (b64_enc (transcript_bytes demo_transcript))),
     (''assertion'', JsonStr (b64_enc sample_assertion)), (''key_id'', JsonStr (b64_enc (zeros 32))),
     (''zk'', JsonObj [(''proof'', JsonObj [(''pi_a'', JsonArr [JsonStr ''1'', JsonStr ''2'', JsonStr ''1'']),
         (''pi_b'', JsonArr [JsonArr [JsonStr ''1'', JsonStr ''2''], JsonArr [JsonStr ''3'', JsonStr ''4''], JsonArr [JsonStr ''1'', JsonStr ''0'']]),
         (''pi_c'', JsonArr [JsonStr ''1'', JsonStr ''2'', JsonStr ''1'']), (''protocol'', JsonStr ''groth16''), (''curve'', JsonStr ''bn128'')]),
       (''public'', JsonArr (map JsonStr [''0'', ''0'', ''0'', ''5'', ''0'', ''0'', ''1'']))])]"

definition demo_request :: http_request where
  "demo_request = \<lparr>hr_method = ''POST'', hr_url = Some \<lparr>hu_pathname = ''/observations'', hu_search = [], hu_params = []\<rparr>,
     hr_headers = [''content-type'' \<mapsto> ''application/json''], hr_remote = None, hr_chunks = [bytes_of_string (stringify demo_json)], hr_aborted = False\<rparr>"

definition demo_server :: server_config where
  "demo_server = \<lparr>cg_eligibility = False, cg_inbox = False, cg_policy = True\<rparr>"

definition ascii :: "string \<Rightarrow> bool" where
  "ascii s = list_all (\<lambda>c. of_char c < (128 :: nat)) s"

lemma ascii_append [simp]: "ascii [] " "ascii (c # s) \<longleftrightarrow> of_char c < (128 :: nat) \<and> ascii s" "ascii (s @ t) \<longleftrightarrow> ascii s \<and> ascii t"
  by (simp_all add: ascii_def)

lemma ascii_utf8: "ascii s \<Longrightarrow> utf8_ok (bytes_of_string s)"
proof (induction s)
  case (Cons c s)
  have "uint (of_char c :: byte) = int (of_char c)" using unat_of_char [of c] by (metis uint_nat)
  with Cons show ?case by (simp add: bytes_of_string_def)
qed (simp add: bytes_of_string_def)

lemma b64_ascii: "ascii (b64_enc b)"
proof -
  have "ascii b64_digits" by (simp add: b64_digits_def)
  then have "of_char (b64_char n) < (128 :: nat)" if "n < 64" for n
    using that by (simp add: ascii_def b64_char_def list_all_length b64_digits_facts)
  then show ?thesis by (induction b rule: b64_enc.induct) (auto simp: pad_def)
qed

lemma escape_ascii: "of_char c < (128 :: nat) \<Longrightarrow> ascii (json_escape c)" "length (json_escape c) \<le> 6"
proof -
  have "ascii hex_digits" by (simp add: hex_digits_def)
  then have "of_char (hex_char n) < (128 :: nat)" if "n < 16" for n
    using that by (simp add: ascii_def hex_char_def list_all_length hex_digits_def)
  then show "of_char c < (128 :: nat) \<Longrightarrow> ascii (json_escape c)" by (auto simp: json_escape_def backslash_def)
qed (simp add: json_escape_def)

lemma json_str_ascii: "ascii s \<Longrightarrow> ascii (json_str s)"
proof -
  have "ascii s \<Longrightarrow> ascii (concat (map json_escape s))" by (induction s) (simp_all add: escape_ascii)
  then show "ascii s \<Longrightarrow> ascii (json_str s)" by (simp add: json_str_def quote_def)
qed

lemma length_json_str: "length (json_str s) \<le> 6 * length s + 2"
proof -
  have "length (concat (map json_escape s)) \<le> 6 * length s"
  proof (induction s)
    case (Cons c s)
    then show ?case using escape_ascii(2) [of c] by simp
  qed simp
  then show ?thesis by (simp add: json_str_def)
qed

lemma demo_text: "utf8_ok (bytes_of_string (stringify demo_json))" "length (stringify demo_json) \<le> MAX_BODY"
proof -
  show "utf8_ok (bytes_of_string (stringify demo_json))"
    by (rule ascii_utf8) (simp add: demo_json_def json_str_ascii b64_ascii del: b64_enc.simps)
  have "int (length sample_assertion) \<le> 1000" by code_simp
  then have l: "length (b64_enc (transcript_bytes demo_transcript)) \<le> 1000" "length (b64_enc sample_assertion) \<le> 2000"
      "length (b64_enc (zeros 32)) \<le> 100"
    using demo_transcript_bytes by (simp_all add: length_b64_enc del: b64_enc.simps)
  have b: "length (json_str s) \<le> 6 * n + 2" if "length s \<le> n" for s n using length_json_str [of s] that by linarith
  have k: "length (json_str s) \<le> 6 * 20 + 2" if "length s \<le> 20" for s using that by (rule b)
  note parts = b [OF l(1)] b [OF l(2)] b [OF l(3)]
  show "length (stringify demo_json) \<le> MAX_BODY"
    using parts k [of "''transcript''"] k [of "''assertion''"] k [of "''key_id''"] k [of "''zk''"] k [of "''proof''"] k [of "''pi_a''"] k [of "''pi_b''"]
      k [of "''pi_c''"] k [of "''protocol''"] k [of "''groth16''"] k [of "''curve''"] k [of "''bn128''"] k [of "''public''"]
      k [of "''0''"] k [of "''1''"] k [of "''2''"] k [of "''3''"] k [of "''4''"] k [of "''5''"]
    by (simp add: demo_json_def MAX_BODY_def del: b64_enc.simps)
qed

lemma demo_body: "request_body demo_request observation_fields [''evidence''] = Inr demo_value"
proof -
  have t: "to_text (bytes_of_string (stringify demo_json)) = stringify demo_json" using demo_text by (simp add: to_text_def utf8_lossy_id)
  have j: "json_parse (stringify demo_json) = Some (js_of_json demo_json)"
    by (rule json_parse_stringify) (simp add: demo_json_def index_key_def is_decimal_def is_digit_def dec_digits_def del: b64_enc.simps)
  have v: "js_of_json demo_json = demo_value" by (simp add: demo_json_def demo_value_def demo_inputs del: b64_enc.simps)
  have "js_record demo_value observation_fields [''evidence''] = Some demo_value"
    by (simp add: js_record_def demo_value_def observation_fields_def del: b64_enc.simps)
  with t j v demo_text show ?thesis
    by (simp add: request_body_def demo_request_def MAX_BODY_def del: stringify.simps)
qed

theorem server_refines_policy_witness:
  "\<exists>st r. server_run demo_lib demo_service demo_server True (fresh_server demo_db) st \<and> hx_log st = [(demo_request, r)] \<and> hs_status r = 202 \<and>
     hx_validating st = 0 \<and> policy_inv demo_service (hx_db st) \<and>
     (\<exists>row\<in>set (pd_validations (hx_db st)). hs_body r = BReceipt (vr_transcript_hash row))"
proof -
  let ?run = "server_run demo_lib demo_service demo_server True (fresh_server demo_db)"
  let ?c = "(demo_snapshot, demo_key 3, demo_key 5)"
  let ?s0 = "\<lambda>v ss log db. \<lparr>hx_db = db, hx_validating = v, hx_sessions = ss, hx_log = log\<rparr>"
  obtain db' where c: "receive_commit demo_lib demo_service demo_context ?c (Some True) (JInt 300000) demo_db = (db', Inr (hex_of_bytes (zeros 32)))"
    using demo_committed by blast
  have 0: "?run (?s0 0 [] [] demo_db)" using server_start by (simp add: fresh_server_def)
  have 1: "?run (?s0 1 [ReadingBody demo_request] [] demo_db)"
    using server_next [OF 0 admitted [of demo_server _ demo_request]] by (simp add: route_observation_def demo_server_def demo_request_def)
  have 2: "?run (?s0 1 [Validating demo_request (AwaitSnapshot demo_context)] [] demo_db)"
    using server_next [OF 1 parsed [of _ "[]" demo_request "[]", OF _ demo_body]] demo_started by simp
  have 3: "?run (?s0 1 [Validating demo_request (AwaitProof demo_context ?c)] [] demo_db)"
    using server_next [OF 2 checked [of _ "[]" demo_request demo_context "[]"]] demo_checked by simp
  have 4: "?run (?s0 0 [] [(demo_request, http_send 202 (BReceipt (hex_of_bytes (zeros 32))))] db')"
    using server_next [OF 3 committed [of _ "[]" demo_request demo_context ?c "[]" demo_lib demo_service "Some True" "JInt 300000" db']] c
    by (simp add: settle_def answer_now_def receipt_reply_def)
  from server_refines_policy [OF demo_open 4] 4 show ?thesis by (force simp: send_with_def)
qed

end
