(* ===== verification/Demo_Support.thy ===== *)
theory Demo_Support
  imports Relay_Transport Policy
begin

text \<open>
  The safety checks of the demo tooling (\<^verbatim>\<open>demo-safety.ts\<close>) and the one-time import of an enrollment database
  (\<^verbatim>\<open>demo-enrollment-import.ts\<close>).  Paths are absolute and, after \<^verbatim>\<open>realpath\<close>, normalised; the file system and the rows of
  the source database are arguments.
\<close>

section \<open>Targets and decisions\<close>

definition other_clusters :: "string list" where
  "other_clusters = [''5eykt4UsFv8P8NJdTREpY1vzqKqZKvdpKuc147dw2N9d'', ''4uhcVJyU9pJkvQyS88uRDiswHXSCkY3zQawwpjk2NsNY'']"

text \<open>The URL with its \<^verbatim>\<open>href\<close>; the result is whether the target is local, and the expected genesis hash.\<close>

definition demoTarget :: "(rpc_url \<times> string) option \<Rightarrow> bool option \<Rightarrow> string option \<Rightarrow> (bool \<times> string) option" where
  "demoTarget url localValidator genesis = do {
     (u, href) \<leftarrow> url;
     let loc = (url_hostname u \<in> {''localhost'', ''127.0.0.1'', ''[::1]''});
     let given = (case genesis of None \<Rightarrow> [] | Some g \<Rightarrow> g);
     if url_username u \<noteq> [] \<or> url_password u \<noteq> [] \<or> url_search u \<noteq> [] \<or> url_hash u \<noteq> [] then None
     else if (if loc then localValidator \<noteq> Some True \<or> given = [] \<or> url_protocol u \<notin> {''http:'', ''https:''}
              else href \<noteq> ''https://api.devnet.solana.com/'') then None
     else do {
       let expected = (if loc then given else DEVNET_GENESIS);
       if expected \<in> set other_clusters \<or> loc \<and> expected = DEVNET_GENESIS then None else Some (loc, expected) } }"

definition hardwareInfo :: "chain \<Rightarrow> bytes \<Rightarrow> (string \<times> string \<times> int) option" where
  "hardwareInfo ch bs =
     (if length bs \<noteq> 70 \<or> bs ! 0 \<noteq> 0 \<or> bs ! 1 \<noteq> 1 \<or> all_zero (subarray 2 34 bs) then None
      else let key = subarray 2 34 bs
           in map_option (\<lambda>d. (hex_of_bytes key, hex_of_bytes d, be_val (subarray 34 38 bs))) (deviceId ch key))"

definition canonicalRoot :: "string \<Rightarrow> jsnum \<Rightarrow> (string \<times> jsnum) option" where
  "canonicalRoot root leafCount =
     (if \<not> is_hex 64 root \<or> hex_int root = 0 \<or> hex_int root \<ge> BN254_MODULUS \<or> \<not> int_in leafCount 1 (2 ^ 20) then None
      else Some (root, leafCount))"

datatype decision = D_finalized | D_failed | D_retry | D_expired | D_unknown

definition pendingDecision :: "tx_status option \<Rightarrow> int \<Rightarrow> int \<Rightarrow> decision" where
  "pendingDecision status currentHeight lastValidHeight =
     (case status of Some s \<Rightarrow>
        if \<not> js_falsy (ts_err s) then D_failed else if ts_confirmation s = Some ''finalized'' then D_finalized else D_unknown
      | None \<Rightarrow> if currentHeight \<le> lastValidHeight then D_retry else D_expired)"

section \<open>Paths\<close>

definition path_parts :: "string \<Rightarrow> string list" where
  "path_parts p = filter (\<lambda>s. s \<noteq> []) (split_slash p)"

fun strip_common :: "'a list \<Rightarrow> 'a list \<Rightarrow> 'a list \<times> 'a list" where
  "strip_common (x # xs) (y # ys) = (if x = y then strip_common xs ys else (x # xs, y # ys))"
| "strip_common xs ys = (xs, ys)"

fun join_slash :: "string list \<Rightarrow> string" where
  "join_slash [] = []"
| "join_slash [x] = x"
| "join_slash (x # y # xs) = x @ ''/'' @ join_slash (y # xs)"

text \<open>\<^verbatim>\<open>path.relative\<close> on normalised absolute paths.\<close>

definition path_relative :: "string \<Rightarrow> string \<Rightarrow> string" where
  "path_relative from_path to_path =
     (case strip_common (path_parts from_path) (path_parts to_path) of (up, down) \<Rightarrow> join_slash (map (\<lambda>_. ''..'') up @ down))"

definition is_absolute :: "string \<Rightarrow> bool" where
  "is_absolute p = (take 1 p = ''/'')"

definition within :: "string \<Rightarrow> string \<Rightarrow> bool" where
  "within root file =
     (let relative = path_relative root file
      in relative = [] \<or> take 3 relative \<noteq> ''../'' \<and> relative \<noteq> ''..'' \<and> \<not> is_absolute relative)"

definition path_dirname :: "string \<Rightarrow> string" where
  "path_dirname p =
     (let body = dropWhile (\<lambda>c. c = CHR ''/'') (rev p); dir = tl (dropWhile (\<lambda>c. c \<noteq> CHR ''/'') body)
      in if dir = [] then ''/'' else if dir = ''/'' then ''//'' else rev dir)"

record file_system =
  fs_realpath :: "string \<Rightarrow> string option"
  fs_isFile :: "string \<Rightarrow> bool"
  fs_mode :: "string \<Rightarrow> nat"
  fs_exists :: "string \<Rightarrow> bool"

definition externalFile :: "file_system \<Rightarrow> string \<Rightarrow> string \<Rightarrow> string option" where
  "externalFile fs file repo =
     (if \<not> is_absolute file then None
      else do { resolved \<leftarrow> fs_realpath fs file; root \<leftarrow> fs_realpath fs repo; if within root resolved then None else Some resolved })"

definition privateFile :: "file_system \<Rightarrow> string \<Rightarrow> string \<Rightarrow> string option" where
  "privateFile fs file repo = do {
     resolved \<leftarrow> externalFile fs file repo;
     if \<not> fs_isFile fs resolved \<or> fs_mode fs resolved mod 64 \<noteq> 0 then None else Some resolved }"

section \<open>Import\<close>

text \<open>A table of the source: absent, something else than a table, or its rows.\<close>

datatype 'r source_table = NoTable | OtherKind | Rows "'r list"

record enrollment_source =
  is_keys :: "KeyRow source_table"
  is_enrollments :: "EnrollmentRow source_table"
  is_nodes :: "((nat \<times> nat) \<times> string) source_table"
  is_roots :: "RootRow source_table"
  is_events :: "EventRow source_table"
  is_revocations :: "(string \<times> int) source_table"
  is_counters :: "(string \<times> int) source_table"

text \<open>The rows of one table under its constraints; \<open>None\<close> is a failed assertion or a rejected insert.\<close>

definition copy_table :: "bool \<Rightarrow> ('r list \<Rightarrow> bool) \<Rightarrow> 'r source_table \<Rightarrow> 'r list option" where
  "copy_table optional constraints t =
     (case t of NoTable \<Rightarrow> if optional then Some [] else None
      | OtherKind \<Rightarrow> None
      | Rows rs \<Rightarrow> if constraints rs then Some rs else None)"

record runtime_db =
  im_gate :: gate_db
  im_enroll :: enroll_db
  im_revocations :: "string \<rightharpoonup> int"
  im_counters :: "string \<rightharpoonup> int"

definition keyed :: "('r \<Rightarrow> 'k) \<Rightarrow> 'r list \<Rightarrow> bool" where
  "keyed f rs = distinct (map f rs)"

definition enrollment_constraints :: "EnrollmentRow list \<Rightarrow> bool" where
  "enrollment_constraints rs = (keyed er_key_id rs \<and> keyed er_commitment rs \<and> keyed er_leaf_index rs \<and>
     list_all (\<lambda>r. er_observer_class r \<in> {1, 2, 3}) rs)"

definition import_tables :: "enrollment_source \<Rightarrow> runtime_db option" where
  "import_tables src = do {
     keys \<leftarrow> copy_table False (keyed kr_key_id) (is_keys src);
     enrollments \<leftarrow> copy_table False enrollment_constraints (is_enrollments src);
     nodes \<leftarrow> copy_table False (keyed fst) (is_nodes src);
     roots \<leftarrow> copy_table False (keyed rr_revision) (is_roots src);
     events \<leftarrow> copy_table False (\<lambda>_. True) (is_events src);
     revocations \<leftarrow> copy_table True (keyed fst) (is_revocations src);
     counters \<leftarrow> copy_table True (keyed fst) (is_counters src);
     if enrollments = [] \<or> list_ex (\<lambda>e. er_key_id e \<notin> kr_key_id ` set keys) enrollments \<or>
        list_ex (\<lambda>k. kr_counter k < 0 \<or> kr_counter k > 4294967295) keys then None
     else Some \<lparr>im_gate = \<lparr>gd_challenges = [], gd_keys = keys\<rparr>,
       im_enroll = \<lparr>en_enrollments = enrollments, en_challenges = [], en_nodes = map_of nodes, en_roots = roots, en_events = events\<rparr>,
       im_revocations = map_of revocations, im_counters = map_of counters\<rparr> }"

definition empty_runtime :: runtime_db where
  "empty_runtime = \<lparr>im_gate = \<lparr>gd_challenges = [], gd_keys = []\<rparr>,
     im_enroll = \<lparr>en_enrollments = [], en_challenges = [], en_nodes = Map.empty, en_roots = [], en_events = []\<rparr>,
     im_revocations = Map.empty, im_counters = Map.empty\<rparr>"

text \<open>The import: whether the destination was created, and the committed database.  \<open>open_source\<close> opens the resolved source file.\<close>

definition importDemoEnrollment ::
  "file_system \<Rightarrow> (string \<Rightarrow> enrollment_source option) \<Rightarrow> string option \<Rightarrow> string \<Rightarrow> string \<Rightarrow> bool \<times> runtime_db option" where
  "importDemoEnrollment fs open_source sourceFile destination repo =
     (let checked = do {
            parent \<leftarrow> (if is_absolute destination then externalFile fs (path_dirname destination) repo else None);
            if fs_mode fs parent mod 64 \<noteq> 0 then None
            else case sourceFile of None \<Rightarrow> Some None
              | Some f \<Rightarrow> if f = [] then Some None else do { r \<leftarrow> privateFile fs f repo; src \<leftarrow> open_source r; Some (Some src) } }
      in case checked of None \<Rightarrow> (False, None)
         | Some source \<Rightarrow>
             if fs_exists fs destination then (False, None)
             else (True, case source of None \<Rightarrow> Some empty_runtime | Some src \<Rightarrow> import_tables src))"

section \<open>Properties\<close>

lemma strip_common_prefix: "fst (strip_common xs ys) = [] \<longleftrightarrow> (\<exists>zs. ys = xs @ zs)"
  by (induction xs ys rule: strip_common.induct) auto

lemma strip_common_down: "\<exists>c. ys = c @ snd (strip_common xs ys)"
proof (induction xs ys rule: strip_common.induct)
  case (1 x xs y ys)
  then show ?case by (cases "x = y") (auto, metis append_Cons)
qed auto

lemma join_dots: "up \<noteq> [] \<Longrightarrow> join_slash (map (\<lambda>_. ''..'') up @ down) = ''..'' \<or> take 3 (join_slash (map (\<lambda>_. ''..'') up @ down)) = ''../''"
  by (cases up; cases "map (\<lambda>_. ''..'') (tl up) @ down") auto

lemma split_slash_clean: "p \<in> set (split_slash s) \<Longrightarrow> CHR ''/'' \<notin> set p"
proof (induction s arbitrary: p)
  case (Cons c s)
  then show ?case by (cases "split_slash s") (auto split: if_splits)
qed auto

lemma path_parts_clean: "p \<in> set (path_parts s) \<Longrightarrow> CHR ''/'' \<notin> set p \<and> p \<noteq> []"
  using split_slash_clean by (auto simp: path_parts_def)

text \<open>A file counts as inside the repository exactly when the repository's components begin the file's path.\<close>

lemma within_prefix:
  assumes "''..'' \<notin> set (path_parts file)"
  shows "within root file \<longleftrightarrow> (\<exists>rest. path_parts file = path_parts root @ rest)"
proof -
  obtain up down where s: "strip_common (path_parts root) (path_parts file) = (up, down)" by fastforce
  obtain c where c: "path_parts file = c @ down" using strip_common_down [of "path_parts file" "path_parts root"] s by auto
  show ?thesis
  proof (cases "up = []")
    case True
    have "join_slash down = [] \<or> take 3 (join_slash down) \<noteq> ''../'' \<and> join_slash down \<noteq> ''..'' \<and> \<not> is_absolute (join_slash down)"
    proof (cases down)
      case (Cons d ds)
      have "d \<in> set (path_parts file)" using c Cons by simp
      with path_parts_clean assms have d: "CHR ''/'' \<notin> set d" "d \<noteq> []" "d \<noteq> ''..''" by blast+
      obtain j where j: "join_slash down = d @ j" "j = [] \<or> hd j = CHR ''/''" using Cons by (cases ds) auto
      have "take 3 (d @ j) \<noteq> ''../''"
      proof
        assume t: "take 3 (d @ j) = ''../''"
        with d show False using j(2) by (cases d; cases "tl d"; cases "tl (tl d)"; cases j) (auto simp: take_Cons split: if_splits)
      qed
      moreover have "d @ j \<noteq> ''..''" using d j(2) by (cases d; cases "tl d"; cases "tl (tl d)") (auto simp: append_eq_Cons_conv)
      moreover have "\<not> is_absolute (d @ j)" using d by (cases d) (auto simp: is_absolute_def)
      ultimately show ?thesis using j(1) by simp
    qed simp
    then have "within root file" by (simp add: within_def path_relative_def s True Let_def)
    moreover have "\<exists>rest. path_parts file = path_parts root @ rest" using strip_common_prefix [of "path_parts root" "path_parts file"] s True by simp
    ultimately show ?thesis by blast
  next
    case False
    have "\<not> within root file" using join_dots [OF False, of down] by (auto simp: within_def path_relative_def s Let_def)
    moreover have "\<nexists>rest. path_parts file = path_parts root @ rest" using strip_common_prefix [of "path_parts root" "path_parts file"] s False by simp
    ultimately show ?thesis by blast
  qed
qed

lemma copy_table_Some: "copy_table optional P t = Some rs \<Longrightarrow> (t = Rows rs \<and> P rs) \<or> (optional \<and> t = NoTable \<and> rs = [])"
  by (auto simp: copy_table_def split: source_table.splits if_splits)


definition demo_files :: file_system where
  "demo_files = \<lparr>fs_realpath = Some, fs_isFile = (\<lambda>_. True), fs_mode = (\<lambda>_. 384), fs_exists = (\<lambda>_. False)\<rparr>"

definition demo_import :: enrollment_source where
  "demo_import = \<lparr>is_keys = Rows (gd_keys demo_gate_db), is_enrollments = Rows (en_enrollments demo_enroll_db), is_nodes = Rows [], is_roots = Rows [],
     is_events = Rows [], is_revocations = NoTable, is_counters = NoTable\<rparr>"

lemma demo_imported:
  "map_prod id (map_option (gd_keys \<circ> im_gate)) (importDemoEnrollment demo_files (\<lambda>_. Some demo_import) (Some ''/keys/source.sqlite'')
     ''/state/runtime.sqlite'' ''/repo'') = (True, Some (gd_keys demo_gate_db))"
  by code_simp


end
